(* ===== verification/Prelude.thy ===== *)
theory Prelude
  imports Main "HOL-Library.Sublist" "HOL-Library.Char_ord" "HOL-Library.Word"
begin

text \<open>
  Shared vocabulary of the development.  A Go \<open>string\<close> or \<open>[]byte\<close> is a HOL \<open>string\<close>, one
  \<open>char\<close> per byte.  A Go function that returns \<open>(T, error)\<close> is a value of the sum type
  \<open>'e + 'a\<close>, with \<open>Inl\<close> for the error.  The first section holds the functions of Go's
  \<open>strings\<close> package that the sources call (\<open>Split\<close>, \<open>Join\<close>, \<open>HasPrefix\<close>, \<open>TrimPrefix\<close>,
  \<open>Index\<close>, ...), each with the laws that the component theories use.
\<close>

named_theorems go_string "laws of the functions of package strings"
named_theorems go_result "laws of error results"

section \<open>Error results\<close>

type_synonym ('e, 'a) result = "'e + 'a"

text \<open>The loop \<open>for i, x := range xs { y, err := f(x); if err != nil { return err }; out[i] = y }\<close>.\<close>

fun map_result :: "('a \<Rightarrow> 'e + 'b) \<Rightarrow> 'a list \<Rightarrow> 'e + 'b list" where
  "map_result f [] = Inr []"
| "map_result f (x # xs) =
     (case f x of
        Inl e \<Rightarrow> Inl e
      | Inr y \<Rightarrow> (case map_result f xs of Inl e \<Rightarrow> Inl e | Inr ys \<Rightarrow> Inr (y # ys)))"

fun is_ok :: "'e + 'a \<Rightarrow> bool" where
  "is_ok (Inl _) = False"
| "is_ok (Inr _) = True"

lemma map_result_Inr_iff [go_result]:
  "map_result f xs = Inr ys \<longleftrightarrow> list_all2 (\<lambda>x y. f x = Inr y) xs ys"
proof (induction xs arbitrary: ys)
  case (Cons x xs)
  show ?case
    by (cases "f x"; cases "map_result f xs")
      (auto simp: list_all2_Cons1 Cons.IH[symmetric])
qed auto

lemma map_result_Inl [go_result]:
  "map_result f xs = Inl e \<Longrightarrow> \<exists>x\<in>set xs. f x = Inl e"
  by (induction xs) (auto split: sum.splits)

lemma map_result_id [go_result]:
  "(\<And>x. x \<in> set xs \<Longrightarrow> f x = Inr x) \<Longrightarrow> map_result f xs = Inr xs"
  by (induction xs) auto

section \<open>Package strings\<close>

text \<open>\<open>strings.Split(s, sep)\<close> for a separator of one byte.\<close>

fun Split :: "char \<Rightarrow> string \<Rightarrow> string list" where
  "Split sep [] = [[]]"
| "Split sep (c # s) =
     (if c = sep then [] # Split sep s
      else (c # hd (Split sep s)) # tl (Split sep s))"

text \<open>\<open>strings.Join(parts, sep)\<close>.\<close>

fun Join :: "string \<Rightarrow> string list \<Rightarrow> string" where
  "Join sep [] = []"
| "Join sep [p] = p"
| "Join sep (p # q # ps) = p @ sep @ Join sep (q # ps)"

definition HasPrefix :: "string \<Rightarrow> string \<Rightarrow> bool" where
  "HasPrefix s p = (take (length p) s = p)"

definition HasSuffix :: "string \<Rightarrow> string \<Rightarrow> bool" where
  "HasSuffix s p = (length p \<le> length s \<and> drop (length s - length p) s = p)"

definition TrimPrefix :: "string \<Rightarrow> string \<Rightarrow> string" where
  "TrimPrefix s p = (if HasPrefix s p then drop (length p) s else s)"

definition TrimSuffix :: "string \<Rightarrow> string \<Rightarrow> string" where
  "TrimSuffix s p = (if HasSuffix s p then take (length s - length p) s else s)"

text \<open>\<open>strings.ContainsAny(s, chars)\<close> and, with one byte, \<open>strings.ContainsRune\<close>.\<close>

definition ContainsAny :: "string \<Rightarrow> string \<Rightarrow> bool" where
  "ContainsAny s chars = list_ex (\<lambda>c. c \<in> set chars) s"

text \<open>\<open>strings.Index(s, sub)\<close>; the result -1 is \<open>None\<close>.\<close>

fun Index :: "string \<Rightarrow> string \<Rightarrow> nat option" where
  "Index s sub =
     (if HasPrefix s sub then Some 0
      else (case s of [] \<Rightarrow> None | c # s' \<Rightarrow> map_option Suc (Index s' sub)))"

declare Index.simps [simp del]

definition Contains :: "string \<Rightarrow> string \<Rightarrow> bool" where
  "Contains s sub = (Index s sub \<noteq> None)"

text \<open>ASCII case folding, as \<open>strings.ToLower\<close> and \<open>strings.ToUpper\<close> do on ASCII input.\<close>

definition lower_byte :: "char \<Rightarrow> char" where
  "lower_byte c = (if CHR ''A'' \<le> c \<and> c \<le> CHR ''Z'' then char_of (of_char c + 32 :: nat) else c)"

definition upper_byte :: "char \<Rightarrow> char" where
  "upper_byte c = (if CHR ''a'' \<le> c \<and> c \<le> CHR ''z'' then char_of (of_char c - 32 :: nat) else c)"

text \<open>\<open>strconv.FormatUint(n, 10)\<close>.\<close>

fun FormatUint :: "nat \<Rightarrow> string" where
  "FormatUint n = (if n < 10 then [char_of (48 + n)] else FormatUint (n div 10) @ [char_of (48 + n mod 10)])"

declare FormatUint.simps [simp del]

subsection \<open>Split and Join\<close>

lemma Split_not_Nil [simp]: "Split sep s \<noteq> []"
  by (cases s) auto

lemma Split_Cons_hd_tl [simp]: "hd (Split sep s) # tl (Split sep s) = Split sep s"
  by (simp add: list.collapse)

lemma Join_Cons: "ps \<noteq> [] \<Longrightarrow> Join sep (p # ps) = p @ sep @ Join sep ps"
  by (cases ps) auto

lemma Join_Cons_char: "Join sep ((c # p) # ps) = c # Join sep (p # ps)"
  by (cases ps) auto

lemma Join_Split [go_string]: "Join [sep] (Split sep s) = s"
  by (induction s) (simp_all add: Join_Cons Join_Cons_char)

lemma Split_no_sep [go_string]: "p \<in> set (Split sep s) \<Longrightarrow> sep \<notin> set p"
proof (induction s arbitrary: p)
  case (Cons c s)
  have "hd (Split sep s) \<in> set (Split sep s)" by simp
  then show ?case
    using Cons by (auto split: if_splits dest: list.set_sel(2)[rotated])
qed simp

lemma Split_append_sep: "sep \<notin> set p \<Longrightarrow> Split sep (p @ sep # s) = p # Split sep s"
  by (induction p) auto

lemma Split_single: "sep \<notin> set p \<Longrightarrow> Split sep p = [p]"
  by (induction p) auto

lemma Split_Join [go_string]:
  assumes "ps \<noteq> []" and "\<And>p. p \<in> set ps \<Longrightarrow> sep \<notin> set p"
  shows "Split sep (Join [sep] ps) = ps"
  using assms by (induction "[sep]" ps rule: Join.induct) (auto simp: Split_append_sep Split_single)

lemma Split_append: "Split sep (a @ sep # b) = Split sep a @ Split sep b"
  by (induction a) (simp_all add: hd_append tl_append split: list.splits)

lemma Join_append: "xs \<noteq> [] \<Longrightarrow> ys \<noteq> [] \<Longrightarrow> Join sep (xs @ ys) = Join sep xs @ sep @ Join sep ys"
  by (induction sep xs rule: Join.induct) (auto simp: Join_Cons)

lemma set_part_Join: "p \<in> set ps \<Longrightarrow> set p \<subseteq> set (Join sep ps)"
  by (induction sep ps rule: Join.induct) auto

lemma Split_set: "p \<in> set (Split sep s) \<Longrightarrow> set p \<subseteq> set s"
  using set_part_Join[of p "Split sep s" "[sep]"] by (simp add: Join_Split)

lemma set_Join: "set (Join sep ps) \<subseteq> set sep \<union> \<Union> (set ` set ps)"
  by (induction sep ps rule: Join.induct) auto

lemma Join_inj:
  assumes "Join [sep] ps = Join [sep] qs" "ps \<noteq> []" "qs \<noteq> []"
    and "\<And>p. p \<in> set ps \<Longrightarrow> sep \<notin> set p" "\<And>q. q \<in> set qs \<Longrightarrow> sep \<notin> set q"
  shows "ps = qs"
  using assms Split_Join by metis

subsection \<open>Prefixes, suffixes and substrings\<close>

lemma HasPrefix_iff [go_string]: "HasPrefix s p \<longleftrightarrow> (\<exists>r. s = p @ r)"
  by (metis HasPrefix_def append_eq_conv_conj append_take_drop_id)

lemma HasSuffix_iff [go_string]: "HasSuffix s p \<longleftrightarrow> (\<exists>r. s = r @ p)"
  unfolding HasSuffix_def
  by (metis append_eq_conv_conj append_take_drop_id diff_diff_cancel diff_le_self
      length_append length_drop le_add2 add_diff_cancel_right')

lemma TrimPrefix_append [simp]: "TrimPrefix (p @ r) p = r"
  by (simp add: TrimPrefix_def HasPrefix_def)

lemma TrimPrefix_Cons [simp]: "TrimPrefix (c # r) [c] = r"
  using TrimPrefix_append[of "[c]" r] by simp

lemma ContainsAny_iff [go_string]: "ContainsAny s cs \<longleftrightarrow> (\<exists>c\<in>set s. c \<in> set cs)"
  by (auto simp: ContainsAny_def list_ex_iff)

lemma Index_Some_split:
  "Index s sub = Some i \<Longrightarrow> s = take i s @ sub @ drop (i + length sub) s"
proof (induction s sub arbitrary: i rule: Index.induct)
  case (1 s sub)
  show ?case
  proof (cases "HasPrefix s sub")
    case True
    then show ?thesis using 1 by (auto simp: HasPrefix_iff Index.simps[of s])
  next
    case False
    then show ?thesis using 1 by (cases s) (auto simp: Index.simps[of "_ # _"] Index.simps[of "[]"])
  qed
qed

text \<open>The index found is the leftmost one: any other occurrence leaves a shorter remainder.\<close>

lemma Index_leftmost:
  "s = u @ sub @ r \<Longrightarrow> \<exists>i. Index s sub = Some i \<and> (\<exists>x. drop (i + length sub) s = x @ r)"
proof (induction u arbitrary: s)
  case Nil
  then have "HasPrefix s sub" by (auto simp: HasPrefix_iff)
  then have "Index s sub = Some 0" by (simp add: Index.simps)
  then show ?case using Nil by auto
next
  case (Cons c u)
  show ?case
  proof (cases "HasPrefix s sub")
    case True
    then have ix: "Index s sub = Some 0" by (simp add: Index.simps)
    have "s = (c # u @ sub) @ r" using Cons.prems by simp
    then have "drop (length sub) s = drop (length sub) (c # u @ sub) @ r"
      by (simp only: drop_append) simp
    then show ?thesis using ix by auto
  next
    case False
    define t where "t = u @ sub @ r"
    obtain i x where "Index t sub = Some i" "drop (i + length sub) t = x @ r"
      using Cons.IH[of t] t_def by blast
    moreover have "s = c # t" using Cons.prems t_def by simp
    ultimately show ?thesis using False by (auto simp: Index.simps[of "c # t"])
  qed
qed

lemma Index_length: "Index s sub = Some i \<Longrightarrow> i + length sub \<le> length s"
proof (induction s sub arbitrary: i rule: Index.induct)
  case (1 s sub)
  show ?case
  proof (cases "HasPrefix s sub")
    case True
    then have "i = 0" using 1(2) by (simp add: Index.simps[of s])
    then show ?thesis using True by (auto simp: HasPrefix_iff)
  next
    case False
    then obtain c t j where "s = c # t" "Index t sub = Some j" "i = Suc j"
      using 1(2) by (cases s) (auto simp: Index.simps[of "_ # _"] Index.simps[of "[]"])
    then show ?thesis using 1(1)[OF False] by fastforce
  qed
qed

lemma Index_first:
  assumes "Index s sub = Some i" and "sub \<noteq> []"
  shows "\<not> (\<exists>u r. take i s = u @ sub @ r)"
proof
  assume "\<exists>u r. take i s = u @ sub @ r"
  then obtain u r where "take i s = u @ sub @ r" by blast
  then have "s = u @ sub @ (r @ drop i s)" by (metis append.assoc append_take_drop_id)
  from Index_leftmost[OF this] obtain x where "drop (i + length sub) s = x @ r @ drop i s"
    unfolding assms(1) by blast
  then have "length s - (i + length sub) \<ge> length s - i" by (metis length_append length_drop le_add2 le_trans)
  then show False using Index_length[OF assms(1)] assms(2) by (cases sub) auto
qed

lemma Contains_iff [go_string]: "Contains s sub \<longleftrightarrow> (\<exists>u r. s = u @ sub @ r)"
  unfolding Contains_def using Index_Some_split Index_leftmost by (metis option.exhaust option.distinct(1))

end
