(* ===== verification/Utf8.thy ===== *)
theory Utf8
  imports Prelude
begin

text \<open>
  UTF-8 as the language and package \<open>unicode/utf8\<close> define it: the code points of a string, with the replacement
  character for a byte that starts no valid sequence, and the bytes of a code point.
\<close>

section \<open>Decoding and encoding\<close>

text \<open>
  \<open>for _, r := range s\<close> and \<open>[]rune(s)\<close>: the code points of a string; a byte that starts no valid UTF-8
  sequence is the replacement character.
\<close>

definition byteIn :: "nat \<Rightarrow> nat \<Rightarrow> char \<Rightarrow> bool" where
  "byteIn lo hi c \<longleftrightarrow> lo \<le> of_char c \<and> of_char c \<le> hi"

definition tailBits :: "char \<Rightarrow> nat" where
  "tailBits c = of_char c - 0x80"

fun decodeTwo :: "nat \<Rightarrow> string \<Rightarrow> nat \<times> nat" where
  "decodeTwo b (c1 # s) = (if byteIn 0x80 0xBF c1 then ((b - 0xC0) * 0x40 + tailBits c1, 1) else (0xFFFD, 0))"
| "decodeTwo b [] = (0xFFFD, 0)"

fun decodeThree :: "nat \<Rightarrow> string \<Rightarrow> nat \<times> nat" where
  "decodeThree b (c1 # c2 # s) =
     (if byteIn (if b = 0xE0 then 0xA0 else 0x80) (if b = 0xED then 0x9F else 0xBF) c1 \<and> byteIn 0x80 0xBF c2
      then ((b - 0xE0) * 0x1000 + tailBits c1 * 0x40 + tailBits c2, 2) else (0xFFFD, 0))"
| "decodeThree b _ = (0xFFFD, 0)"

fun decodeFour :: "nat \<Rightarrow> string \<Rightarrow> nat \<times> nat" where
  "decodeFour b (c1 # c2 # c3 # s) =
     (if byteIn (if b = 0xF0 then 0x90 else 0x80) (if b = 0xF4 then 0x8F else 0xBF) c1 \<and> byteIn 0x80 0xBF c2 \<and>
         byteIn 0x80 0xBF c3
      then ((b - 0xF0) * 0x40000 + tailBits c1 * 0x1000 + tailBits c2 * 0x40 + tailBits c3, 3) else (0xFFFD, 0))"
| "decodeFour b _ = (0xFFFD, 0)"

definition decodeRune :: "char \<Rightarrow> string \<Rightarrow> nat \<times> nat" where
  "decodeRune c s =
     (let b = of_char c in
      if b < 0x80 then (b, 0)
      else if 0xC2 \<le> b \<and> b \<le> 0xDF then decodeTwo b s
      else if 0xE0 \<le> b \<and> b \<le> 0xEF then decodeThree b s
      else if 0xF0 \<le> b \<and> b \<le> 0xF4 then decodeFour b s
      else (0xFFFD, 0))"

fun decodeRunes :: "string \<Rightarrow> nat list" where
  "decodeRunes [] = []"
| "decodeRunes (c # s) = (case decodeRune c s of (r, n) \<Rightarrow> r # decodeRunes (drop n s))"

definition isScalarValue :: "nat \<Rightarrow> bool" where
  "isScalarValue r \<longleftrightarrow> r < 0xD800 \<or> (0xE000 \<le> r \<and> r \<le> 0x10FFFF)"

text \<open>\<open>strings.Builder.WriteRune\<close>.\<close>

definition encodeRune :: "nat \<Rightarrow> string" where
  "encodeRune r0 =
     (let r = (if isScalarValue r0 then r0 else 0xFFFD) in
      if r < 0x80 then [char_of r]
      else if r < 0x800 then [char_of (0xC0 + r div 0x40), char_of (0x80 + r mod 0x40)]
      else if r < 0x10000 then [char_of (0xE0 + r div 0x1000), char_of (0x80 + r div 0x40 mod 0x40), char_of (0x80 + r mod 0x40)]
      else [char_of (0xF0 + r div 0x40000), char_of (0x80 + r div 0x1000 mod 0x40),
            char_of (0x80 + r div 0x40 mod 0x40), char_of (0x80 + r mod 0x40)])"

text \<open>\<open>utf8.ValidString\<close>.\<close>

definition validUTF8 :: "string \<Rightarrow> bool" where
  "validUTF8 s \<longleftrightarrow> concat (map encodeRune (decodeRunes s)) = s"

section \<open>ASCII\<close>

definition ascii :: "string \<Rightarrow> bool" where
  "ascii s \<longleftrightarrow> list_all (\<lambda>c. (of_char c :: nat) < 0x80) s"

lemma ascii_simps [simp]: "ascii []" "ascii (c # s) \<longleftrightarrow> (of_char c :: nat) < 0x80 \<and> ascii s" "ascii (s @ t) \<longleftrightarrow> ascii s \<and> ascii t"
  by (simp_all add: ascii_def)

lemma encodeRune_ascii: "r < 0x80 \<Longrightarrow> encodeRune r = [char_of r]"
  by (simp add: encodeRune_def isScalarValue_def Let_def)

lemma decodeRunes_ascii: "ascii s \<Longrightarrow> decodeRunes s = map of_char s"
  by (induction s) (auto simp: decodeRune_def Let_def)

lemma validUTF8_ascii: "ascii s \<Longrightarrow> validUTF8 s"
proof -
  have "ascii s \<Longrightarrow> concat (map encodeRune (map of_char s)) = s" by (induction s) (auto simp: encodeRune_ascii)
  then show "ascii s \<Longrightarrow> validUTF8 s" by (simp add: validUTF8_def decodeRunes_ascii)
qed

end
