(* ===== verification/RoutePath.thy ===== *)
theory RoutePath
  imports Prelude
begin

text \<open>
  Package \<open>internal/connections/routepath\<close>: the one routine every authority check of the program
  shares.  \<open>Canonicalise\<close> brings a request path to its normal form or rejects it, \<open>Match\<close>
  compares a canonical path with a route glob, \<open>HasPathPrefix\<close> decides containment in an allowed
  subtree, and a \<open>Template\<close> is a path whose whole segments may be named placeholders.

  The byte loops of the source that step over an escape with \<open>i += 2\<close> are recursions on the
  remaining bytes.  An access beyond the end of the segment, which Go answers with a panic, is the
  error value \<open>IndexOutOfRange\<close>; \<open>Canonicalise_no_panic\<close> shows it unreachable.
\<close>

section \<open>Canonicalise\<close>

datatype routepath_error =
    ErrNotAbsolute
  | ErrBackslash
  | ErrControlOrSpace
  | ErrMalformedEscape
  | ErrEncodedSeparator
  | ErrDotSegment
  | ErrEmptySegment
  | ErrQueryOrFragment
  | IndexOutOfRange

definition isHex :: "char \<Rightarrow> bool" where
  "isHex b =
     ((CHR ''0'' \<le> b \<and> b \<le> CHR ''9'') \<or> (CHR ''a'' \<le> b \<and> b \<le> CHR ''f'') \<or>
      (CHR ''A'' \<le> b \<and> b \<le> CHR ''F''))"

definition hexVal :: "char \<Rightarrow> 8 word" where
  "hexVal b =
     (if CHR ''0'' \<le> b \<and> b \<le> CHR ''9'' then of_char b - of_char CHR ''0''
      else if CHR ''a'' \<le> b \<and> b \<le> CHR ''f'' then of_char b - of_char CHR ''a'' + 10
      else of_char b - of_char CHR ''A'' + 10)"

definition hexByte :: "char \<Rightarrow> char \<Rightarrow> char" where
  "hexByte hi lo = char_of (unat (or (push_bit 4 (hexVal hi)) (hexVal lo)))"

definition isUnreserved :: "char \<Rightarrow> bool" where
  "isUnreserved b =
     (if (CHR ''A'' \<le> b \<and> b \<le> CHR ''Z'') \<or> (CHR ''a'' \<le> b \<and> b \<le> CHR ''z'') \<or>
         (CHR ''0'' \<le> b \<and> b \<le> CHR ''9'') then True
      else b = CHR ''-'' \<or> b = CHR ''.'' \<or> b = CHR ''_'' \<or> b = CHR ''~'')"

text \<open>The bytes \<open>fmt.Fprintf\<close> writes for the format \<open>%%%02x\<close>.\<close>

definition hexDigit :: "nat \<Rightarrow> char" where
  "hexDigit n = (if n < 10 then char_of (48 + n) else char_of (87 + n))"

definition percentEncode :: "char \<Rightarrow> string" where
  "percentEncode b = [CHR ''%'', hexDigit (of_char b div 16), hexDigit (of_char b mod 16)]"

fun checkEscapesWellFormed :: "string \<Rightarrow> routepath_error option" where
  "checkEscapesWellFormed [] = None"
| "checkEscapesWellFormed (c # rest) =
     (if c \<noteq> CHR ''%'' then checkEscapesWellFormed rest
      else (case rest of
              hi # lo # rest' \<Rightarrow>
                if \<not> isHex hi \<or> \<not> isHex lo then Some ErrMalformedEscape
                else if hexByte hi lo = CHR ''/'' \<or> hexByte hi lo = CHR 0x5C
                then Some ErrEncodedSeparator
                else checkEscapesWellFormed rest'
            | _ \<Rightarrow> Some ErrMalformedEscape))"

text \<open>
  The loop of \<open>canonicaliseSegment\<close>: the bytes written to \<open>decodedForDotCheck\<close> and to
  \<open>normalised\<close>.
\<close>

fun normaliseBytes :: "string \<Rightarrow> (routepath_error, string \<times> string) result" where
  "normaliseBytes [] = Inr ([], [])"
| "normaliseBytes (c # rest) =
     (if c \<noteq> CHR ''%'' then
        (case normaliseBytes rest of Inl e \<Rightarrow> Inl e | Inr (d, n) \<Rightarrow> Inr (c # d, c # n))
      else (case rest of
              hi # lo # rest' \<Rightarrow>
                (case normaliseBytes rest' of
                   Inl e \<Rightarrow> Inl e
                 | Inr (d, n) \<Rightarrow>
                     Inr (hexByte hi lo # d,
                          (if isUnreserved (hexByte hi lo) then [hexByte hi lo]
                           else percentEncode (hexByte hi lo)) @ n))
            | _ \<Rightarrow> Inl IndexOutOfRange))"

definition canonicaliseSegment :: "string \<Rightarrow> (routepath_error, string) result" where
  "canonicaliseSegment seg =
     (if seg = [] then Inl ErrEmptySegment
      else if seg = ''.'' \<or> seg = ''..'' then Inl ErrDotSegment
      else (case normaliseBytes seg of
              Inl e \<Rightarrow> Inl e
            | Inr (d, n) \<Rightarrow> if d = ''.'' \<or> d = ''..'' then Inl ErrDotSegment else Inr n))"

definition controlOrSpace :: "char \<Rightarrow> bool" where
  "controlOrSpace b = (of_char b \<le> (0x20::nat) \<or> of_char b = (0x7f::nat))"

definition Canonicalise :: "string \<Rightarrow> (routepath_error, string) result" where
  "Canonicalise raw =
     (if \<not> HasPrefix raw ''/'' then Inl ErrNotAbsolute
      else if ContainsAny raw [CHR 0x5C] then Inl ErrBackslash
      else if ContainsAny raw ''?#'' then Inl ErrQueryOrFragment
      else if list_ex controlOrSpace raw then Inl ErrControlOrSpace
      else (case checkEscapesWellFormed raw of
              Some e \<Rightarrow> Inl e
            | None \<Rightarrow>
                if raw = ''/'' then Inr ''/''
                else (case map_result canonicaliseSegment (Split CHR ''/'' (tl raw)) of
                        Inl e \<Rightarrow> Inl e
                      | Inr out \<Rightarrow> Inr (''/'' @ Join ''/'' out))))"

section \<open>Match\<close>

text \<open>The loop over the literal parts between the first and the last.\<close>

fun matchMiddle :: "string list \<Rightarrow> string \<Rightarrow> bool" where
  "matchMiddle [] seg = True"
| "matchMiddle (part # parts) seg =
     (if part = [] then matchMiddle parts seg
      else (case Index seg part of
              None \<Rightarrow> False
            | Some idx \<Rightarrow> matchMiddle parts (drop (idx + length part) seg)))"

definition matchSegment :: "string \<Rightarrow> string \<Rightarrow> bool" where
  "matchSegment pattern seg =
     (if \<not> Contains pattern ''*'' then pattern = seg
      else let parts = Split CHR ''*'' pattern;
               first = hd parts;
               last_part = last parts in
        if \<not> HasPrefix seg first then False
        else let seg1 = drop (length first) seg in
          if \<not> HasSuffix seg1 last_part then False
          else let seg2 = take (length seg1 - length last_part) seg1 in
            matchMiddle (butlast (tl parts)) seg2)"

definition Match :: "string \<Rightarrow> string \<Rightarrow> bool" where
  "Match pattern path =
     (let patternSegs = Split CHR ''/'' (TrimPrefix pattern ''/'');
          pathSegs = Split CHR ''/'' (TrimPrefix path ''/'') in
        if length patternSegs \<noteq> length pathSegs then False
        else list_all2 matchSegment patternSegs pathSegs)"

section \<open>HasPathPrefix\<close>

definition HasPathPrefix :: "string \<Rightarrow> string \<Rightarrow> bool" where
  "HasPathPrefix canonicalPath canonicalPrefix =
     (if canonicalPrefix = ''/'' \<or> canonicalPath = canonicalPrefix then True
      else HasPrefix canonicalPath (TrimSuffix canonicalPrefix ''/'' @ ''/''))"

section \<open>Path templates\<close>

datatype template_error =
    CanonErr routepath_error
  | ErrTemplateBrace
  | ErrPlaceholderName
  | ErrPlaceholderValue
  | ErrPlaceholderAbsent

text \<open>A segment is a canonical literal (an empty \<open>placeholder\<close>) or a named placeholder.\<close>

record templateSegment =
  literal :: string
  placeholder :: string

record Template =
  raw :: string
  segments :: "templateSegment list"

definition isAlpha :: "char \<Rightarrow> bool" where
  "isAlpha b = ((CHR ''A'' \<le> b \<and> b \<le> CHR ''Z'') \<or> (CHR ''a'' \<le> b \<and> b \<le> CHR ''z''))"

definition isWordByte :: "char \<Rightarrow> bool" where
  "isWordByte b = (isAlpha b \<or> (CHR ''0'' \<le> b \<and> b \<le> CHR ''9'') \<or> b = CHR ''_'')"

text \<open>The regular expression \<open>placeholderName\<close>.\<close>

definition placeholderName :: "string \<Rightarrow> bool" where
  "placeholderName name =
     (case name of [] \<Rightarrow> False
      | c # cs \<Rightarrow> isAlpha c \<and> length cs \<le> 31 \<and> list_all isWordByte cs)"

text \<open>
  One round of the first loop of \<open>ParseTemplate\<close>: the template segment and the stand-in segment
  for \<open>part\<close>.
\<close>

definition parseTemplatePart ::
    "string \<Rightarrow> (template_error, templateSegment \<times> string) result" where
  "parseTemplatePart part =
     (if ContainsAny part ''{}'' then
        if length part < 3 \<or> hd part \<noteq> CHR ''{'' \<or> last part \<noteq> CHR ''}'' \<or>
           ContainsAny (butlast (tl part)) ''{}''
        then Inl ErrTemplateBrace
        else if \<not> placeholderName (butlast (tl part)) then Inl ErrPlaceholderName
        else Inr (\<lparr>literal = [], placeholder = butlast (tl part)\<rparr>, ''x'')
      else Inr (\<lparr>literal = [], placeholder = []\<rparr>, part))"

definition fillLiteral :: "templateSegment \<Rightarrow> string \<Rightarrow> templateSegment" where
  "fillLiteral s seg = (if placeholder s = [] then s\<lparr>literal := seg\<rparr> else s)"

definition ParseTemplate :: "string \<Rightarrow> (template_error, Template) result" where
  "ParseTemplate r =
     (if r = ''/'' then
        (case Canonicalise r of
           Inl e \<Rightarrow> Inl (CanonErr e)
         | Inr _ \<Rightarrow> Inr \<lparr>raw = r, segments = []\<rparr>)
      else if \<not> HasPrefix r ''/'' then Inl (CanonErr ErrNotAbsolute)
      else (case map_result parseTemplatePart (Split CHR ''/'' (tl r)) of
              Inl e \<Rightarrow> Inl e
            | Inr parsed \<Rightarrow>
                (case Canonicalise (''/'' @ Join ''/'' (map snd parsed)) of
                   Inl e \<Rightarrow> Inl (CanonErr e)
                 | Inr canonical \<Rightarrow>
                     Inr \<lparr>raw = r,
                          segments = map2 fillLiteral (map fst parsed)
                                       (Split CHR ''/'' (tl canonical))\<rparr>)))"

definition Placeholders :: "Template \<Rightarrow> string list" where
  "Placeholders t = filter (\<lambda>n. n \<noteq> []) (map placeholder (segments t))"

fun coveredSegment :: "string \<Rightarrow> templateSegment \<Rightarrow> bool" where
  "coveredSegment glob s =
     (if placeholder s \<noteq> [] then glob = ''*'' else matchSegment glob (literal s))"

definition CoveredBy :: "Template \<Rightarrow> string \<Rightarrow> bool" where
  "CoveredBy t pattern =
     (case Canonicalise pattern of
        Inl _ \<Rightarrow> False
      | Inr canonical \<Rightarrow>
          if segments t = [] then canonical = ''/''
          else let globSegments = Split CHR ''/'' (TrimPrefix canonical ''/'') in
            if canonical = ''/'' \<or> length globSegments \<noteq> length (segments t) then False
            else list_all2 coveredSegment globSegments (segments t))"

definition ValidPlaceholderValue :: "string \<Rightarrow> bool" where
  "ValidPlaceholderValue v =
     (if v = [] \<or> length v > 128 \<or> v = ''.'' \<or> v = ''..'' then False
      else list_all (\<lambda>b. isUnreserved b \<or> b = CHR '':'' \<or> b = CHR ''@'') v)"

definition expandSegment ::
    "(string \<rightharpoonup> string) \<Rightarrow> templateSegment \<Rightarrow> (template_error, string) result" where
  "expandSegment vals s =
     (if placeholder s = [] then Inr (literal s)
      else (case vals (placeholder s) of
              None \<Rightarrow> Inl ErrPlaceholderAbsent
            | Some v \<Rightarrow> if \<not> ValidPlaceholderValue v then Inl ErrPlaceholderValue else Inr v))"

definition Expand :: "Template \<Rightarrow> (string \<rightharpoonup> string) \<Rightarrow> (template_error, string) result" where
  "Expand t vals =
     (if segments t = [] then Inr ''/''
      else (case map_result (expandSegment vals) (segments t) of
              Inl e \<Rightarrow> Inl e
            | Inr out \<Rightarrow>
                (case Canonicalise (''/'' @ Join ''/'' out) of
                   Inl e \<Rightarrow> Inl (CanonErr e)
                 | Inr p \<Rightarrow> Inr p)))"

section \<open>Specification\<close>

text \<open>A byte that the checks over the whole path let stand inside a segment.\<close>

definition pathByte :: "char \<Rightarrow> bool" where
  "pathByte b = (b \<noteq> CHR ''/'' \<and> b \<noteq> CHR 0x5C \<and> b \<noteq> CHR ''?'' \<and> b \<noteq> CHR ''#'' \<and> \<not> controlOrSpace b)"

definition wellFormedSegment :: "string \<Rightarrow> bool" where
  "wellFormedSegment s = (list_all pathByte s \<and> checkEscapesWellFormed s = None)"

definition segmentNormalises :: "string \<Rightarrow> string \<Rightarrow> bool" where
  "segmentNormalises s n = (wellFormedSegment s \<and> canonicaliseSegment s = Inr n)"

text \<open>The segments of a path; the bare root has none.\<close>

definition pathSegments :: "string \<Rightarrow> string list" where
  "pathSegments p = (if p = ''/'' then [] else Split CHR ''/'' (tl p))"

text \<open>The reference semantics of a glob segment: \<open>*\<close> stands for any byte string.\<close>

fun globMatches :: "string \<Rightarrow> string \<Rightarrow> bool" where
  "globMatches [] s = (s = [])"
| "globMatches (p # ps) [] = (p = CHR ''*'' \<and> globMatches ps [])"
| "globMatches (p # ps) (c # s) =
     (if p = CHR ''*'' then globMatches ps (c # s) \<or> globMatches (p # ps) s
      else p = c \<and> globMatches ps s)"

text \<open>The middle parts occur one after another, in any of the possible ways.\<close>

fun inOrder :: "string list \<Rightarrow> string \<Rightarrow> bool" where
  "inOrder [] s = True"
| "inOrder (m # ms) s = (\<exists>u r. s = u @ m @ r \<and> inOrder ms r)"

definition wellFormedTemplate :: "Template \<Rightarrow> bool" where
  "wellFormedTemplate t =
     list_all (\<lambda>s. placeholder s = [] \<longrightarrow> segmentNormalises (literal s) (literal s)) (segments t)"

section \<open>Lemmas\<close>

subsection \<open>Escapes\<close>

lemma of_char_word: "k < 256 \<Longrightarrow> (of_char (char_of (k::nat)) :: 8 word) = of_nat k"
  using of_nat_of_char[of "char_of k", where 'a="8 word"] by simp

lemma hexVal_hexDigit: "n < 16 \<Longrightarrow> hexVal (hexDigit n) = of_nat n"
  by (auto simp: hexVal_def hexDigit_def less_eq_char_def of_char_word)

lemma isHex_hexDigit: "n < 16 \<Longrightarrow> isHex (hexDigit n)"
  by (auto simp: isHex_def hexDigit_def less_eq_char_def)

lemma or_push_bit_nibble:
  assumes "h < 16" "l < 16"
  shows "unat (or (push_bit 4 (of_nat h)) (of_nat l) :: 8 word) = 16 * h + l"
proof -
  have l: "(of_nat l :: 8 word) = take_bit 4 (of_nat l)" using assms
    by (simp add: take_bit_of_nat take_bit_nat_eq_self)
  have "and (push_bit 4 (of_nat h)) (take_bit 4 (of_nat l :: 8 word)) = 0"
    by (auto simp: bit_eq_iff bit_simps)
  then have "or (push_bit 4 (of_nat h)) (of_nat l :: 8 word) = push_bit 4 (of_nat h) + of_nat l"
    using l disjunctive_add_eq_or by metis
  then show ?thesis using assms by (simp add: push_bit_eq_mult unat_word_ariths unat_of_nat)
qed
lemma hexByte_hexDigit: "hexByte (hexDigit (of_char b div 16)) (hexDigit (of_char b mod 16)) = b"
  using or_push_bit_nibble[of "of_char b div 16" "of_char b mod 16"] nat_of_char_less_256[of b]
  by (simp add: hexByte_def hexVal_hexDigit less_mult_imp_div_less)

subsection \<open>Segments\<close>

lemma isUnreserved_pathByte: "isUnreserved b \<Longrightarrow> pathByte b \<and> b \<noteq> CHR ''%''"
  by (auto simp: isUnreserved_def pathByte_def controlOrSpace_def less_eq_char_def)

lemma isHex_pathByte: "isHex b \<Longrightarrow> pathByte b"
  by (auto simp: isHex_def pathByte_def controlOrSpace_def less_eq_char_def)

lemma percentEncode_shape:
  obtains h l where "percentEncode b = [CHR ''%'', h, l]" "isHex h" "isHex l" "hexByte h l = b"
  using isHex_hexDigit[of "of_char b div 16"] isHex_hexDigit[of "of_char b mod 16"]
    hexByte_hexDigit[of b] by (auto simp: percentEncode_def less_mult_imp_div_less)

lemma percentEncode_pathByte: "list_all pathByte (percentEncode b)"
proof -
  have "pathByte CHR ''%''" by (simp add: pathByte_def controlOrSpace_def)
  then show ?thesis by (rule_tac b = b in percentEncode_shape) (simp add: isHex_pathByte)
qed

lemma normaliseBytes_fixpoint:
  "checkEscapesWellFormed s = None \<Longrightarrow>
   \<exists>d n. normaliseBytes s = Inr (d, n) \<and> checkEscapesWellFormed n = None \<and>
         normaliseBytes n = Inr (d, n) \<and> (list_all pathByte s \<longrightarrow> list_all pathByte n) \<and>
         (s = [] \<longleftrightarrow> n = [])"
proof (induction s rule: checkEscapesWellFormed.induct)
  case (2 c rest)
  show ?case
  proof (cases "c = CHR ''%''")
    case False
    then show ?thesis using 2 by auto
  next
    case True
    then obtain hi lo r where rest: "rest = hi # lo # r" "isHex hi" "isHex lo"
      "hexByte hi lo \<noteq> CHR ''/''" "hexByte hi lo \<noteq> CHR 0x5C" "checkEscapesWellFormed r = None"
      using 2(3) by (auto split: list.splits if_splits)
    then obtain d n where IH: "normaliseBytes r = Inr (d, n)" "checkEscapesWellFormed n = None"
       "normaliseBytes n = Inr (d, n)" "list_all pathByte r \<longrightarrow> list_all pathByte n"
      using 2(2)[of hi "lo # r" lo r] True by auto
    obtain h l where pe: "percentEncode (hexByte hi lo) = [CHR ''%'', h, l]" "isHex h" "isHex l"
      "hexByte h l = hexByte hi lo" by (rule percentEncode_shape)
    show ?thesis
    proof (cases "isUnreserved (hexByte hi lo)")
      case u: True
      then have "normaliseBytes (c # rest) = Inr (hexByte hi lo # d, hexByte hi lo # n)"
        "checkEscapesWellFormed (hexByte hi lo # n) = None"
        "normaliseBytes (hexByte hi lo # n) = Inr (hexByte hi lo # d, hexByte hi lo # n)"
        using True rest(1) IH isUnreserved_pathByte[OF u] by simp_all
      then show ?thesis using IH(4) rest(1) isUnreserved_pathByte[OF u] by simp
    next
      case u: False
      then have "normaliseBytes (c # rest) = Inr (hexByte hi lo # d, CHR ''%'' # h # l # n)"
        "checkEscapesWellFormed (CHR ''%'' # h # l # n) = None"
        "normaliseBytes (CHR ''%'' # h # l # n) = Inr (hexByte hi lo # d, CHR ''%'' # h # l # n)"
        using True rest IH pe by simp_all
      then show ?thesis
        using IH(4) rest(1) pe(1) percentEncode_pathByte[of "hexByte hi lo"] by simp
    qed
  qed
qed simp

lemma canonicaliseSegment_fixpoint:
  assumes "wellFormedSegment s" "canonicaliseSegment s = Inr n"
  shows "wellFormedSegment n" "canonicaliseSegment n = Inr n" "n \<noteq> []"
proof -
  obtain d m where m: "normaliseBytes s = Inr (d, m)" "checkEscapesWellFormed m = None"
    "normaliseBytes m = Inr (d, m)" "list_all pathByte m" "s = [] \<longleftrightarrow> m = []"
    using normaliseBytes_fixpoint[of s] assms(1) by (auto simp: wellFormedSegment_def)
  then have n: "m = n" "n \<noteq> []" "d \<noteq> ''.''" "d \<noteq> ''..''"
    using assms(2) by (auto simp: canonicaliseSegment_def split: if_splits)
  then have "n \<noteq> ''.''" "n \<noteq> ''..''" using m(3) by auto
  then show "wellFormedSegment n" "canonicaliseSegment n = Inr n" "n \<noteq> []"
    using m n by (auto simp: wellFormedSegment_def canonicaliseSegment_def)
qed

lemma checkEscapes_append_slash:
  "checkEscapesWellFormed (a @ CHR ''/'' # b) = None \<longleftrightarrow>
   checkEscapesWellFormed a = None \<and> checkEscapesWellFormed b = None"
proof (induction a rule: checkEscapesWellFormed.induct)
  case (2 c rest)
  have "\<not> isHex CHR ''/''" by (simp add: isHex_def)
  then show ?case
  proof (cases "c = CHR ''%''")
    case True
    show ?thesis
    proof (cases rest)
      case Nil
      then show ?thesis using True by (cases b) (simp_all add: \<open>\<not> isHex CHR ''/''\<close>)
    next
      case (Cons hi rest1)
      then show ?thesis using True 2(2)[of hi rest1] \<open>\<not> isHex CHR ''/''\<close>
        by (cases rest1) simp_all
    qed
  qed (use 2 in simp)
qed simp

lemma checkEscapes_Join:
  "checkEscapesWellFormed (Join ''/'' ps) = None \<longleftrightarrow>
   list_all (\<lambda>p. checkEscapesWellFormed p = None) ps"
  by (induction "''/''" ps rule: Join.induct) (auto simp: checkEscapes_append_slash)

subsection \<open>Whole paths\<close>

lemma wellFormedSegment_no_slash: "wellFormedSegment s \<Longrightarrow> CHR ''/'' \<notin> set s"
  by (auto simp: wellFormedSegment_def pathByte_def list_all_iff)

lemma segmentNormalises_not_Nil: "segmentNormalises s n \<Longrightarrow> s \<noteq> [] \<and> n \<noteq> []"
  using canonicaliseSegment_fixpoint(3)[of s n]
  by (auto simp: segmentNormalises_def canonicaliseSegment_def)

lemma segmentNormalises_fixpoint: "segmentNormalises s n \<Longrightarrow> segmentNormalises n n"
  unfolding segmentNormalises_def using canonicaliseSegment_fixpoint by blast

lemma segmentNormalises_no_slash:
  "segmentNormalises s n \<Longrightarrow> CHR ''/'' \<notin> set s \<and> CHR ''/'' \<notin> set n"
  using segmentNormalises_fixpoint[of s n] wellFormedSegment_no_slash
  by (auto simp: segmentNormalises_def)

lemma list_all2_normalises_right:
  "list_all2 segmentNormalises ss ns \<Longrightarrow> list_all2 segmentNormalises ns ns"
  by (induction rule: list_all2_induct) (auto dest: segmentNormalises_fixpoint)

lemma list_all2_normalises_left:
  "list_all2 segmentNormalises ss ns \<Longrightarrow> list_all (\<lambda>s. CHR ''/'' \<notin> set s) ss"
  by (induction rule: list_all2_induct) (auto dest: segmentNormalises_no_slash)

lemma Join_slash_not_Nil:
  "list_all2 segmentNormalises ss ns \<Longrightarrow> ss \<noteq> [] \<Longrightarrow> Join ''/'' ss \<noteq> []"
  by (cases ss; cases "tl ss") (auto simp: list_all2_Cons1 dest: segmentNormalises_not_Nil)

lemma pathSegments_Join_left:
  assumes "list_all2 segmentNormalises ss ns" "ss \<noteq> []"
  shows "pathSegments (''/'' @ Join ''/'' ss) = ss"
  using Join_slash_not_Nil[OF assms] list_all2_normalises_left[OF assms(1)] assms(2)
  by (simp add: pathSegments_def Split_Join list_all_iff)

lemma pathSegments_Join:
  assumes "list_all2 segmentNormalises ss ns" "ss \<noteq> []"
  shows "pathSegments (''/'' @ Join ''/'' ss) = ss" "pathSegments (''/'' @ Join ''/'' ns) = ns"
  using pathSegments_Join_left[OF assms]
    pathSegments_Join_left[OF list_all2_normalises_right[OF assms(1)]] assms by auto

lemma pathByte_iff:
  "c = CHR ''/'' \<or> pathByte c \<longleftrightarrow>
   c \<noteq> CHR 0x5C \<and> c \<notin> set ''?#'' \<and> \<not> controlOrSpace c"
proof -
  have "\<not> controlOrSpace CHR ''/''" by (simp add: controlOrSpace_def)
  then show ?thesis by (cases "c = CHR ''/''") (simp_all add: pathByte_def)
qed

lemma pathBytes_Join:
  "list_all (list_all (\<lambda>c. c = CHR ''/'' \<or> pathByte c)) ps \<longleftrightarrow>
   list_all (\<lambda>c. c = CHR ''/'' \<or> pathByte c) (''/'' @ Join ''/'' ps)"
  by (induction "''/''" ps rule: Join.induct) simp_all

lemma pathBytes_no_slash:
  assumes "CHR ''/'' \<notin> set p"
  shows "list_all (\<lambda>c. c = CHR ''/'' \<or> pathByte c) p \<longleftrightarrow> list_all pathByte p"
  by (rule list.pred_cong) (use assms in auto)

lemma pathChecks_Join:
  assumes "\<And>p. p \<in> set ps \<Longrightarrow> CHR ''/'' \<notin> set p"
  shows "list_all (list_all pathByte) ps \<longleftrightarrow>
     \<not> ContainsAny (''/'' @ Join ''/'' ps) [CHR 0x5C] \<and>
     \<not> ContainsAny (''/'' @ Join ''/'' ps) ''?#'' \<and>
     \<not> list_ex controlOrSpace (''/'' @ Join ''/'' ps)"
proof -
  have "list_all (list_all pathByte) ps \<longleftrightarrow>
      list_all (list_all (\<lambda>c. c = CHR ''/'' \<or> pathByte c)) ps"
    by (rule list.pred_cong) (use assms pathBytes_no_slash in auto)
  also have "\<dots> \<longleftrightarrow> (\<forall>c\<in>set (''/'' @ Join ''/'' ps).
      c \<noteq> CHR 0x5C \<and> c \<notin> set ''?#'' \<and> \<not> controlOrSpace c)"
    unfolding pathBytes_Join by (simp only: list_all_iff pathByte_iff)
  finally show ?thesis
    unfolding ContainsAny_iff list_ex_iff by simp blast
qed

lemma Canonicalise_Inr_iff:
  "r \<noteq> ''/'' \<Longrightarrow> Canonicalise r = Inr c \<longleftrightarrow>
   HasPrefix r ''/'' \<and>
   (\<not> ContainsAny r [CHR 0x5C] \<and> \<not> ContainsAny r ''?#'' \<and> \<not> list_ex controlOrSpace r) \<and>
   checkEscapesWellFormed r = None \<and>
   (\<exists>ns. map_result canonicaliseSegment (Split CHR ''/'' (tl r)) = Inr ns \<and>
         c = ''/'' @ Join ''/'' ns)"
  by (cases "map_result canonicaliseSegment (Split CHR ''/'' (tl r))")
    (auto simp: Canonicalise_def split: option.splits)

lemma Canonicalise_Join:
  assumes "ps \<noteq> []" "ps \<noteq> [[]]" "\<And>p. p \<in> set ps \<Longrightarrow> CHR ''/'' \<notin> set p"
  shows "Canonicalise (''/'' @ Join ''/'' ps) = Inr c \<longleftrightarrow>
         (\<exists>ns. list_all2 segmentNormalises ps ns \<and> c = ''/'' @ Join ''/'' ns)"
proof -
  have ne: "Join ''/'' ps \<noteq> []" using assms(1,2) by (cases ps; cases "tl ps") auto
  have esc: "list_all (\<lambda>p. checkEscapesWellFormed p = None) ps \<longleftrightarrow>
      checkEscapesWellFormed (''/'' @ Join ''/'' ps) = None"
    using checkEscapes_append_slash[of "[]"] checkEscapes_Join by simp
  have wf: "list_all2 segmentNormalises ps ns \<longleftrightarrow>
      list_all (list_all pathByte) ps \<and> list_all (\<lambda>p. checkEscapesWellFormed p = None) ps \<and>
      map_result canonicaliseSegment ps = Inr ns" for ns
    by (auto simp: map_result_Inr_iff list_all2_conv_all_nth list_all_length
        wellFormedSegment_def segmentNormalises_def)
  have "''/'' @ Join ''/'' ps \<noteq> ''/''" "HasPrefix (''/'' @ Join ''/'' ps) ''/''"
    "Split CHR ''/'' (tl (''/'' @ Join ''/'' ps)) = ps"
    using ne Split_Join[OF assms(1,3)] by (simp_all add: HasPrefix_def)
  then show ?thesis
    using Canonicalise_Inr_iff[of "''/'' @ Join ''/'' ps" c] pathChecks_Join[OF assms(3)] esc wf
    by simp
qed

text \<open>Every accepted path is the bare root or a list of segments, each normalised alone.\<close>

lemma Canonicalise_cases:
  assumes "Canonicalise r = Inr c"
  obtains (root) "r = ''/''" "c = ''/''"
  | (segs) ss ns where "ss \<noteq> []" "list_all2 segmentNormalises ss ns"
      "r = ''/'' @ Join ''/'' ss" "c = ''/'' @ Join ''/'' ns"
proof (cases "r = ''/''")
  case True
  then have "c = ''/''" using assms by (simp add: Canonicalise_def split: if_splits option.splits)
  then show ?thesis using True root by simp
next
  case False
  define ss where "ss = Split CHR ''/'' (tl r)"
  have "HasPrefix r ''/''" using assms by (simp add: Canonicalise_def split: if_splits)
  then have r: "r = ''/'' @ Join ''/'' ss"
    using Join_Split[of "CHR ''/''" "tl r"] by (auto simp: ss_def HasPrefix_iff)
  have ne: "ss \<noteq> []" and noslash: "\<And>p. p \<in> set ss \<Longrightarrow> CHR ''/'' \<notin> set p"
    by (simp_all add: ss_def Split_no_sep)
  have "ss \<noteq> [[]]" using r False by (intro notI) simp
  note ss = ne this noslash
  obtain ns where "list_all2 segmentNormalises ss ns" "c = ''/'' @ Join ''/'' ns"
    using assms Canonicalise_Join[OF ss, of c] r by metis
  then show ?thesis using segs r ss(1) by blast
qed

lemma Canonicalise_segments:
  assumes "Canonicalise r = Inr c"
  shows "list_all2 segmentNormalises (pathSegments r) (pathSegments c)"
  using assms
proof (cases rule: Canonicalise_cases)
  case (segs ss ns)
  then show ?thesis using pathSegments_Join by simp
qed (simp add: pathSegments_def)

lemma Canonicalise_normal_segments:
  assumes "ns \<noteq> []" "list_all2 segmentNormalises ns ns"
  shows "Canonicalise (''/'' @ Join ''/'' ns) = Inr (''/'' @ Join ''/'' ns)"
proof -
  have "ns \<noteq> [[]]" using assms(2) segmentNormalises_not_Nil by auto
  moreover have "\<And>p. p \<in> set ns \<Longrightarrow> CHR ''/'' \<notin> set p"
    using list_all2_normalises_left[OF assms(2)] by (simp add: list_all_iff)
  ultimately show ?thesis
    using Canonicalise_Join[OF assms(1), of "''/'' @ Join ''/'' ns"] assms(2) by blast
qed

lemma Canonicalise_fixpoint:
  assumes "Canonicalise r = Inr c" shows "Canonicalise c = Inr c"
  using assms
proof (cases rule: Canonicalise_cases)
  case root
  then show ?thesis using assms by simp
next
  case (segs ss ns)
  then have "ns \<noteq> []" by auto
  then show ?thesis
    unfolding segs(4) using list_all2_normalises_right[OF segs(2)]
    by (rule Canonicalise_normal_segments)
qed

subsection \<open>Glob semantics\<close>

lemma globMatches_literal:
  "CHR ''*'' \<notin> set a \<Longrightarrow> globMatches (a @ ps) s \<longleftrightarrow> (\<exists>r. s = a @ r \<and> globMatches ps r)"
proof (induction a arbitrary: s)
  case (Cons x a)
  then show ?case by (cases s) auto
qed simp

lemma globMatches_star:
  "globMatches (CHR ''*'' # ps) s \<longleftrightarrow> (\<exists>u r. s = u @ r \<and> globMatches ps r)"
proof (induction s)
  case (Cons c s)
  have "globMatches (CHR ''*'' # ps) (c # s) \<longleftrightarrow>
      globMatches ps (c # s) \<or> globMatches (CHR ''*'' # ps) s" by simp
  also have "\<dots> \<longleftrightarrow> (\<exists>u r. c # s = u @ r \<and> globMatches ps r)"
    unfolding Cons by (metis append_Cons append_Nil append_eq_Cons_conv)
  finally show ?case .
qed simp

lemma inOrder_extend: "inOrder ms s \<Longrightarrow> inOrder ms (x @ s)"
  by (cases ms) (auto, metis append.assoc)

text \<open>Taking the leftmost occurrence of each part loses nothing.\<close>

lemma matchMiddle_inOrder: "matchMiddle ms s \<longleftrightarrow> inOrder ms s"
proof (induction ms arbitrary: s)
  case (Cons m ms)
  show ?case
  proof (cases "m = []")
    case True
    have "inOrder ms s \<longleftrightarrow> (\<exists>u r. s = u @ r \<and> inOrder ms r)"
      using inOrder_extend by (metis append_Nil)
    then show ?thesis using True Cons by simp
  next
    case False
    show ?thesis
    proof
      assume "matchMiddle (m # ms) s"
      then obtain i where "Index s m = Some i" "inOrder ms (drop (i + length m) s)"
        using False Cons by (auto split: option.splits)
      then show "inOrder (m # ms) s" using Index_Some_split[of s m i] by auto
    next
      assume "inOrder (m # ms) s"
      then obtain u r where "s = u @ m @ r" "inOrder ms r" by auto
      then obtain i x where "Index s m = Some i" "drop (i + length m) s = x @ r"
        using Index_leftmost by blast
      then show "matchMiddle (m # ms) s"
        using False Cons \<open>inOrder ms r\<close> inOrder_extend by simp
    qed
  qed
qed simp

lemma globMatches_parts:
  assumes "CHR ''*'' \<notin> set l" "\<And>m. m \<in> set ms \<Longrightarrow> CHR ''*'' \<notin> set m"
  shows "globMatches (CHR ''*'' # Join ''*'' (ms @ [l])) s \<longleftrightarrow> (\<exists>m. s = m @ l \<and> inOrder ms m)"
  using assms
proof (induction ms arbitrary: s)
  case Nil
  then show ?case using globMatches_literal[of l "[]"] by (auto simp: globMatches_star)
next
  case (Cons m ms)
  have "globMatches (CHR ''*'' # Join ''*'' ((m # ms) @ [l])) s \<longleftrightarrow>
      (\<exists>u r. s = u @ m @ r \<and> globMatches (CHR ''*'' # Join ''*'' (ms @ [l])) r)"
    using Cons.prems globMatches_literal[of m "CHR ''*'' # Join ''*'' (ms @ [l])"]
    by (simp add: globMatches_star Join_Cons del: globMatches.simps) metis
  also have "\<dots> \<longleftrightarrow> (\<exists>u r m'. s = u @ m @ r \<and> r = m' @ l \<and> inOrder ms m')"
    using Cons by auto
  also have "\<dots> \<longleftrightarrow> (\<exists>k. s = k @ l \<and> inOrder (m # ms) k)"
    by simp (metis append.assoc)
  finally show ?case .
qed

lemma matchSegment_glob: "matchSegment pattern seg \<longleftrightarrow> globMatches pattern seg"
proof (cases "CHR ''*'' \<in> set pattern")
  case False
  then have "\<not> Contains pattern ''*''" by (auto simp: Contains_iff)
  then show ?thesis
    using globMatches_literal[OF False, of "[]" seg] by (auto simp: matchSegment_def)
next
  case True
  then have con: "Contains pattern ''*''" by (auto simp: Contains_iff in_set_conv_decomp)
  define parts where "parts = Split CHR ''*'' pattern"
  have pattern: "pattern = Join ''*'' parts" by (simp add: parts_def Join_Split)
  have nostar: "\<And>p. p \<in> set parts \<Longrightarrow> CHR ''*'' \<notin> set p" by (simp add: parts_def Split_no_sep)
  obtain f ms l where parts: "parts = f # ms @ [l]"
  proof (cases parts)
    case (Cons f rest)
    then have "rest \<noteq> []" using True nostar pattern by auto
    then show ?thesis using that[of f "butlast rest" "last rest"] Cons by simp
  qed (simp add: parts_def)
  have "globMatches pattern seg \<longleftrightarrow> (\<exists>r m. seg = f @ r \<and> r = m @ l \<and> inOrder ms m)"
    using nostar globMatches_literal[of f] globMatches_parts[of l ms]
    by (simp add: pattern parts Join_Cons)
  also have "\<dots> \<longleftrightarrow> matchSegment pattern seg"
    using con by (auto simp: matchSegment_def Let_def parts_def[symmetric] parts HasPrefix_iff
        HasSuffix_iff matchMiddle_inOrder)
  finally show ?thesis by simp
qed

subsection \<open>Paths as segment lists\<close>

lemma canonical_cases:
  assumes "Canonicalise p = Inr p"
  obtains "p = ''/''" "pathSegments p = []"
  | ss where "ss \<noteq> []" "list_all2 segmentNormalises ss ss" "p = ''/'' @ Join ''/'' ss"
      "pathSegments p = ss" "Split CHR ''/'' (TrimPrefix p ''/'') = ss"
  using assms
proof (cases rule: Canonicalise_cases)
  case root
  then show ?thesis using that(1) by (simp add: pathSegments_def)
next
  case (segs ss ns)
  note sg = pathSegments_Join[OF segs(2,1)]
  then have "ss = ns" using segs by metis
  moreover have "Split CHR ''/'' (TrimPrefix p ''/'') = ss"
    using sg(1) segs(3) Join_slash_not_Nil[OF segs(2,1)] by (simp add: pathSegments_def)
  ultimately show ?thesis using segs sg that(2)[of ss] by auto
qed

lemma root_globMatches: "globMatches g [] \<longleftrightarrow> set g \<subseteq> {CHR ''*''}"
  by (induction g) auto

lemma Match_segments:
  assumes "Canonicalise g = Inr g" "Canonicalise p = Inr p"
  shows "Match g p \<longleftrightarrow>
    (if p = ''/'' then g = ''/'' \<or> (\<exists>s. pathSegments g = [s] \<and> set s \<subseteq> {CHR ''*''})
     else list_all2 globMatches (pathSegments g) (pathSegments p))"
proof -
  have eq: "(matchSegment :: string \<Rightarrow> string \<Rightarrow> bool) = globMatches"
    by (intro ext) (rule matchSegment_glob)
  have m: "Match g p \<longleftrightarrow> list_all2 globMatches (Split CHR ''/'' (TrimPrefix g ''/''))
      (Split CHR ''/'' (TrimPrefix p ''/''))"
    unfolding Match_def Let_def eq by (auto dest: list_all2_lengthD)
  have ne: "list_all2 segmentNormalises ss ss \<Longrightarrow> \<not> list_all2 globMatches [[]] ss" for ss
    by (cases ss) (auto dest: segmentNormalises_not_Nil)
  show ?thesis
    using assms(1)
  proof (cases rule: canonical_cases)
    case 1
    show ?thesis
      using assms(2) by (cases rule: canonical_cases) (use 1 m ne in auto)
  next
    case g: (2 gs)
    have "gs \<noteq> []" by fact
    show ?thesis
      using assms(2)
    proof (cases rule: canonical_cases)
      case 1
      then show ?thesis using g m Join_slash_not_Nil[OF g(2,1)]
        by (cases gs) (auto simp: root_globMatches)
    next
      case (2 ss)
      then show ?thesis using g m Join_slash_not_Nil[OF 2(2,1)] by simp
    qed
  qed
qed

lemma canonical_no_trailing_slash:
  assumes "list_all2 segmentNormalises qs qs" "qs \<noteq> []" "q = ''/'' @ Join ''/'' qs"
  shows "q \<noteq> ''/''" "TrimSuffix q ''/'' = q"
proof -
  show "q \<noteq> ''/''" using Join_slash_not_Nil[OF assms(1,2)] assms(3) by simp
  have "last (Join ''/'' qs) \<noteq> CHR ''/''"
  proof
    assume l: "last (Join ''/'' qs) = CHR ''/''"
    have "Join ''/'' qs = butlast (Join ''/'' qs) @ [CHR ''/'']"
      using Join_slash_not_Nil[OF assms(1,2)] l by (metis append_butlast_last_id)
    then have "Split CHR ''/'' (Join ''/'' qs) = Split CHR ''/'' (butlast (Join ''/'' qs)) @ [[]]"
      using Split_append[of "CHR ''/''" _ "[]"] by (metis Split.simps(1))
    then have "qs = Split CHR ''/'' (butlast (Join ''/'' qs)) @ [[]]" using assms Split_Join[OF assms(2)] list_all2_normalises_left[OF assms(1)]
      by (simp add: list_all_iff)
    then have "[] \<in> set qs" by (metis in_set_conv_decomp)
    then show False using assms(1) segmentNormalises_not_Nil
      by (metis in_set_conv_nth list_all2_conv_all_nth)
  qed
  then have "last q \<noteq> CHR ''/''" using assms(3) Join_slash_not_Nil[OF assms(1,2)] by simp
  then show "TrimSuffix q ''/'' = q" by (auto simp: TrimSuffix_def HasSuffix_iff)
qed

lemma HasPathPrefix_segments:
  assumes "Canonicalise p = Inr p" "Canonicalise q = Inr q"
  shows "HasPathPrefix p q \<longleftrightarrow> prefix (pathSegments q) (pathSegments p)"
  using assms(2)
proof (cases rule: canonical_cases)
  case 1
  then show ?thesis by (simp add: HasPathPrefix_def)
next
  case q: (2 qs)
  note nd = canonical_no_trailing_slash(1)[OF q(2,1,3)]
  note trim = canonical_no_trailing_slash(2)[OF q(2,1,3)]
  show ?thesis
    using assms(1)
  proof (cases rule: canonical_cases)
    case 1
    then show ?thesis using q nd trim by (auto simp: HasPathPrefix_def HasPrefix_iff)
  next
    case p: (2 ps)
    have "HasPrefix p (q @ ''/'') \<longleftrightarrow> (\<exists>rs. rs \<noteq> [] \<and> ps = qs @ rs)"
    proof
      assume "HasPrefix p (q @ ''/'')"
      then obtain r where "Join ''/'' ps = Join ''/'' qs @ CHR ''/'' # r"
        using p(3) q(3) by (auto simp: HasPrefix_iff)
      then have "ps = qs @ Split CHR ''/'' r"
        using p(3,5) q(3,5) Split_append[of "CHR ''/''" "Join ''/'' qs" r] by simp
      then show "\<exists>rs. rs \<noteq> [] \<and> ps = qs @ rs" by (metis Split_not_Nil)
    next
      assume "\<exists>rs. rs \<noteq> [] \<and> ps = qs @ rs"
      then show "HasPrefix p (q @ ''/'')"
        using p(3) q(1,3) by (auto simp: HasPrefix_iff Join_append)
    qed
    moreover have "p = q \<longleftrightarrow> ps = qs" using p q by metis
    ultimately show ?thesis using nd trim p(4) q(4)
      by (auto simp: HasPathPrefix_def prefix_def)
  qed
qed

subsection \<open>Templates\<close>

lemma normaliseBytes_no_escape:
  "CHR ''%'' \<notin> set v \<Longrightarrow> normaliseBytes v = Inr (v, v) \<and> checkEscapesWellFormed v = None"
  by (induction v) auto

lemma ValidPlaceholderValue_normal:
  assumes "ValidPlaceholderValue v" shows "segmentNormalises v v"
proof -
  have "pathByte CHR '':''" "pathByte CHR ''@''" by (simp_all add: pathByte_def controlOrSpace_def)
  moreover have "b \<in> set v \<Longrightarrow> isUnreserved b \<or> b = CHR '':'' \<or> b = CHR ''@''" for b
    using assms by (auto simp: ValidPlaceholderValue_def list_all_iff split: if_splits)
  ultimately have b: "b \<in> set v \<Longrightarrow> pathByte b \<and> b \<noteq> CHR ''%''" for b
    using isUnreserved_pathByte[of b] by fastforce
  then have "CHR ''%'' \<notin> set v" "list_all pathByte v" by (auto simp: list_all_iff)
  then show ?thesis
    using assms normaliseBytes_no_escape[of v]
    by (simp add: segmentNormalises_def wellFormedSegment_def canonicaliseSegment_def
        ValidPlaceholderValue_def split: if_splits)
qed

lemma parseTemplatePart_standIn:
  assumes "parseTemplatePart part = Inr (s, x)" "CHR ''/'' \<notin> set part"
  shows "CHR ''/'' \<notin> set x \<and> (x = [] \<longrightarrow> part = [])"
  using assms by (auto simp: parseTemplatePart_def split: if_splits)

lemma parseTemplatePart_standIns:
  assumes "list_all2 (\<lambda>x y. parseTemplatePart x = Inr y) parts parsed" "parts \<noteq> []" "parts \<noteq> [[]]"
    and "\<forall>p\<in>set parts. CHR ''/'' \<notin> set p"
  shows "map snd parsed \<noteq> []" "map snd parsed \<noteq> [[]]"
    "p \<in> set (map snd parsed) \<Longrightarrow> CHR ''/'' \<notin> set p"
proof -
  have len: "length parsed = length parts" using assms(1) by (simp add: list_all2_lengthD)
  have si: "CHR ''/'' \<notin> set (snd (parsed ! i)) \<and> (snd (parsed ! i) = [] \<longrightarrow> parts ! i = [])"
    if "i < length parts" for i
    using that assms(1,4) parseTemplatePart_standIn[of "parts ! i" "fst (parsed ! i)" "snd (parsed ! i)"]
    by (simp add: list_all2_conv_all_nth)
  show "map snd parsed \<noteq> []" using len assms(2) by auto
  show "map snd parsed \<noteq> [[]]"
  proof
    assume "map snd parsed = [[]]"
    then have "length parts = 1" "snd (parsed ! 0) = []" using len by auto
    then show False using si[of 0] assms(3) by (cases parts) auto
  qed
  assume "p \<in> set (map snd parsed)"
  then obtain i where "i < length parsed" "p = snd (parsed ! i)"
    by (auto simp: set_conv_nth)
  then show "CHR ''/'' \<notin> set p" using si[of i] len by simp
qed

lemma ParseTemplate_wellFormed:
  assumes "ParseTemplate r = Inr t"
  shows "wellFormedTemplate t"
proof (cases "r = ''/''")
  case True
  then show ?thesis using assms
    by (auto simp: ParseTemplate_def wellFormedTemplate_def split: sum.splits)
next
  case False
  define parts where "parts = Split CHR ''/'' (tl r)"
  have pre: "HasPrefix r ''/''"
    using assms False by (auto simp: ParseTemplate_def split: if_splits)
  obtain parsed canonical where parsed: "map_result parseTemplatePart parts = Inr parsed"
    and canonical: "Canonicalise (''/'' @ Join ''/'' (map snd parsed)) = Inr canonical"
    and t: "t = \<lparr>raw = r,
        segments = map2 fillLiteral (map fst parsed) (Split CHR ''/'' (tl canonical))\<rparr>"
    using assms False pre by (auto simp: ParseTemplate_def parts_def split: sum.splits)
  have parts: "parts \<noteq> []" "parts \<noteq> [[]]" "\<forall>p\<in>set parts. CHR ''/'' \<notin> set p"
    using pre False Join_Split[of "CHR ''/''" "tl r"]
    by (auto simp: parts_def HasPrefix_iff Split_no_sep)
  note st = parseTemplatePart_standIns[OF parsed[unfolded map_result_Inr_iff] parts]
  obtain ns where ns: "list_all2 segmentNormalises (map snd parsed) ns"
    "canonical = ''/'' @ Join ''/'' ns"
    using canonical Canonicalise_Join[of "map snd parsed" canonical] st by blast
  note nn = list_all2_normalises_right[OF ns(1)]
  have "ns \<noteq> []" using ns(1) st(1) by auto
  then have "Split CHR ''/'' (tl canonical) = ns"
    using list_all2_normalises_left[OF nn] ns(2) by (simp add: Split_Join list_all_iff)
  then show ?thesis
    using nn t
    by (auto simp: wellFormedTemplate_def list_all_length fillLiteral_def list_all2_conv_all_nth)
qed

lemma expandSegment_normal:
  assumes "placeholder s = [] \<longrightarrow> segmentNormalises (literal s) (literal s)" "expandSegment vals s = Inr x"
  shows "segmentNormalises x x"
  using assms ValidPlaceholderValue_normal
  by (auto simp: expandSegment_def split: if_splits option.splits)

lemma expandSegments_normal:
  "list_all2 (\<lambda>s x. expandSegment vals s = Inr x) ss out \<Longrightarrow>
   list_all (\<lambda>s. placeholder s = [] \<longrightarrow> segmentNormalises (literal s) (literal s)) ss \<Longrightarrow>
   list_all2 segmentNormalises out out"
  by (induction rule: list_all2_induct) (auto dest: expandSegment_normal[rotated])

text \<open>On a parsed template the final canonicalisation neither rejects nor rewrites anything.\<close>

lemma Expand_eq:
  assumes "wellFormedTemplate t" "segments t \<noteq> []"
  shows "Expand t vals = Inr p \<longleftrightarrow>
    (\<exists>out. map_result (expandSegment vals) (segments t) = Inr out \<and> p = ''/'' @ Join ''/'' out)"
    "map_result (expandSegment vals) (segments t) = Inr out \<Longrightarrow>
     out \<noteq> [] \<and> list_all2 segmentNormalises out out"
proof -
  have n: "out \<noteq> [] \<and> list_all2 segmentNormalises out out"
    if "map_result (expandSegment vals) (segments t) = Inr out" for out
  proof -
    have la: "list_all2 (\<lambda>s x. expandSegment vals s = Inr x) (segments t) out"
      using that by (simp add: map_result_Inr_iff)
    then show ?thesis using assms expandSegments_normal[OF la]
      by (auto simp: wellFormedTemplate_def)
  qed
  then show "map_result (expandSegment vals) (segments t) = Inr out \<Longrightarrow>
     out \<noteq> [] \<and> list_all2 segmentNormalises out out" .
  show "Expand t vals = Inr p \<longleftrightarrow>
    (\<exists>out. map_result (expandSegment vals) (segments t) = Inr out \<and> p = ''/'' @ Join ''/'' out)"
  proof (cases "map_result (expandSegment vals) (segments t)")
    case (Inr out)
    then have "Canonicalise (''/'' @ Join ''/'' out) = Inr (''/'' @ Join ''/'' out)"
      using n Canonicalise_normal_segments by blast
    then show ?thesis using Inr assms(2) by (auto simp: Expand_def)
  qed (use assms(2) in \<open>simp add: Expand_def\<close>)
qed

lemma Expand_segments:
  assumes "wellFormedTemplate t" "Expand t vals = Inr p"
  shows "Canonicalise p = Inr p"
    "list_all2 (\<lambda>s x. expandSegment vals s = Inr x) (segments t) (pathSegments p)"
proof -
  have "Canonicalise p = Inr p \<and>
    list_all2 (\<lambda>s x. expandSegment vals s = Inr x) (segments t) (pathSegments p)"
  proof (cases "segments t = []")
    case True
    then have "p = ''/''" using assms by (simp add: Expand_def)
    moreover have "Canonicalise ''/'' = Inr ''/''"
      by (simp add: Canonicalise_def HasPrefix_def ContainsAny_def controlOrSpace_def)
    ultimately show ?thesis using True by (simp add: pathSegments_def)
  next
    case False
    then obtain out where out: "map_result (expandSegment vals) (segments t) = Inr out"
      "p = ''/'' @ Join ''/'' out"
      using assms Expand_eq(1) by blast
    then have n: "out \<noteq> []" "list_all2 segmentNormalises out out"
      using Expand_eq(2)[OF assms(1) False] by auto
    then show ?thesis
      using Canonicalise_normal_segments[OF n] pathSegments_Join_left[OF n(2,1)] out
      by (simp add: map_result_Inr_iff)
  qed
  then show "Canonicalise p = Inr p"
    "list_all2 (\<lambda>s x. expandSegment vals s = Inr x) (segments t) (pathSegments p)" by auto
qed

lemma Expand_is_ok:
  assumes "wellFormedTemplate t"
  shows "is_ok (Expand t vals) \<longleftrightarrow>
    list_all (\<lambda>n. \<exists>v. vals n = Some v \<and> ValidPlaceholderValue v) (Placeholders t)"
proof -
  have seg: "is_ok (expandSegment vals s) \<longleftrightarrow>
      (placeholder s \<noteq> [] \<longrightarrow> (\<exists>v. vals (placeholder s) = Some v \<and> ValidPlaceholderValue v))" for s
    by (auto simp: expandSegment_def split: option.splits)
  have all: "is_ok (map_result f xs) \<longleftrightarrow> list_all (\<lambda>x. is_ok (f x)) xs"
    for f :: "templateSegment \<Rightarrow> (template_error, string) result" and xs
    by (induction xs) (auto split: sum.splits)
  have "is_ok (Expand t vals) \<longleftrightarrow> is_ok (map_result (expandSegment vals) (segments t))"
  proof (cases "segments t = []")
    case False
    then show ?thesis using Expand_eq(1)[OF assms False, of vals]
      by (metis is_ok.elims(2) is_ok.simps(2))
  qed (simp add: Expand_def)
  then show ?thesis unfolding all seg by (auto simp: Placeholders_def list_all_iff)
qed

lemma globMatches_contains: "globMatches g s \<Longrightarrow> set g - {CHR ''*''} \<subseteq> set s"
  by (induction g s rule: globMatches.induct) (auto split: if_splits)

lemma globMatches_single_star: "globMatches ''*'' s"
  using globMatches_star[of "[]" s] by auto

lemma normaliseBytes_decoded:
  "checkEscapesWellFormed s = None \<Longrightarrow> list_all pathByte s \<Longrightarrow> normaliseBytes s = Inr (d, n) \<Longrightarrow>
   CHR ''/'' \<notin> set d \<and> CHR 0x5C \<notin> set d"
proof (induction s arbitrary: d n rule: checkEscapesWellFormed.induct)
  case (2 c rest)
  show ?case
  proof (cases "c = CHR ''%''")
    case False
    then show ?thesis using 2 by (auto simp: pathByte_def split: sum.splits)
  next
    case True
    then obtain hi lo r where "rest = hi # lo # r" "isHex hi" "isHex lo"
      "hexByte hi lo \<noteq> CHR ''/''" "hexByte hi lo \<noteq> CHR 0x5C" "checkEscapesWellFormed r = None"
      using 2(3) by (auto split: list.splits if_splits)
    then show ?thesis
      using 2(2)[of hi "lo # r" lo r] 2(4,5) True by (auto split: sum.splits)
  qed
qed simp

lemma segmentNormalises_decoded:
  assumes "segmentNormalises s n"
  obtains d where "normaliseBytes s = Inr (d, n)" "normaliseBytes n = Inr (d, n)"
    "d \<noteq> []" "d \<noteq> ''.''" "d \<noteq> ''..''" "CHR ''/'' \<notin> set d" "CHR 0x5C \<notin> set d"
proof -
  have wf: "wellFormedSegment s" "canonicaliseSegment s = Inr n"
    using assms by (auto simp: segmentNormalises_def)
  obtain d m where m: "normaliseBytes s = Inr (d, m)" "normaliseBytes m = Inr (d, m)"
    using normaliseBytes_fixpoint[of s] wf(1) by (auto simp: wellFormedSegment_def)
  have n: "m = n" "d \<noteq> ''.''" "d \<noteq> ''..''"
    using wf(2) m(1) by (auto simp: canonicaliseSegment_def split: if_splits)
  have "n \<noteq> []" using assms segmentNormalises_not_Nil by blast
  then have "d \<noteq> []" using m(2) n(1) by (cases n) (auto split: if_splits sum.splits list.splits)
  then show ?thesis
    using m n that normaliseBytes_decoded[of s d m] wf(1) by (auto simp: wellFormedSegment_def)
qed

lemma canonicaliseSegment_no_panic:
  "checkEscapesWellFormed s = None \<Longrightarrow> canonicaliseSegment s \<noteq> Inl IndexOutOfRange"
  using normaliseBytes_fixpoint[of s] by (auto simp: canonicaliseSegment_def split: if_splits)

lemma checkEscapes_error:
  "checkEscapesWellFormed s = Some e \<Longrightarrow> e = ErrMalformedEscape \<or> e = ErrEncodedSeparator"
  by (induction s rule: checkEscapesWellFormed.induct) (auto split: if_splits list.splits)

lemma CoveredBy_segments:
  assumes "Canonicalise pattern = Inr g" "segments t \<noteq> []"
  shows "CoveredBy t pattern \<longleftrightarrow> list_all2 coveredSegment (pathSegments g) (segments t)"
proof -
  have "Canonicalise g = Inr g" using assms(1) by (rule Canonicalise_fixpoint)
  then show ?thesis
  proof (cases rule: canonical_cases)
    case 1
    then show ?thesis using assms by (simp add: CoveredBy_def)
  next
    case (2 gs)
    then have "g \<noteq> ''/''" using Join_slash_not_Nil[OF 2(2,1)] by simp
    then show ?thesis using 2 assms by (auto simp: CoveredBy_def dest: list_all2_lengthD)
  qed
qed

lemma expandSegment_covered:
  assumes "coveredSegment g s" "expandSegment vals s = Inr x"
  shows "globMatches g x"
  using assms globMatches_single_star
  by (auto simp: expandSegment_def matchSegment_glob split: if_splits option.splits)

lemma CoveredBy_Match:
  assumes "wellFormedTemplate t" "Canonicalise pattern = Inr g" "segments t \<noteq> []"
    "CoveredBy t pattern" "Expand t vals = Inr p"
  shows "Match g p"
proof -
  note ex = Expand_segments[OF assms(1,5)]
  have "list_all2 coveredSegment (pathSegments g) (segments t)"
    using assms CoveredBy_segments by blast
  then have "list_all2 globMatches (pathSegments g) (pathSegments p)"
    using ex(2) expandSegment_covered by (rule list_all2_trans[rotated])
  moreover have "p \<noteq> ''/''" using ex(2) assms(3) by (auto simp: pathSegments_def)
  ultimately show ?thesis
    using Match_segments[OF Canonicalise_fixpoint[OF assms(2)] ex(1)] by simp
qed

lemma constant_values_Match:
  assumes "wellFormedTemplate t" "segments t \<noteq> []" "Canonicalise pattern = Inr g"
    "\<forall>vals p. Expand t vals = Inr p \<longrightarrow> Match g p" "ValidPlaceholderValue v"
  shows "list_all2 (\<lambda>gs s. globMatches gs (if placeholder s = [] then literal s else v))
           (pathSegments g) (segments t)"
proof -
  have "is_ok (Expand t (\<lambda>_. Some v))"
    unfolding Expand_is_ok[OF assms(1)] using assms(5) by (simp add: list_all_iff)
  then obtain p where p: "Expand t (\<lambda>_. Some v) = Inr p" by (cases "Expand t (\<lambda>_. Some v)") auto
  note ex = Expand_segments[OF assms(1) p]
  have "p \<noteq> ''/''" using ex(2) assms(2) by (auto simp: pathSegments_def)
  then have "list_all2 globMatches (pathSegments g) (pathSegments p)"
    using assms(4) p Match_segments[OF Canonicalise_fixpoint[OF assms(3)] ex(1)] by auto
  moreover have "list_all2 (\<lambda>x s. x = (if placeholder s = [] then literal s else v))
      (pathSegments p) (segments t)"
    using ex(2) assms(5) by (auto simp: list_all2_conv_all_nth expandSegment_def)
  ultimately show ?thesis by (rule list_all2_trans[rotated]) auto
qed

lemma Expand_root: "segments t = [] \<Longrightarrow> Expand t vals = Inr ''/''"
  by (simp add: Expand_def)

lemma Match_root: "Match ''/'' ''/''"
  by code_simp

lemma CoveredBy_complete:
  assumes "wellFormedTemplate t" "segments t \<noteq> []" "Canonicalise pattern = Inr g"
    and star: "\<forall>i<length (segments t). placeholder (segments t ! i) \<noteq> [] \<longrightarrow>
      set (pathSegments g ! i) \<subseteq> {CHR ''*''} \<longrightarrow> pathSegments g ! i = ''*''"
    and all: "\<forall>vals p. Expand t vals = Inr p \<longrightarrow> Match g p"
  shows "CoveredBy t pattern"
proof -
  have valid: "ValidPlaceholderValue ''a''" "ValidPlaceholderValue ''b''"
    by (simp_all add: ValidPlaceholderValue_def isUnreserved_def)
  note a = constant_values_Match[OF assms(1-3) all valid(1)]
  note b = constant_values_Match[OF assms(1-3) all valid(2)]
  have "coveredSegment (pathSegments g ! i) (segments t ! i)" if i: "i < length (segments t)" for i
  proof (cases "placeholder (segments t ! i) = []")
    case True
    then show ?thesis using list_all2_nthD2[OF a i] by (simp add: matchSegment_glob)
  next
    case False
    then have ab: "globMatches (pathSegments g ! i) ''a''" "globMatches (pathSegments g ! i) ''b''"
      using list_all2_nthD2[OF a i] list_all2_nthD2[OF b i] by simp_all
    have "set (pathSegments g ! i) \<subseteq> {CHR ''*''}"
      using globMatches_contains[OF ab(1)] globMatches_contains[OF ab(2)] by auto
    then show ?thesis using star i False by auto
  qed
  then have "list_all2 coveredSegment (pathSegments g) (segments t)"
    using a by (simp add: list_all2_conv_all_nth)
  then show ?thesis using CoveredBy_segments[OF assms(3,2)] by simp
qed

section \<open>Properties\<close>

text \<open>
  C35: \<open>Canonicalise\<close> is idempotent: the form a first call returns is accepted by a second call and
  returned unchanged, so checks made at different places compare the same string.
\<close>

theorem Canonicalise_idempotent:
  assumes "Canonicalise r = Inr c"
  shows "Canonicalise c = Inr c"
  using assms by (rule Canonicalise_fixpoint)

theorem Canonicalise_idempotent_witness:
  "Canonicalise ''/it%65ms/%2Ab'' = Inr ''/items/%2ab'' \<and> Canonicalise ''/items/%2ab'' = Inr ''/items/%2ab''"
proof -
  have c: "Canonicalise ''/it%65ms/%2Ab'' = Inr ''/items/%2ab''" by code_simp
  show ?thesis using c Canonicalise_idempotent[OF c] by simp
qed

text \<open>
  C7: \<open>Canonicalise\<close> works segment by segment and changes spelling only.  The output has exactly
  the segments of the input, and each of them decodes to the same bytes \<open>d\<close> as the input segment
  did, where \<open>d\<close> is neither empty nor a dot segment and contains no separator.
\<close>

theorem Canonicalise_segmentwise:
  assumes "Canonicalise r = Inr c"
  shows "list_all2 (\<lambda>s n. \<exists>d. normaliseBytes s = Inr (d, n) \<and> normaliseBytes n = Inr (d, n) \<and>
           d \<notin> {[], ''.'', ''..''} \<and> CHR ''/'' \<notin> set d \<and> CHR 0x5C \<notin> set d)
         (pathSegments r) (pathSegments c)"
  using Canonicalise_segments[OF assms]
  by (rule list_all2_mono) (erule segmentNormalises_decoded, blast)

theorem Canonicalise_segmentwise_witness:
  "list_all2 (\<lambda>s n. \<exists>d. normaliseBytes s = Inr (d, n) \<and> normaliseBytes n = Inr (d, n) \<and>
           d \<notin> {[], ''.'', ''..''} \<and> CHR ''/'' \<notin> set d \<and> CHR 0x5C \<notin> set d)
         (pathSegments ''/%61/%C3'') (pathSegments ''/a/%c3'')"
proof -
  have "Canonicalise ''/%61/%C3'' = Inr ''/a/%c3''" by code_simp
  then show ?thesis by (rule Canonicalise_segmentwise)
qed

text \<open>
  C3: \<open>Canonicalise\<close> never reads beyond the end of a segment: the escape check over the whole path
  makes the two look-ahead reads of \<open>canonicaliseSegment\<close> safe for every input.
\<close>

theorem Canonicalise_no_panic: "Canonicalise r \<noteq> Inl IndexOutOfRange"
proof
  assume c: "Canonicalise r = Inl IndexOutOfRange"
  then have ok: "HasPrefix r ''/''" "checkEscapesWellFormed r = None"
    and m: "map_result canonicaliseSegment (Split CHR ''/'' (tl r)) = Inl IndexOutOfRange"
    using checkEscapes_error[of r]
    by (auto simp: Canonicalise_def split: if_splits option.splits sum.splits)
  obtain s where s: "s \<in> set (Split CHR ''/'' (tl r))" "canonicaliseSegment s = Inl IndexOutOfRange"
    using map_result_Inl[OF m] by blast
  have "r = [] @ CHR ''/'' # Join ''/'' (Split CHR ''/'' (tl r))"
    using ok(1) by (auto simp: HasPrefix_iff Join_Split)
  then have "checkEscapesWellFormed (Join ''/'' (Split CHR ''/'' (tl r))) = None"
    using ok(2) checkEscapes_append_slash by metis
  then have "checkEscapesWellFormed s = None"
    using s(1) by (simp add: checkEscapes_Join list_all_iff)
  then show False using s(2) canonicaliseSegment_no_panic by blast
qed

text \<open>
  C35: on canonical arguments \<open>Match\<close> is glob matching, segment by segment, where \<open>*\<close> stands for
  any bytes of one segment; the greedy search for the middle parts misses no match.  The root path
  is matched by the root pattern and by a single segment of stars.
\<close>

theorem Match_glob_semantics:
  assumes "Canonicalise g = Inr g" "Canonicalise p = Inr p"
  shows "Match g p \<longleftrightarrow>
    (if p = ''/'' then g = ''/'' \<or> (\<exists>s. pathSegments g = [s] \<and> set s \<subseteq> {CHR ''*''})
     else list_all2 globMatches (pathSegments g) (pathSegments p))"
  using assms by (rule Match_segments)

theorem Match_glob_semantics_witness:
  "Match ''/v*/items'' ''/v1/items'' \<longleftrightarrow>
     list_all2 globMatches (pathSegments ''/v*/items'') (pathSegments ''/v1/items'')"
proof -
  have "Canonicalise ''/v*/items'' = Inr ''/v*/items''" "Canonicalise ''/v1/items'' = Inr ''/v1/items''"
    by code_simp+
  then show ?thesis using Match_glob_semantics[of "''/v*/items''" "''/v1/items''"] by simp
qed

text \<open>
  C34: on canonical arguments \<open>HasPathPrefix\<close> holds exactly when the segments of the prefix begin
  the segments of the path, so \<open>/api\<close> never contains \<open>/apievil\<close>.
\<close>

theorem HasPathPrefix_subtree:
  assumes "Canonicalise p = Inr p" "Canonicalise q = Inr q"
  shows "HasPathPrefix p q \<longleftrightarrow> prefix (pathSegments q) (pathSegments p)"
  using assms by (rule HasPathPrefix_segments)

theorem HasPathPrefix_subtree_witness:
  "HasPathPrefix ''/apievil'' ''/api'' \<longleftrightarrow>
     prefix (pathSegments ''/api'') (pathSegments ''/apievil'')"
proof -
  have "Canonicalise ''/apievil'' = Inr ''/apievil''" "Canonicalise ''/api'' = Inr ''/api''"
    by code_simp+
  then show ?thesis by (rule HasPathPrefix_subtree)
qed

text \<open>
  C24: what \<open>CoveredBy\<close> decides, for every parsed template and every pattern.  It answers true if and only if the
  pattern can be canonicalised, every path the template can expand to is matched by it, the template of the
  root is met by the pattern \<open>/\<close> itself, and a glob segment that stands at a placeholder and consists of stars
  is a single star.
\<close>

theorem CoveredBy_exact:
  assumes "ParseTemplate r = Inr t"
  shows "CoveredBy t pattern \<longleftrightarrow>
    (\<exists>g. Canonicalise pattern = Inr g \<and> (\<forall>vals p. Expand t vals = Inr p \<longrightarrow> Match g p) \<and>
       (segments t = [] \<longrightarrow> g = ''/'') \<and>
       (\<forall>i<length (segments t). placeholder (segments t ! i) \<noteq> [] \<longrightarrow>
          set (pathSegments g ! i) \<subseteq> {CHR ''*''} \<longrightarrow> pathSegments g ! i = ''*''))"
proof (cases "Canonicalise pattern")
  case (Inr g)
  note wf = ParseTemplate_wellFormed[OF assms]
  show ?thesis
  proof (cases "segments t = []")
    case True
    then show ?thesis using Inr by (auto simp: CoveredBy_def Expand_root Match_root)
  next
    case False
    have "placeholder (segments t ! i) \<noteq> [] \<longrightarrow> pathSegments g ! i = ''*''"
      if "CoveredBy t pattern" "i < length (segments t)" for i
      using that CoveredBy_segments[OF Inr False] by (auto simp: list_all2_conv_all_nth)
    then show ?thesis using Inr False CoveredBy_Match[OF wf Inr False] CoveredBy_complete[OF wf False Inr] by auto
  qed
qed (simp add: CoveredBy_def)

theorem CoveredBy_exact_witness:
  "\<exists>t. ParseTemplate ''/api/env/{id}'' = Inr t \<and> CoveredBy t ''/api/env/*'' \<and>
    (\<forall>vals p. Expand t vals = Inr p \<longrightarrow> Match ''/api/env/*'' p)"
proof -
  let ?t = "\<lparr>raw = ''/api/env/{id}'', segments =
    [\<lparr>literal = ''api'', placeholder = []\<rparr>, \<lparr>literal = ''env'', placeholder = []\<rparr>,
     \<lparr>literal = [], placeholder = ''id''\<rparr>]\<rparr>"
  have t: "ParseTemplate ''/api/env/{id}'' = Inr ?t" by code_simp
  have g: "Canonicalise ''/api/env/*'' = Inr ''/api/env/*''" by code_simp
  have "CoveredBy ?t ''/api/env/*''" by code_simp
  with CoveredBy_exact[OF t, of "''/api/env/*''"] g t show ?thesis by auto
qed

text \<open>
  The comment on \<open>CoveredBy\<close> asks only that every expansion matches, and it is stricter than that in two cases:
  the template \<open>/\<close> with the glob \<open>/*\<close>, and a placeholder with a glob of several stars.
\<close>

theorem CoveredBy_stricter_than_documented:
  "(\<exists>t. ParseTemplate ''/'' = Inr t \<and> (\<forall>vals p. Expand t vals = Inr p \<longrightarrow> Match ''/*'' p) \<and> \<not> CoveredBy t ''/*'') \<and>
   (\<exists>t. ParseTemplate ''/{x}'' = Inr t \<and> (\<forall>vals p. Expand t vals = Inr p \<longrightarrow> Match ''/**'' p) \<and> \<not> CoveredBy t ''/**'')"
proof -
  let ?r = "\<lparr>raw = ''/'', segments = []\<rparr>" and ?t = "\<lparr>raw = ''/{x}'', segments = [\<lparr>literal = [], placeholder = ''x''\<rparr>]\<rparr>"
  have r: "ParseTemplate ''/'' = Inr ?r" "\<not> CoveredBy ?r ''/*''" "Match ''/*'' ''/''" by code_simp+
  have t: "ParseTemplate ''/{x}'' = Inr ?t" "\<not> CoveredBy ?t ''/**''" "Canonicalise ''/**'' = Inr ''/**''" by code_simp+
  have "Match ''/**'' p" if "Expand ?t vals = Inr p" for vals p
  proof -
    note ex = Expand_segments[OF ParseTemplate_wellFormed[OF t(1)] that]
    then obtain x where "pathSegments p = [x]" by (auto simp: list_all2_Cons1)
    moreover have "p \<noteq> ''/''" using calculation by (auto simp: pathSegments_def)
    moreover have "globMatches ''**'' x" using globMatches_star[of "''*''" x] globMatches_single_star by auto
    ultimately show ?thesis using Match_segments[OF t(3) ex(1)] by (simp add: pathSegments_def)
  qed
  then show ?thesis using r t by (auto simp: Expand_root)
qed

text \<open>
  C36: \<open>Expand\<close> of a parsed template succeeds exactly when every placeholder has a valid value, and
  then the result is canonical already and its segments are the literals and the values as given:
  a value never adds, removes or rewrites a segment.
\<close>

theorem Expand_total:
  assumes "ParseTemplate r = Inr t"
  shows "(is_ok (Expand t vals) \<longleftrightarrow>
      list_all (\<lambda>n. \<exists>v. vals n = Some v \<and> ValidPlaceholderValue v) (Placeholders t)) \<and>
    (Expand t vals = Inr p \<longrightarrow>
      Canonicalise p = Inr p \<and>
      pathSegments p = map (\<lambda>s. if placeholder s = [] then literal s else the (vals (placeholder s)))
        (segments t))"
proof -
  note wf = ParseTemplate_wellFormed[OF assms]
  have "x = (if placeholder s = [] then literal s else the (vals (placeholder s)))"
    if "expandSegment vals s = Inr x" for s x
    using that by (auto simp: expandSegment_def split: if_splits option.splits)
  then have "Expand t vals = Inr p \<longrightarrow>
      pathSegments p = map (\<lambda>s. if placeholder s = [] then literal s else the (vals (placeholder s)))
        (segments t)"
    using Expand_segments(2)[OF wf] by (auto simp: list_all2_conv_all_nth intro!: nth_equalityI)
  then show ?thesis using Expand_is_ok[OF wf] Expand_segments(1)[OF wf] by blast
qed

theorem Expand_total_witness:
  "\<exists>t. ParseTemplate ''/api/{id}'' = Inr t \<and> is_ok (Expand t [''id'' \<mapsto> ''x:1'']) \<and>
    Expand t [''id'' \<mapsto> ''x:1''] = Inr ''/api/x:1'' \<and> pathSegments ''/api/x:1'' = [''api'', ''x:1'']"
proof -
  let ?t = "\<lparr>raw = ''/api/{id}'', segments =
    [\<lparr>literal = ''api'', placeholder = []\<rparr>, \<lparr>literal = [], placeholder = ''id''\<rparr>]\<rparr>"
  have t: "ParseTemplate ''/api/{id}'' = Inr ?t" by code_simp
  have e: "Expand ?t [''id'' \<mapsto> ''x:1''] = Inr ''/api/x:1''" by code_simp
  show ?thesis
    using t e Expand_total[OF t, of "[''id'' \<mapsto> ''x:1'']" "''/api/x:1''"] by auto
qed

end
