(* ===== verification/Connections.thy ===== *)
theory Connections
  imports RoutePath "HOL-Library.AList"
begin

text \<open>
  Package \<open>internal/connections\<close>: joining a caller's path onto a connection's base URL
  (\<open>request.go\<close>), the redirect policy (\<open>client.go\<close>), credential injection (\<open>auth.go\<close>) and the
  registry's \<open>Do\<close> (\<open>registry.go\<close>).

  The network is a parameter: \<open>server\<close> maps a request that is sent to what comes back, which is a
  final response, a transport failure, or the next request that \<open>net/http\<close> builds for a redirect
  answer.  The rate limiter and the semaphore contribute only whether waiting for them succeeded.
  A secret value is the string that \<open>Reveal\<close> returns.
\<close>

section \<open>URLs and headers of the standard library\<close>

record url =
  uScheme :: string
  uHost :: string
  uPath :: string
  uRawQuery :: string

datatype urlError = UrlCTL | UrlMissingScheme | UrlColonInFirstSegment | UrlBadEscape

text \<open>\<open>url.unescape\<close> in path mode.\<close>

fun unescapePath :: "string \<Rightarrow> (urlError, string) result" where
  "unescapePath [] = Inr []"
| "unescapePath (c # rest) =
     (if c \<noteq> CHR ''%'' then
        (case unescapePath rest of Inl e \<Rightarrow> Inl e | Inr s \<Rightarrow> Inr (c # s))
      else (case rest of
              hi # lo # rest' \<Rightarrow>
                if \<not> isHex hi \<or> \<not> isHex lo then Inl UrlBadEscape
                else (case unescapePath rest' of Inl e \<Rightarrow> Inl e | Inr s \<Rightarrow> Inr (hexByte hi lo # s))
            | _ \<Rightarrow> Inl UrlBadEscape))"

text \<open>\<open>url.getScheme\<close>: the scheme and the rest; \<open>seen\<close> is what was read before.\<close>

fun getScheme :: "string \<Rightarrow> string \<Rightarrow> string \<Rightarrow> (urlError, string \<times> string) result" where
  "getScheme full seen [] = Inr ([], full)"
| "getScheme full seen (c # rest) =
     (if isAlpha c then getScheme full (seen @ [c]) rest
      else if (CHR ''0'' \<le> c \<and> c \<le> CHR ''9'') \<or> c \<in> set ''+-.'' then
        (if seen = [] then Inr ([], full) else getScheme full (seen @ [c]) rest)
      else if c = CHR '':'' then
        (if seen = [] then Inl UrlMissingScheme else Inr (seen, rest))
      else Inr ([], full))"

text \<open>
  \<open>url.Parse\<close> on a string with neither \<open>?\<close> nor \<open>#\<close> and without an authority (no leading \<open>//\<close>,
  no \<open>://\<close>): the scheme and the path.  An opaque URL has a scheme and an empty path.
\<close>

definition urlParse :: "string \<Rightarrow> (urlError, string \<times> string) result" where
  "urlParse p =
     (if list_ex (\<lambda>c. of_char c < (0x20::nat) \<or> of_char c = (0x7f::nat)) p then Inl UrlCTL
      else if p = ''*'' then Inr ([], ''*'')
      else (case getScheme p [] p of
              Inl e \<Rightarrow> Inl e
            | Inr (scheme, rest) \<Rightarrow>
                if \<not> HasPrefix rest ''/'' \<and> scheme \<noteq> [] then Inr (map lower_byte scheme, [])
                else if \<not> HasPrefix rest ''/'' \<and> CHR '':'' \<in> set (hd (Split CHR ''/'' rest))
                then Inl UrlColonInFirstSegment
                else (case unescapePath rest of
                        Inl e \<Rightarrow> Inl e
                      | Inr path \<Rightarrow> Inr (map lower_byte scheme, path))))"

text \<open>A byte of an HTTP token, and the key under which \<open>http.Header.Set\<close> stores a value.\<close>

definition isTokenByte :: "char \<Rightarrow> bool" where
  "isTokenByte c =
     (isAlpha c \<or> (CHR ''0'' \<le> c \<and> c \<le> CHR ''9'') \<or> c \<in> set ''!#$%&*+-.^_|~'' \<or>
      c = CHR 0x27 \<or> c = CHR 0x60)"

fun canonicalHeaderBytes :: "bool \<Rightarrow> string \<Rightarrow> string" where
  "canonicalHeaderBytes up [] = []"
| "canonicalHeaderBytes up (c # s) =
     (if up then upper_byte c else lower_byte c) # canonicalHeaderBytes (c = CHR ''-'') s"

definition CanonicalHeaderKey :: "string \<Rightarrow> string" where
  "CanonicalHeaderKey s = (if list_all isTokenByte s then canonicalHeaderBytes True s else s)"

text \<open>A Go map that the code iterates over is an association list with distinct keys.\<close>

type_synonym header = "(string \<times> string list) list"
type_synonym queryValues = "(string \<times> string list) list"

definition headerSet :: "header \<Rightarrow> string \<Rightarrow> string \<Rightarrow> header" where
  "headerSet h k v = AList.update (CanonicalHeaderKey k) [v] h"

definition valuesSet :: "queryValues \<Rightarrow> string \<Rightarrow> string \<Rightarrow> queryValues" where
  "valuesSet q k v = AList.update k [v] q"

text \<open>\<open>base64.StdEncoding.EncodeToString\<close>.\<close>

definition base64Char :: "nat \<Rightarrow> char" where
  "base64Char n =
     (if n < 26 then char_of (65 + n) else if n < 52 then char_of (71 + n)
      else if n < 62 then char_of (n - 4) else if n = 62 then CHR ''+'' else CHR ''/'')"

fun base64 :: "string \<Rightarrow> string" where
  "base64 [] = []"
| "base64 [a] =
     (let n = of_char a * 16 in
        [base64Char (n div 64), base64Char (n mod 64), CHR ''='', CHR ''=''])"
| "base64 [a, b] =
     (let n = (of_char a * 256 + of_char b) * 4 in
        [base64Char (n div 4096), base64Char (n div 64 mod 64), base64Char (n mod 64), CHR ''=''])"
| "base64 (a # b # c # rest) =
     (let n = of_char a * 65536 + of_char b * 256 + of_char c in
        [base64Char (n div 262144), base64Char (n div 4096 mod 64),
         base64Char (n div 64 mod 64), base64Char (n mod 64)] @ base64 rest)"

section \<open>Connections and requests\<close>

datatype Kind = KindHTTP | KindDocker

datatype AuthType = AuthNone | AuthHeader | AuthQuery | AuthBearer | AuthBasic | AuthOther string

record Auth =
  aType :: AuthType
  aName :: string
  aValue :: string
  aUser :: string
  aPass :: string

text \<open>Durations are in nanoseconds.  The rate limit belongs to the limiter and is left out.\<close>

record TLSConfig =
  tlsInsecureSkipVerify :: bool
  tlsCAFile :: string
  tlsServerName :: string

record HTTPConfig =
  cBaseURL :: string
  cAuth :: Auth
  cHeaders :: "(string \<times> string) list"
  cTLS :: TLSConfig
  cTimeout :: int
  cMaxResponseBytes :: int
  cMaxRedirects :: int
  cAllowedPaths :: "string list"
  cConcurrency :: int

record DockerConfig =
  dEndpoint :: string
  dAllowActions :: bool
  dTimeout :: int

record Connection =
  connID :: string
  connKind :: Kind
  connHTTP :: "HTTPConfig option"
  connDocker :: "DockerConfig option"

record client =
  clID :: string
  clCfg :: HTTPConfig
  clBase :: url

record registry =
  connections :: "string \<rightharpoonup> Connection"
  clients :: "string \<rightharpoonup> client"

record Request =
  rMethod :: string
  rPath :: string
  rQuery :: "(string \<times> string) list"
  rHeaders :: "(string \<times> string) list"
  rBody :: "string option"
  rMaxResponseBytes :: int

record Response =
  respStatusCode :: int
  respHeader :: header
  respBody :: string

record RedirectRequest =
  rdMethod :: string
  rdPath :: string
  rdQuery :: "(string \<times> string) list"
  rdHeader :: "(string \<times> string) list"
  rdBodyLen :: int

text \<open>\<open>http.Request\<close>, with the URL's query already decoded; \<open>hContentLength\<close> is -1 when unknown.\<close>

record httpRequest =
  hMethod :: string
  hURL :: url
  hQuery :: queryValues
  hHeader :: header
  hBody :: "string option"
  hContentLength :: int

section \<open>joinPath\<close>

datatype joinError =
    ErrPathTraversal
  | ErrPathTraversalCanon routepath_error
  | JoinParse urlError
  | JoinBase routepath_error

definition joinPath :: "url \<Rightarrow> string \<Rightarrow> (joinError, url) result" where
  "joinPath base p =
     (if p = [] then Inr base
      else if Contains p ''://'' \<or> HasPrefix p ''//'' then Inl ErrPathTraversal
      else if ContainsAny p ''?#'' then Inl (ErrPathTraversalCanon ErrQueryOrFragment)
      else (case urlParse p of
              Inl e \<Rightarrow> Inl (JoinParse e)
            | Inr (scheme, path) \<Rightarrow>
                if scheme \<noteq> [] then Inl ErrPathTraversal
                else (case Canonicalise (if path = [] then ''/'' else path) of
                        Inl e \<Rightarrow> Inl (ErrPathTraversalCanon e)
                      | Inr canonicalReq \<Rightarrow>
                          (case Canonicalise (if uPath base = [] then ''/'' else uPath base) of
                             Inl e \<Rightarrow> Inl (JoinBase e)
                           | Inr canonicalBase \<Rightarrow>
                               Inr (base\<lparr>uPath :=
                                      (if canonicalReq \<noteq> ''/''
                                       then TrimSuffix canonicalBase ''/'' @ canonicalReq
                                       else canonicalBase),
                                    uRawQuery := []\<rparr>)))))"

section \<open>Redirects\<close>

datatype redirectError =
    RedirectTooMany
  | RedirectHost
  | RedirectScheme
  | RedirectPath routepath_error
  | RedirectAllowedPaths
  | RedirectBase routepath_error
  | RedirectEscapesBase
  | RedirectRefused

definition relativeRedirectPath :: "url \<Rightarrow> string \<Rightarrow> (redirectError, string) result" where
  "relativeRedirectPath base canonicalPath =
     (case Canonicalise (if uPath base = [] then ''/'' else uPath base) of
        Inl e \<Rightarrow> Inl (RedirectBase e)
      | Inr canonicalBase \<Rightarrow>
          if canonicalBase = ''/'' then Inr canonicalPath
          else if \<not> HasPathPrefix canonicalPath canonicalBase then Inl RedirectEscapesBase
          else let relative = TrimPrefix canonicalPath canonicalBase in
            Inr (if relative = [] then ''/'' else relative))"

definition redirectBodyLen :: "httpRequest \<Rightarrow> int" where
  "redirectBodyLen req = (if hContentLength req < 0 then -1 else hContentLength req)"

record ownedNameSet =
  ownedQuery :: "string list"
  ownedHeader :: "string list"

definition ownedNames :: "Auth \<Rightarrow> (string \<times> string) list \<Rightarrow> ownedNameSet" where
  "ownedNames auth staticHeaders =
     (let static = map (\<lambda>(name, _). map lower_byte name) staticHeaders in
      case aType auth of
        AuthHeader \<Rightarrow>
          \<lparr>ownedQuery = [],
           ownedHeader = (if aName auth \<noteq> [] then map lower_byte (aName auth) # static else static)\<rparr>
      | AuthQuery \<Rightarrow>
          \<lparr>ownedQuery = (if aName auth \<noteq> [] then [aName auth] else []), ownedHeader = static\<rparr>
      | AuthBearer \<Rightarrow> \<lparr>ownedQuery = [], ownedHeader = ''authorization'' # static\<rparr>
      | AuthBasic \<Rightarrow> \<lparr>ownedQuery = [], ownedHeader = ''authorization'' # static\<rparr>
      | _ \<Rightarrow> \<lparr>ownedQuery = [], ownedHeader = static\<rparr>)"

definition firstQueryValues :: "queryValues \<Rightarrow> string list \<Rightarrow> (string \<times> string) list" where
  "firstQueryValues q owned =
     map (\<lambda>(k, v). (k, hd v)) (filter (\<lambda>(k, v). \<not> (k \<in> set owned \<or> v = [])) q)"

definition singleHeaderValues :: "header \<Rightarrow> string list \<Rightarrow> (string \<times> string) list" where
  "singleHeaderValues h owned =
     map (\<lambda>(k, v). (k, hd v)) (filter (\<lambda>(k, v). \<not> (map lower_byte k \<in> set owned \<or> v = [])) h)"

text \<open>The loop over \<open>allowedPaths\<close>; an entry that is not canonicalisable is skipped.\<close>

definition underAllowedPath :: "string list \<Rightarrow> string \<Rightarrow> bool" where
  "underAllowedPath allowedPaths canonicalPath =
     list_ex (\<lambda>p. case Canonicalise p of
                     Inl _ \<Rightarrow> False
                   | Inr canonicalAllowed \<Rightarrow> HasPathPrefix canonicalPath canonicalAllowed) allowedPaths"

type_synonym redirectAuthorizer = "RedirectRequest \<Rightarrow> bool"

definition redirectRequest :: "httpRequest \<Rightarrow> string \<Rightarrow> Auth \<Rightarrow> (string \<times> string) list \<Rightarrow> RedirectRequest"
  where
  "redirectRequest req relative auth staticHeaders =
     (let owned = ownedNames auth staticHeaders in
        \<lparr>rdMethod = hMethod req, rdPath = relative,
         rdQuery = firstQueryValues (hQuery req) (ownedQuery owned),
         rdHeader = singleHeaderValues (hHeader req) (ownedHeader owned),
         rdBodyLen = redirectBodyLen req\<rparr>)"

text \<open>\<open>None\<close> when the redirect to \<open>req\<close> may be followed; \<open>via\<close> are the requests sent so far.\<close>

definition redirectPolicy ::
    "client \<Rightarrow> redirectAuthorizer option \<Rightarrow> httpRequest \<Rightarrow> httpRequest list \<Rightarrow> redirectError option"
  where
  "redirectPolicy c authorizer req via =
     (let base = clBase c; cfg = clCfg c in
      if int (length via) > cMaxRedirects cfg then Some RedirectTooMany
      else if uHost (hURL req) \<noteq> uHost base then Some RedirectHost
      else if uScheme (hURL req) \<noteq> uScheme base then Some RedirectScheme
      else (case Canonicalise (uPath (hURL req)) of
              Inl e \<Rightarrow> Some (RedirectPath e)
            | Inr canonicalPath \<Rightarrow>
                if cAllowedPaths cfg \<noteq> [] \<and> \<not> underAllowedPath (cAllowedPaths cfg) canonicalPath
                then Some RedirectAllowedPaths
                else (case authorizer of
                        None \<Rightarrow> None
                      | Some authorize \<Rightarrow>
                          (case relativeRedirectPath base canonicalPath of
                             Inl e \<Rightarrow> Some e
                           | Inr relative \<Rightarrow>
                               if authorize (redirectRequest req relative (cAuth cfg) (cHeaders cfg))
                               then None else Some RedirectRefused))))"

section \<open>The registry\<close>

definition basicAuthHeader :: "string \<Rightarrow> string \<Rightarrow> string" where
  "basicAuthHeader user pass = ''Basic '' @ base64 (user @ '':'' @ pass)"

definition injectAuth :: "Auth \<Rightarrow> header \<times> queryValues \<Rightarrow> header \<times> queryValues" where
  "injectAuth auth hq =
     (case hq of (h, q) \<Rightarrow>
      (case aType auth of
         AuthHeader \<Rightarrow> (headerSet h (aName auth) (aValue auth), q)
       | AuthQuery \<Rightarrow> (h, valuesSet q (aName auth) (aValue auth))
       | AuthBearer \<Rightarrow> (headerSet h ''Authorization'' (''Bearer '' @ aValue auth), q)
       | AuthBasic \<Rightarrow> (headerSet h ''Authorization'' (basicAuthHeader (aUser auth) (aPass auth)), q)
       | AuthNone \<Rightarrow> (h, q)
       | AuthOther _ \<Rightarrow> (h, q)))"

datatype serverAnswer =
    Final Response
  | RedirectTo httpRequest
  | TransportError

datatype doError =
    ErrUnknownConnection
  | ErrNotHTTP
  | RateLimitWait
  | ConcurrencyWait
  | DoJoin joinError
  | InvalidMethod
  | DoTransport
  | DoRedirect redirectError
  | ErrResponseTooLarge

text \<open>
  What one call to \<open>Do\<close> depends on besides its arguments: whether the limiter and the semaphore
  were acquired before the context ended, what the network answers, and how \<open>net/url\<close> decodes a
  query that is part of the base URL.
\<close>

record netEnv =
  limiterWait :: bool
  semAcquire :: bool
  server :: "httpRequest \<Rightarrow> serverAnswer"
  parseQuery :: "string \<Rightarrow> queryValues"

text \<open>
  \<open>http.Client.Do\<close>: send, and follow each redirect that the policy accepts.  The second component
  is the list of the requests that were sent, in order.
\<close>

function clientDo ::
    "client \<Rightarrow> redirectAuthorizer option \<Rightarrow> (httpRequest \<Rightarrow> serverAnswer) \<Rightarrow> httpRequest list \<Rightarrow>
     httpRequest \<Rightarrow> (doError, Response) result \<times> httpRequest list" where
  "clientDo c authorizer srv via req =
     (case srv req of
        Final resp \<Rightarrow> (Inr resp, via @ [req])
      | TransportError \<Rightarrow> (Inl DoTransport, via @ [req])
      | RedirectTo dest \<Rightarrow>
          (case redirectPolicy c authorizer dest (via @ [req]) of
             Some e \<Rightarrow> (Inl (DoRedirect e), via @ [req])
           | None \<Rightarrow> clientDo c authorizer srv (via @ [req]) dest))"
  by pat_completeness auto

termination
  by (relation "measure (\<lambda>(c, _, _, via, _). nat (cMaxRedirects (clCfg c)) + 1 - length via)")
    (auto simp: redirectPolicy_def Let_def split: if_splits)

definition readLimited :: "string \<Rightarrow> int \<Rightarrow> (doError, string) result" where
  "readLimited body limit =
     (let buffered = take (nat (limit + 1)) body in
        if int (length buffered) > limit then Inl ErrResponseTooLarge else Inr buffered)"

definition defaultMaxResponseBytes :: int where
  "defaultMaxResponseBytes = 8 * 2 ^ 20"

definition responseLimit :: "HTTPConfig \<Rightarrow> Request \<Rightarrow> int" where
  "responseLimit cfg req =
     (let limit = (if cMaxResponseBytes cfg \<le> 0 then defaultMaxResponseBytes else cMaxResponseBytes cfg)
      in if rMaxResponseBytes req > 0 \<and> rMaxResponseBytes req < limit
         then rMaxResponseBytes req else limit)"

text \<open>The request \<open>Do\<close> hands to the HTTP client once the target is known.\<close>

definition buildRequest :: "netEnv \<Rightarrow> client \<Rightarrow> url \<Rightarrow> Request \<Rightarrow> (doError, httpRequest) result" where
  "buildRequest env c target req =
     (if \<not> list_all isTokenByte (rMethod req) then Inl InvalidMethod
      else let query0 = (if uRawQuery target = [] then [] else parseQuery env (uRawQuery target));
               query = foldl (\<lambda>q (k, v). valuesSet q k v) query0 (rQuery req);
               header1 = foldl (\<lambda>h (k, v). headerSet h k v) [] (rHeaders req);
               header2 = foldl (\<lambda>h (k, v). headerSet h k v) header1 (cHeaders (clCfg c));
               (header3, query3) = injectAuth (cAuth (clCfg c)) (header2, query)
           in Inr \<lparr>hMethod = (if rMethod req = [] then ''GET'' else rMethod req),
                   hURL = target, hQuery = query3, hHeader = header3, hBody = rBody req,
                   hContentLength = (case rBody req of None \<Rightarrow> 0 | Some b \<Rightarrow> int (length b))\<rparr>)"

definition registryGet :: "registry \<Rightarrow> string \<Rightarrow> Connection option" where
  "registryGet r cid = connections r cid"

definition Do ::
    "netEnv \<Rightarrow> registry \<Rightarrow> redirectAuthorizer option \<Rightarrow> string \<Rightarrow> Request \<Rightarrow>
     (doError, Response) result \<times> httpRequest list" where
  "Do env r authorizer cid req =
     (case clients r cid of
        None \<Rightarrow> (Inl (if registryGet r cid \<noteq> None then ErrNotHTTP else ErrUnknownConnection), [])
      | Some c \<Rightarrow>
          if \<not> limiterWait env then (Inl RateLimitWait, [])
          else if \<not> semAcquire env then (Inl ConcurrencyWait, [])
          else (case joinPath (clBase c) (rPath req) of
                  Inl e \<Rightarrow> (Inl (DoJoin e), [])
                | Inr target \<Rightarrow>
                    (case buildRequest env c target req of
                       Inl e \<Rightarrow> (Inl e, [])
                     | Inr httpReq \<Rightarrow>
                         (case clientDo c authorizer (server env) [] httpReq of
                            (Inl e, sent) \<Rightarrow> (Inl e, sent)
                          | (Inr resp, sent) \<Rightarrow>
                              (case readLimited (respBody resp) (responseLimit (clCfg c) req) of
                                 Inl e \<Rightarrow> (Inl e, sent)
                               | Inr body \<Rightarrow> (Inr (resp\<lparr>respBody := body\<rparr>), sent))))))"

section \<open>Lemmas\<close>

subsection \<open>Joining and splitting canonical paths\<close>

text \<open>The path that \<open>joinPath\<close> builds from a canonical base path and a canonical request path.\<close>

definition joinCanonical :: "string \<Rightarrow> string \<Rightarrow> string" where
  "joinCanonical b r = (if r \<noteq> ''/'' then TrimSuffix b ''/'' @ r else b)"

lemma joinCanonical_segments:
  assumes "Canonicalise b = Inr b" "Canonicalise r = Inr r"
  shows "Canonicalise (joinCanonical b r) = Inr (joinCanonical b r)"
    "pathSegments (joinCanonical b r) = pathSegments b @ pathSegments r"
proof -
  have "Canonicalise (joinCanonical b r) = Inr (joinCanonical b r) \<and>
      pathSegments (joinCanonical b r) = pathSegments b @ pathSegments r"
    using assms(2)
  proof (cases rule: canonical_cases)
    case 1
    then show ?thesis using assms(1) by (simp add: joinCanonical_def)
  next
    case r: (2 rs)
    have nr: "r \<noteq> ''/''" using canonical_no_trailing_slash(1)[OF r(2,1,3)] .
    show ?thesis
      using assms(1)
    proof (cases rule: canonical_cases)
      case 1
      then show ?thesis using assms(2) nr by (simp add: joinCanonical_def TrimSuffix_def HasSuffix_def)
    next
      case b: (2 bs)
      have j: "joinCanonical b r = ''/'' @ Join ''/'' (bs @ rs)"
        using nr canonical_no_trailing_slash(2)[OF b(2,1,3)] b(1,3) r(1,3)
        by (simp add: joinCanonical_def Join_append)
      have n: "list_all2 segmentNormalises (bs @ rs) (bs @ rs)"
        using b(2) r(2) by (rule list_all2_appendI)
      show ?thesis
        unfolding j using Canonicalise_normal_segments[OF _ n] pathSegments_Join_left[OF n] b r by simp
    qed
  qed
  then show "Canonicalise (joinCanonical b r) = Inr (joinCanonical b r)"
    "pathSegments (joinCanonical b r) = pathSegments b @ pathSegments r" by auto
qed

lemma canonical_path_eq_iff:
  assumes "Canonicalise p = Inr p" "Canonicalise q = Inr q"
  shows "p = q \<longleftrightarrow> pathSegments p = pathSegments q"
proof
  assume eq: "pathSegments p = pathSegments q"
  show "p = q"
    using assms(1)
  proof (cases rule: canonical_cases)
    case 1
    then show ?thesis using eq by (auto intro: canonical_cases[OF assms(2)])
  next
    case (2 ss)
    then show ?thesis using eq by (auto intro: canonical_cases[OF assms(2)])
  qed
qed simp

definition canonicalBasePath :: "url \<Rightarrow> (routepath_error, string) result" where
  "canonicalBasePath base = Canonicalise (if uPath base = [] then ''/'' else uPath base)"

lemma relativeRedirectPath_join:
  assumes "canonicalBasePath base = Inr b" "Canonicalise r = Inr r"
  shows "relativeRedirectPath base (joinCanonical b r) = Inr r"
proof -
  have cb: "Canonicalise b = Inr b"
    using assms(1) Canonicalise_fixpoint by (auto simp: canonicalBasePath_def)
  note js = joinCanonical_segments[OF cb assms(2)]
  have pre: "HasPathPrefix (joinCanonical b r) b"
    using HasPathPrefix_segments[OF js(1) cb] js(2) by simp
  show ?thesis
    using cb
  proof (cases rule: canonical_cases)
    case 1
    then show ?thesis using assms
      by (simp add: relativeRedirectPath_def canonicalBasePath_def joinCanonical_def TrimSuffix_def HasSuffix_def)
  next
    case (2 bs)
    have "r \<noteq> []" using assms(2) by (auto simp: Canonicalise_def HasPrefix_def)
    moreover have "TrimPrefix b b = []" using TrimPrefix_append[of b "[]"] by simp
    ultimately have "(let t = TrimPrefix (joinCanonical b r) b in if t = [] then ''/'' else t) = r"
      using canonical_no_trailing_slash(2)[OF 2(2,1,3)] by (simp add: joinCanonical_def)
    then show ?thesis
      using assms(1) pre canonical_no_trailing_slash(1)[OF 2(2,1,3)]
      by (simp add: relativeRedirectPath_def canonicalBasePath_def Let_def)
  qed
qed

lemma canonical_suffix:
  assumes "Canonicalise p = Inr p" "pathSegments p = bs @ rs"
  shows "\<exists>r. Canonicalise r = Inr r \<and> pathSegments r = rs"
proof (cases "rs = []")
  case True
  have "Canonicalise ''/'' = Inr ''/''"
    by (simp add: Canonicalise_def HasPrefix_def ContainsAny_def controlOrSpace_def)
  then show ?thesis using True by (auto simp: pathSegments_def)
next
  case False
  have "list_all2 segmentNormalises (bs @ rs) (bs @ rs)"
    using Canonicalise_segments[OF assms(1)] assms(2) by simp
  then have rs: "list_all2 segmentNormalises rs rs" by (simp add: list_all2_append)
  show ?thesis
    using Canonicalise_normal_segments[OF False rs] pathSegments_Join_left[OF rs False] by blast
qed

lemma relativeRedirectPath_sound:
  assumes "canonicalBasePath base = Inr b" "Canonicalise q = Inr q" "relativeRedirectPath base q = Inr r"
  shows "Canonicalise r = Inr r \<and> joinCanonical b r = q"
proof -
  have cb: "Canonicalise b = Inr b"
    using assms(1) Canonicalise_fixpoint by (auto simp: canonicalBasePath_def)
  have "prefix (pathSegments b) (pathSegments q)"
  proof (cases "b = ''/''")
    case False
    then show ?thesis
      using assms HasPathPrefix_segments[OF assms(2) cb]
      by (auto simp: relativeRedirectPath_def canonicalBasePath_def split: if_splits)
  qed (simp add: pathSegments_def)
  then obtain rs where "pathSegments q = pathSegments b @ rs" by (auto simp: prefix_def)
  then obtain r' where r': "Canonicalise r' = Inr r'" "pathSegments q = pathSegments b @ pathSegments r'"
    using canonical_suffix[OF assms(2)] by metis
  note js = joinCanonical_segments[OF cb r'(1)]
  have q: "joinCanonical b r' = q"
    using canonical_path_eq_iff[OF js(1) assms(2)] js(2) r'(2) by simp
  then have "r = r'" using relativeRedirectPath_join[OF assms(1) r'(1)] assms(3) by simp
  then show ?thesis using q r'(1) by simp
qed

subsection \<open>joinPath\<close>

lemma joinPath_Inr:
  assumes "joinPath base p = Inr u" "p \<noteq> []"
  obtains b path r where "urlParse p = Inr ([], path)" "canonicalBasePath base = Inr b"
    "Canonicalise (if path = [] then ''/'' else path) = Inr r"
    "u = base\<lparr>uPath := joinCanonical b r, uRawQuery := []\<rparr>"
proof -
  obtain scheme path where up: "urlParse p = Inr (scheme, path)" "scheme = []"
    using assms by (auto simp: joinPath_def split: if_splits sum.splits)
  then obtain r b where "Canonicalise (if path = [] then ''/'' else path) = Inr r"
    "canonicalBasePath base = Inr b" "u = base\<lparr>uPath := joinCanonical b r, uRawQuery := []\<rparr>"
    using assms
    by (auto simp: joinPath_def canonicalBasePath_def joinCanonical_def split: if_splits sum.splits)
  then show ?thesis using up that by blast
qed

lemma canonicalBasePath_canonical: "canonicalBasePath base = Inr b \<Longrightarrow> Canonicalise b = Inr b"
  using Canonicalise_fixpoint by (auto simp: canonicalBasePath_def)

lemma joinPath_segments:
  assumes "joinPath base p = Inr u" "p \<noteq> []"
  shows "uScheme u = uScheme base \<and> uHost u = uHost base \<and> uRawQuery u = [] \<and>
    Canonicalise (uPath u) = Inr (uPath u) \<and>
    (\<exists>b. canonicalBasePath base = Inr b \<and> prefix (pathSegments b) (pathSegments (uPath u)))"
  using assms
proof (cases rule: joinPath_Inr)
  case (1 b path r)
  note js = joinCanonical_segments[OF canonicalBasePath_canonical[OF 1(2)] Canonicalise_fixpoint[OF 1(3)]]
  show ?thesis using 1 js by simp
qed

lemma unescapePath_no_escape: "CHR ''%'' \<notin> set s \<Longrightarrow> unescapePath s = Inr s"
  by (induction s) auto

lemma canonicalisable_no_empty_segment:
  assumes "Canonicalise p = Inr c" shows "\<not> Contains p ''//''"
proof
  assume "Contains p ''//''"
  then obtain u r where p: "p = u @ ''//'' @ r" by (auto simp: Contains_iff)
  have nr: "p \<noteq> ''/''" using p by (cases u) auto
  have "[] \<in> set (pathSegments p)"
  proof (cases u)
    case Nil
    then show ?thesis using p nr by (simp add: pathSegments_def)
  next
    case (Cons x u')
    then have "tl p = u' @ CHR ''/'' # CHR ''/'' # r" using p by simp
    then show ?thesis using nr by (simp add: pathSegments_def Split_append)
  qed
  then show False
    using Canonicalise_segments[OF assms] segmentNormalises_not_Nil
    by (metis in_set_conv_nth list_all2_conv_all_nth)
qed

text \<open>For a path without escapes, what is sent is what the same path canonicalises to.\<close>

lemma joinPath_plain:
  assumes "Canonicalise p = Inr r" "CHR ''%'' \<notin> set p" "canonicalBasePath base = Inr b"
  shows "joinPath base p = Inr (base\<lparr>uPath := joinCanonical b r, uRawQuery := []\<rparr>)"
proof -
  have ok: "HasPrefix p ''/''" "\<not> ContainsAny p ''?#''" "\<not> list_ex controlOrSpace p"
    using assms(1) by (auto simp: Canonicalise_def split: if_splits)
  have nn: "\<not> Contains p ''//''" using canonicalisable_no_empty_segment[OF assms(1)] .
  then have "\<not> Contains p ''://''" by (auto simp: Contains_iff) (metis append.assoc append_Cons append_Nil)
  moreover have "\<not> HasPrefix p ''//''" using nn by (auto simp: Contains_iff HasPrefix_iff)
  moreover have "\<not> list_ex (\<lambda>c. of_char c < (0x20::nat) \<or> of_char c = (0x7f::nat)) p"
    using ok(3) by (auto simp: list_ex_iff controlOrSpace_def)
  moreover have "getScheme p [] p = Inr ([], p)" "p \<noteq> []" "p \<noteq> ''*''"
    using ok(1) by (auto simp: HasPrefix_iff isAlpha_def)
  ultimately show ?thesis
    using ok unescapePath_no_escape[OF assms(2)] assms(1,3)
    by (simp add: joinPath_def urlParse_def joinCanonical_def canonicalBasePath_def)
qed

subsection \<open>Redirects and the response limit\<close>

declare clientDo.simps [simp del]

lemma clientDo_trace:
  "\<exists>ds. snd (clientDo c authorizer srv via req) = via @ req # ds \<and>
        list_all (\<lambda>d. \<exists>v. redirectPolicy c authorizer d v = None) ds \<and>
        (ds \<noteq> [] \<longrightarrow> int (length via + length ds) \<le> cMaxRedirects (clCfg c))"
proof (induction c authorizer srv via req rule: clientDo.induct)
  case (1 c authorizer srv via req)
  show ?case
  proof (cases "srv req")
    case (RedirectTo dest)
    show ?thesis
    proof (cases "redirectPolicy c authorizer dest (via @ [req])")
      case None
      then obtain ds where ds: "snd (clientDo c authorizer srv (via @ [req]) dest) = (via @ [req]) @ dest # ds"
        "list_all (\<lambda>d. \<exists>v. redirectPolicy c authorizer d v = None) ds"
        "ds \<noteq> [] \<longrightarrow> int (length (via @ [req]) + length ds) \<le> cMaxRedirects (clCfg c)"
        using 1 RedirectTo by blast
      have "int (length (via @ [req])) \<le> cMaxRedirects (clCfg c)"
        using None by (auto simp: redirectPolicy_def Let_def split: if_splits)
      then have "int (length via + length (dest # ds)) \<le> cMaxRedirects (clCfg c)"
        using ds(3) by (cases "ds = []") auto
      then show ?thesis
        using ds(1,2) None RedirectTo
        by (intro exI[of _ "dest # ds"]) (auto simp: clientDo.simps[of c authorizer srv via req])
    qed (simp add: clientDo.simps[of c authorizer srv via req] RedirectTo)
  qed (simp_all add: clientDo.simps[of c authorizer srv via req])
qed

lemma clientDo_answer:
  "fst (clientDo c authorizer srv via req) = Inr resp \<Longrightarrow>
   srv (last (snd (clientDo c authorizer srv via req))) = Final resp"
proof (induction c authorizer srv via req rule: clientDo.induct)
  case (1 c authorizer srv via req)
  then show ?case
    by (auto simp: clientDo.simps[of c authorizer srv via req] split: serverAnswer.splits option.splits)
qed

lemma redirectPolicy_None:
  assumes "redirectPolicy c authorizer req via = None"
  shows "uHost (hURL req) = uHost (clBase c)" "uScheme (hURL req) = uScheme (clBase c)"
    "\<exists>q. Canonicalise (uPath (hURL req)) = Inr q \<and>
      (cAllowedPaths (clCfg c) \<noteq> [] \<longrightarrow> underAllowedPath (cAllowedPaths (clCfg c)) q) \<and>
      (\<forall>authorize. authorizer = Some authorize \<longrightarrow>
        (\<exists>r. relativeRedirectPath (clBase c) q = Inr r \<and>
             authorize (redirectRequest req r (cAuth (clCfg c)) (cHeaders (clCfg c)))))"
  using assms
  by (auto simp: redirectPolicy_def Let_def split: if_splits sum.splits option.splits)

lemma readLimited_eq:
  "0 \<le> limit \<Longrightarrow> readLimited body limit =
    (if int (length body) > limit then Inl ErrResponseTooLarge else Inr body)"
  by (auto simp: readLimited_def Let_def)

lemma responseLimit_bounds:
  "0 < responseLimit cfg req \<and>
   (cMaxResponseBytes cfg > 0 \<longrightarrow> responseLimit cfg req \<le> cMaxResponseBytes cfg) \<and>
   (cMaxResponseBytes cfg \<le> 0 \<longrightarrow> responseLimit cfg req \<le> defaultMaxResponseBytes) \<and>
   (rMaxResponseBytes req > 0 \<longrightarrow> responseLimit cfg req \<le> rMaxResponseBytes req)"
  by (auto simp: responseLimit_def defaultMaxResponseBytes_def Let_def)

lemma Do_first_request:
  assumes "clients r cid = Some c" "Do env r authorizer cid req = (res, sent)" "sent \<noteq> []"
  obtains target h ds where "joinPath (clBase c) (rPath req) = Inr target"
    "buildRequest env c target req = Inr h" "sent = h # ds"
    "list_all (\<lambda>d. \<exists>v. redirectPolicy c authorizer d v = None) ds"
    "ds \<noteq> [] \<longrightarrow> int (length ds) \<le> cMaxRedirects (clCfg c)"
proof -
  obtain target h where th: "joinPath (clBase c) (rPath req) = Inr target"
      "buildRequest env c target req = Inr h"
    and sent: "sent = snd (clientDo c authorizer (server env) [] h)"
    using assms by (auto simp: Do_def split: if_splits sum.splits prod.splits)
  show ?thesis
    using clientDo_trace[of c authorizer "server env" "[]" h] th sent that by auto
qed

lemma redirect_authorised:
  assumes "redirectPolicy c (Some authorize) h via = None"
  shows "uHost (hURL h) = uHost (clBase c) \<and> uScheme (hURL h) = uScheme (clBase c) \<and>
    (\<exists>b q rel. Canonicalise (uPath (hURL h)) = Inr q \<and> canonicalBasePath (clBase c) = Inr b \<and>
       q = joinCanonical b rel \<and> Canonicalise rel = Inr rel \<and>
       (cAllowedPaths (clCfg c) \<noteq> [] \<longrightarrow> underAllowedPath (cAllowedPaths (clCfg c)) q) \<and>
       authorize (redirectRequest h rel (cAuth (clCfg c)) (cHeaders (clCfg c))))"
proof -
  note rp = redirectPolicy_None[OF assms]
  obtain q rel where q: "Canonicalise (uPath (hURL h)) = Inr q"
    "relativeRedirectPath (clBase c) q = Inr rel"
    "cAllowedPaths (clCfg c) \<noteq> [] \<longrightarrow> underAllowedPath (cAllowedPaths (clCfg c)) q"
    "authorize (redirectRequest h rel (cAuth (clCfg c)) (cHeaders (clCfg c)))"
    using rp(3) by blast
  obtain b where b: "canonicalBasePath (clBase c) = Inr b"
    using q(2) by (auto simp: relativeRedirectPath_def canonicalBasePath_def split: sum.splits)
  show ?thesis
    using rp(1,2) q b relativeRedirectPath_sound[OF b Canonicalise_fixpoint[OF q(1)] q(2)] by blast
qed

section \<open>Properties\<close>

text \<open>A connection with a base path that the witnesses use.\<close>

definition exampleBase :: url where
  "exampleBase = \<lparr>uScheme = ''https'', uHost = ''h'', uPath = ''/api'', uRawQuery = []\<rparr>"

definition exampleConfig :: HTTPConfig where
  "exampleConfig = \<lparr>cBaseURL = ''https://h/api'',
     cAuth = \<lparr>aType = AuthBearer, aName = [], aValue = ''t'', aUser = [], aPass = []\<rparr>,
     cHeaders = [], cTLS = \<lparr>tlsInsecureSkipVerify = False, tlsCAFile = [], tlsServerName = []\<rparr>,
     cTimeout = 10, cMaxResponseBytes = 100, cMaxRedirects = 1, cAllowedPaths = [], cConcurrency = 1\<rparr>"

definition exampleRequest :: Request where
  "exampleRequest = \<lparr>rMethod = ''GET'', rPath = ''/a'', rQuery = [], rHeaders = [], rBody = None,
     rMaxResponseBytes = 10\<rparr>"

definition exampleClient :: client where
  "exampleClient = \<lparr>clID = ''c'', clCfg = exampleConfig, clBase = exampleBase\<rparr>"

definition exampleRegistry :: registry where
  "exampleRegistry = \<lparr>connections = Map.empty, clients = [''c'' \<mapsto> exampleClient]\<rparr>"

definition exampleResponse :: Response where
  "exampleResponse = \<lparr>respStatusCode = 200, respHeader = [], respBody = ''ok''\<rparr>"

text \<open>A server that answers \<open>/api/a\<close> with a redirect to \<open>/api/b\<close> and everything else directly.\<close>

definition exampleEnv :: netEnv where
  "exampleEnv = \<lparr>limiterWait = True, semAcquire = True,
     server = (\<lambda>h. if uPath (hURL h) = ''/api/a''
       then RedirectTo (h\<lparr>hURL := exampleBase\<lparr>uPath := ''/api/b''\<rparr>\<rparr>) else Final exampleResponse),
     parseQuery = (\<lambda>_. [])\<rparr>"

text \<open>
  C25: a request stays inside its connection.  Whatever non-empty path \<open>joinPath\<close> accepts, the
  target has the scheme and the host of the base URL, carries no query of its own, and its path is
  canonical and lies under the canonical base path, segment by segment.
\<close>

theorem joinPath_contained:
  assumes "joinPath base p = Inr u" "p \<noteq> []"
  shows "uScheme u = uScheme base \<and> uHost u = uHost base \<and> uRawQuery u = [] \<and>
    Canonicalise (uPath u) = Inr (uPath u) \<and>
    (\<exists>b. canonicalBasePath base = Inr b \<and> prefix (pathSegments b) (pathSegments (uPath u)))"
  using assms by (rule joinPath_segments)

theorem joinPath_contained_witness:
  "\<exists>u. joinPath \<lparr>uScheme = ''https'', uHost = ''h'', uPath = ''/api'', uRawQuery = []\<rparr> ''/items'' = Inr u \<and>
    uHost u = ''h'' \<and> Canonicalise (uPath u) = Inr (uPath u)"
proof -
  let ?b = "\<lparr>uScheme = ''https'', uHost = ''h'', uPath = ''/api'', uRawQuery = []\<rparr>"
  have u: "joinPath ?b ''/items'' =
      Inr \<lparr>uScheme = ''https'', uHost = ''h'', uPath = ''/api/items'', uRawQuery = []\<rparr>"
    by code_simp
  show ?thesis using u joinPath_contained[OF u] by simp
qed

text \<open>
  C10: for a path without percent escapes, the path that goes out is the base path followed by
  exactly the canonical form that was authorised.
\<close>

theorem joinPath_sends_canonical:
  assumes "Canonicalise p = Inr r" "CHR ''%'' \<notin> set p" "canonicalBasePath base = Inr b"
  shows "\<exists>u. joinPath base p = Inr u \<and> pathSegments (uPath u) = pathSegments b @ pathSegments r"
  using joinPath_plain[OF assms]
    joinCanonical_segments(2)[OF canonicalBasePath_canonical[OF assms(3)] Canonicalise_fixpoint[OF assms(1)]]
  by simp

theorem joinPath_sends_canonical_witness:
  "\<exists>u. joinPath \<lparr>uScheme = ''https'', uHost = ''h'', uPath = [], uRawQuery = []\<rparr> ''/a/b'' = Inr u \<and>
    pathSegments (uPath u) = [''a'', ''b'']"
proof -
  let ?b = "\<lparr>uScheme = ''https'', uHost = ''h'', uPath = [], uRawQuery = []\<rparr>"
  have h: "Canonicalise ''/a/b'' = Inr ''/a/b''" "canonicalBasePath ?b = Inr ''/''" by code_simp+
  show ?thesis using joinPath_sends_canonical[OF h(1) _ h(2)] by (simp add: pathSegments_def)
qed

text \<open>
  C38: with escapes the two can differ.  \<open>joinPath\<close> canonicalises the path that \<open>url.Parse\<close> has
  already decoded, so the path \<open>/items/%2578\<close>, authorised in that spelling, is sent as \<open>/items/x\<close>,
  and an escaped space, which \<open>Canonicalise\<close> accepts, is always refused.
\<close>

theorem joinPath_decodes_twice:
  "Canonicalise ''/items/%2578'' = Inr ''/items/%2578'' \<and>
   joinPath \<lparr>uScheme = ''https'', uHost = ''h'', uPath = [], uRawQuery = []\<rparr> ''/items/%2578'' =
     Inr \<lparr>uScheme = ''https'', uHost = ''h'', uPath = ''/items/x'', uRawQuery = []\<rparr> \<and>
   Canonicalise ''/a%20b'' = Inr ''/a%20b'' \<and>
   joinPath \<lparr>uScheme = ''https'', uHost = ''h'', uPath = [], uRawQuery = []\<rparr> ''/a%20b'' =
     Inl (ErrPathTraversalCanon ErrControlOrSpace)"
  by (intro conjI) code_simp+

text \<open>
  C12: \<open>relativeRedirectPath\<close> is the inverse of \<open>joinPath\<close> on canonical paths, in both directions:
  the joined path maps back to the request path, and a destination that maps to a relative path is
  the join of the base path with it.
\<close>

theorem relativeRedirectPath_inverse:
  assumes "canonicalBasePath base = Inr b" "Canonicalise q = Inr q"
  shows "relativeRedirectPath base q = Inr rel \<longleftrightarrow> Canonicalise rel = Inr rel \<and> joinCanonical b rel = q"
  using relativeRedirectPath_sound[OF assms] relativeRedirectPath_join[OF assms(1)] by blast

theorem relativeRedirectPath_inverse_witness:
  "relativeRedirectPath \<lparr>uScheme = ''https'', uHost = ''h'', uPath = ''/api'', uRawQuery = []\<rparr> ''/api/x'' =
    Inr ''/x'' \<longleftrightarrow> Canonicalise ''/x'' = Inr ''/x'' \<and> joinCanonical ''/api'' ''/x'' = ''/api/x''"
proof -
  have h: "canonicalBasePath \<lparr>uScheme = ''https'', uHost = ''h'', uPath = ''/api'', uRawQuery = []\<rparr> = Inr ''/api''"
    "Canonicalise ''/api/x'' = Inr ''/api/x''" by code_simp+
  show ?thesis using relativeRedirectPath_inverse[OF h] .
qed

text \<open>
  C6: redirects never leave the authority of the call.  Of the requests that one \<open>Do\<close> sends, at
  most \<open>maxRedirects\<close> follow the first, and each of those has the base URL's host and scheme, lies
  under the base path and \<open>allowedPaths\<close>, and was accepted by the caller's authorizer for exactly
  the relative path it is sent to.
\<close>

theorem Do_redirects_authorised:
  assumes "clients r cid = Some c" "Do env r (Some authorize) cid req = (res, sent)"
  shows "length sent \<le> Suc (nat (cMaxRedirects (clCfg c))) \<and>
    list_all (\<lambda>h. uHost (hURL h) = uHost (clBase c) \<and> uScheme (hURL h) = uScheme (clBase c) \<and>
      (\<exists>b q rel. Canonicalise (uPath (hURL h)) = Inr q \<and> canonicalBasePath (clBase c) = Inr b \<and>
        q = joinCanonical b rel \<and> Canonicalise rel = Inr rel \<and>
        (cAllowedPaths (clCfg c) \<noteq> [] \<longrightarrow> underAllowedPath (cAllowedPaths (clCfg c)) q) \<and>
        authorize (redirectRequest h rel (cAuth (clCfg c)) (cHeaders (clCfg c))))) (tl sent)"
proof (cases "sent = []")
  case False
  show ?thesis
    using assms False
  proof (cases rule: Do_first_request)
    case (1 target h ds)
    have "length sent \<le> Suc (nat (cMaxRedirects (clCfg c)))" using 1(3,5) by (cases "ds = []") auto
    then show ?thesis using 1(3,4) redirect_authorised by (auto simp: list_all_iff)
  qed
qed simp

lemma exampleDo:
  "\<exists>sent. Do exampleEnv exampleRegistry (Some (\<lambda>d. rdPath d = ''/b'')) ''c'' exampleRequest =
     (Inr exampleResponse, sent) \<and> length sent = 2"
proof -
  have ev: "joinPath exampleBase ''/a'' = Inr (exampleBase\<lparr>uPath := ''/api/a''\<rparr>)"
    "Canonicalise ''/api/b'' = Inr ''/api/b''" "relativeRedirectPath exampleBase ''/api/b'' = Inr ''/b''"
    by code_simp+
  show ?thesis
    by (simp add: Do_def exampleRegistry_def exampleEnv_def exampleResponse_def exampleClient_def
        ev exampleRequest_def buildRequest_def clientDo.simps injectAuth_def exampleConfig_def
        readLimited_def responseLimit_def isTokenByte_def isAlpha_def redirectPolicy_def
        redirectRequest_def Let_def)
qed

theorem Do_redirects_authorised_witness:
  "\<exists>res sent. Do exampleEnv exampleRegistry (Some (\<lambda>d. rdPath d = ''/b'')) ''c'' exampleRequest = (res, sent) \<and>
     length sent = 2 \<and> length sent \<le> Suc (nat (cMaxRedirects (clCfg exampleClient)))"
proof -
  obtain res sent where sent:
    "Do exampleEnv exampleRegistry (Some (\<lambda>d. rdPath d = ''/b'')) ''c'' exampleRequest = (res, sent)"
    "length sent = 2" using exampleDo by blast
  have "clients exampleRegistry ''c'' = Some exampleClient" by (simp add: exampleRegistry_def)
  from Do_redirects_authorised[OF this sent(1)] sent show ?thesis by blast
qed

text \<open>
  C40: a response is never larger than the tightest of the limits that apply, and it is never cut:
  \<open>Do\<close> returns the whole body or the error.
\<close>

theorem Do_response_limit:
  assumes "clients r cid = Some c" "Do env r authorizer cid req = (Inr resp, sent)"
  shows "int (length (respBody resp)) \<le> responseLimit (clCfg c) req \<and>
    (cMaxResponseBytes (clCfg c) > 0 \<longrightarrow> int (length (respBody resp)) \<le> cMaxResponseBytes (clCfg c)) \<and>
    (rMaxResponseBytes req > 0 \<longrightarrow> int (length (respBody resp)) \<le> rMaxResponseBytes req) \<and>
    server env (last sent) = Final resp"
proof -
  obtain h resp0 where h: "clientDo c authorizer (server env) [] h = (Inr resp0, sent)"
    and body: "readLimited (respBody resp0) (responseLimit (clCfg c) req) = Inr (respBody resp)"
    and resp: "resp = resp0\<lparr>respBody := respBody resp\<rparr>"
    using assms by (auto simp: Do_def split: if_splits sum.splits prod.splits)
  note lim = responseLimit_bounds[of "clCfg c" req]
  have "respBody resp = respBody resp0" "int (length (respBody resp)) \<le> responseLimit (clCfg c) req"
    using body lim by (auto simp: readLimited_eq split: if_splits)
  moreover have "server env (last sent) = Final resp0"
    using clientDo_answer[of c authorizer "server env" "[]" h resp0] h by simp
  ultimately show ?thesis using resp lim by auto
qed

theorem Do_response_limit_witness:
  "int (length (respBody exampleResponse)) \<le> responseLimit (clCfg exampleClient) exampleRequest \<and>
   int (length (respBody exampleResponse)) \<le> rMaxResponseBytes exampleRequest"
proof -
  obtain sent where sent: "Do exampleEnv exampleRegistry (Some (\<lambda>d. rdPath d = ''/b'')) ''c'' exampleRequest =
    (Inr exampleResponse, sent)" using exampleDo by blast
  have "clients exampleRegistry ''c'' = Some exampleClient" by (simp add: exampleRegistry_def)
  from Do_response_limit[OF this sent] show ?thesis by (simp add: exampleRequest_def)
qed

end
