(* ===== verification/Encodings.thy ===== *)
theory Encodings
  imports Connections
begin

text \<open>
  Text encodings of the standard library that several components use: unpadded base64 in the standard
  and the URL alphabet with its strict decoder (\<open>encoding/base64\<close>), decimal numbers
  (\<open>strconv.ParseUint\<close>) and \<open>strings.Cut\<close>.
\<close>

section \<open>Unpadded base64\<close>

definition urlChar :: "nat \<Rightarrow> char" where
  "urlChar n = (if n = 62 then CHR ''-'' else if n = 63 then CHR ''_'' else base64Char n)"

definition alphabetIndex :: "char \<Rightarrow> char \<Rightarrow> char \<Rightarrow> nat option" where
  "alphabetIndex c62 c63 c =
     (let n = of_char c in
      if 65 \<le> n \<and> n \<le> 90 then Some (n - 65)
      else if 97 \<le> n \<and> n \<le> 122 then Some (n - 71)
      else if 48 \<le> n \<and> n \<le> 57 then Some (n + 4)
      else if c = c62 then Some 62 else if c = c63 then Some 63 else None)"

definition stdIndex :: "char \<Rightarrow> nat option" where
  "stdIndex = alphabetIndex CHR ''+'' CHR ''/''"

definition urlIndex :: "char \<Rightarrow> nat option" where
  "urlIndex = alphabetIndex CHR ''-'' CHR ''_''"

fun rawEncode :: "(nat \<Rightarrow> char) \<Rightarrow> string \<Rightarrow> string" where
  "rawEncode enc [] = []"
| "rawEncode enc [a] = (let n = of_char a * 16 in [enc (n div 64), enc (n mod 64)])"
| "rawEncode enc [a, b] =
     (let n = (of_char a * 256 + of_char b) * 4 in [enc (n div 4096), enc (n div 64 mod 64), enc (n mod 64)])"
| "rawEncode enc (a # b # c # rest) =
     (let n = of_char a * 65536 + of_char b * 256 + of_char c in
        [enc (n div 262144), enc (n div 4096 mod 64), enc (n div 64 mod 64), enc (n mod 64)] @ rawEncode enc rest)"

text \<open>The decoder on the six-bit values; the strict one refuses set trailing bits.\<close>

fun decodeSixes :: "bool \<Rightarrow> nat list \<Rightarrow> string option" where
  "decodeSixes strict [] = Some []"
| "decodeSixes strict [x] = None"
| "decodeSixes strict [x, y] =
     (let n = x * 64 + y in if strict \<and> n mod 16 \<noteq> 0 then None else Some [char_of (n div 16)])"
| "decodeSixes strict [x, y, z] =
     (let n = (x * 64 + y) * 64 + z in
      if strict \<and> n mod 4 \<noteq> 0 then None else Some [char_of (n div 1024), char_of (n div 4 mod 256)])"
| "decodeSixes strict (x # y # z # w # rest) =
     (let n = ((x * 64 + y) * 64 + z) * 64 + w in
      map_option (\<lambda>s. [char_of (n div 65536), char_of (n div 256 mod 256), char_of (n mod 256)] @ s)
        (decodeSixes strict rest))"

fun traverseOption :: "('a \<Rightarrow> 'b option) \<Rightarrow> 'a list \<Rightarrow> 'b list option" where
  "traverseOption f [] = Some []"
| "traverseOption f (x # xs) =
     (case f x of None \<Rightarrow> None | Some y \<Rightarrow> map_option ((#) y) (traverseOption f xs))"

text \<open>\<open>DecodeString\<close>: line ends are skipped, every other byte is in the alphabet.\<close>

definition rawDecode :: "(char \<Rightarrow> nat option) \<Rightarrow> bool \<Rightarrow> string \<Rightarrow> string option" where
  "rawDecode dec strict s =
     (case traverseOption dec (filter (\<lambda>c. c \<noteq> CHR 0x0A \<and> c \<noteq> CHR 0x0D) s) of
        None \<Rightarrow> None
      | Some ns \<Rightarrow> decodeSixes strict ns)"

definition RawStdEncode :: "string \<Rightarrow> string" where
  "RawStdEncode = rawEncode base64Char"

definition RawStdStrictDecode :: "string \<Rightarrow> string option" where
  "RawStdStrictDecode = rawDecode stdIndex True"

definition RawURLEncode :: "string \<Rightarrow> string" where
  "RawURLEncode = rawEncode urlChar"

definition RawURLDecode :: "string \<Rightarrow> string option" where
  "RawURLDecode = rawDecode urlIndex False"

section \<open>Numbers\<close>

definition decimalDigit :: "char \<Rightarrow> nat option" where
  "decimalDigit c = (let n = of_char c in if 48 \<le> n \<and> n \<le> 57 then Some (n - 48) else None)"

text \<open>\<open>strconv.ParseUint(s, 10, bits)\<close>.\<close>

definition ParseUint :: "nat \<Rightarrow> string \<Rightarrow> nat option" where
  "ParseUint bits s =
     (if s = [] then None
      else case traverseOption decimalDigit s of
             None \<Rightarrow> None
           | Some ds \<Rightarrow>
               let n = foldl (\<lambda>n d. n * 10 + d) 0 ds in if n < 2 ^ bits then Some n else None)"

text \<open>\<open>strings.Cut(s, sep)\<close> for a separator of one byte; \<open>None\<close> when it does not occur.\<close>

definition Cut :: "char \<Rightarrow> string \<Rightarrow> (string \<times> string) option" where
  "Cut sep s =
     (if sep \<in> set s then Some (takeWhile (\<lambda>c. c \<noteq> sep) s, tl (dropWhile (\<lambda>c. c \<noteq> sep) s)) else None)"

section \<open>Round trips\<close>

lemma traverseOption_map:
  "(\<And>x. x \<in> set xs \<Longrightarrow> f (g x) = Some x) \<Longrightarrow> traverseOption f (map g xs) = Some xs"
  by (induction xs) auto

lemma sixbit_cases:
  assumes "n < (64 :: nat)"
  shows "n < 26 \<or> (26 \<le> n \<and> n < 52) \<or> (52 \<le> n \<and> n < 62) \<or> n = 62 \<or> n = 63"
  using assms by linarith

lemma stdIndex_base64Char: "n < 64 \<Longrightarrow> stdIndex (base64Char n) = Some n"
  by (drule sixbit_cases) (auto simp: stdIndex_def base64Char_def alphabetIndex_def Let_def)

lemma urlIndex_urlChar: "n < 64 \<Longrightarrow> urlIndex (urlChar n) = Some n"
  by (drule sixbit_cases) (auto simp: urlIndex_def urlChar_def base64Char_def alphabetIndex_def Let_def)

lemma line_end_no_index: "stdIndex CHR 0x0A = None" "stdIndex CHR 0x0D = None" "urlIndex CHR 0x0A = None" "urlIndex CHR 0x0D = None"
  by (simp_all add: stdIndex_def urlIndex_def alphabetIndex_def)

lemma encoded_not_line_end:
  "n < 64 \<Longrightarrow> base64Char n \<notin> {CHR 0x0A, CHR 0x0D}" "n < 64 \<Longrightarrow> urlChar n \<notin> {CHR 0x0A, CHR 0x0D}"
  using stdIndex_base64Char[of n] urlIndex_urlChar[of n] line_end_no_index by force+

fun encodeSixes :: "string \<Rightarrow> nat list" where
  "encodeSixes [] = []"
| "encodeSixes [a] = (let n = of_char a * 16 in [n div 64, n mod 64])"
| "encodeSixes [a, b] = (let n = (of_char a * 256 + of_char b) * 4 in [n div 4096, n div 64 mod 64, n mod 64])"
| "encodeSixes (a # b # c # rest) =
     (let n = of_char a * 65536 + of_char b * 256 + of_char c in
        [n div 262144, n div 4096 mod 64, n div 64 mod 64, n mod 64] @ encodeSixes rest)"

lemma rawEncode_map: "rawEncode enc s = map enc (encodeSixes s)"
  by (induction s rule: encodeSixes.induct) (simp_all add: Let_def)

lemma of_char_bound: "of_char c < (256 :: nat)"
  using of_char_mod_256[of c] by (metis mod_less_divisor zero_less_numeral)

lemma top_six_bits:
  fixes a b c :: nat
  assumes "a < 256" "b < 256" "c < 256"
  shows "a * 16 div 64 < 64" "(a * 256 + b) * 4 div 4096 < 64" "(a * 65536 + b * 256 + c) div 262144 < 64"
proof -
  have "a \<le> 255" "b \<le> 255" "c \<le> 255" using assms by simp_all
  then have "a * 16 < 64 * 64" "(a * 256 + b) * 4 < 64 * 4096" "a * 65536 + b * 256 + c < 64 * 262144" by simp_all
  then show "a * 16 div 64 < 64" "(a * 256 + b) * 4 div 4096 < 64" "(a * 65536 + b * 256 + c) div 262144 < 64"
    by (simp_all only: less_mult_imp_div_less)
qed

lemma encodeSixes_bound: "x \<in> set (encodeSixes s) \<Longrightarrow> x < 64"
proof (induction s rule: encodeSixes.induct)
  case (2 a)
  note top_six_bits(1)[OF of_char_bound[of a] of_char_bound of_char_bound]
  with 2 show ?case unfolding encodeSixes.simps Let_def by auto
next
  case (3 a b)
  note top_six_bits(2)[OF of_char_bound[of a] of_char_bound[of b] of_char_bound]
  with 3 show ?case unfolding encodeSixes.simps Let_def by auto
next
  case (4 a b c rest)
  note top_six_bits(3)[OF of_char_bound[of a] of_char_bound[of b] of_char_bound[of c]]
  with 4 show ?case unfolding encodeSixes.simps Let_def by auto
qed simp

lemma two_bytes:
  fixes a b :: nat
  assumes "a < 256" "b < 256"
  defines "n \<equiv> (a * 256 + b) * 4"
  shows "n div 4096 * 64 + n div 64 mod 64 = n div 64" "n div 64 * 64 + n mod 64 = n"
    and "n mod 4 = 0" and "n div 1024 = a" and "n div 4 mod 256 = b"
proof -
  show "n div 4096 * 64 + n div 64 mod 64 = n div 64"
    using div_mult_mod_eq[of "n div 64" 64] by (simp add: div_mult2_eq[symmetric])
  show "n div 1024 = a" using assms(1,2) div_mult2_eq[of n 4 256] by (simp add: n_def)
qed (use assms in \<open>simp_all add: n_def\<close>)

lemma three_bytes:
  fixes a b c :: nat
  assumes "a < 256" "b < 256" "c < 256"
  defines "n \<equiv> a * 65536 + b * 256 + c"
  shows "n div 262144 * 64 + n div 4096 mod 64 = n div 4096" "n div 4096 * 64 + n div 64 mod 64 = n div 64"
    and "n div 64 * 64 + n mod 64 = n"
    and "n div 65536 = a" and "n div 256 mod 256 = b" and "n mod 256 = c"
proof -
  show "n div 262144 * 64 + n div 4096 mod 64 = n div 4096"
    using div_mult_mod_eq[of "n div 4096" 64] by (simp add: div_mult2_eq[symmetric])
  show "n div 4096 * 64 + n div 64 mod 64 = n div 64"
    using div_mult_mod_eq[of "n div 64" 64] by (simp add: div_mult2_eq[symmetric])
  have n: "n = (a * 256 + b) * 256 + c" by (simp add: n_def)
  have byte: "n div 256 = a * 256 + b" using assms(3) unfolding n by simp
  then show "n div 65536 = a" using assms(2) div_mult2_eq[of n 256 256] by simp
  show "n div 256 mod 256 = b" using byte assms(2) by simp
  show "n mod 256 = c" unfolding n using assms(3) by (simp only: mod_mult_self3 mod_less)
qed simp

lemma decodeSixes_encodeSixes: "decodeSixes strict (encodeSixes s) = Some s"
proof (induction s rule: encodeSixes.induct)
  case (2 a)
  have "of_char a * 16 div 64 * 64 + of_char a * 16 mod 64 = (of_char a * 16 :: nat)" by (rule div_mult_mod_eq)
  then show ?case unfolding encodeSixes.simps decodeSixes.simps Let_def by simp
next
  case (3 a b)
  show ?case unfolding encodeSixes.simps decodeSixes.simps Let_def
    two_bytes[OF of_char_bound[of a] of_char_bound[of b]] by simp
next
  case (4 a b c rest)
  show ?case unfolding encodeSixes.simps Let_def append.simps decodeSixes.simps 4[OF refl]
    three_bytes[OF of_char_bound[of a] of_char_bound[of b] of_char_bound[of c]] by simp
qed simp

lemma rawDecode_rawEncode:
  assumes "\<And>n. n < 64 \<Longrightarrow> dec (enc n) = Some n" and "\<And>n. n < 64 \<Longrightarrow> enc n \<notin> {CHR 0x0A, CHR 0x0D}"
  shows "rawDecode dec strict (rawEncode enc s) = Some s"
proof -
  have "filter (\<lambda>c. c \<noteq> CHR 0x0A \<and> c \<noteq> CHR 0x0D) (rawEncode enc s) = rawEncode enc s"
    using assms(2) encodeSixes_bound unfolding rawEncode_map by (auto simp: filter_id_conv)
  moreover have "traverseOption dec (rawEncode enc s) = Some (encodeSixes s)"
    unfolding rawEncode_map by (rule traverseOption_map) (use assms(1) encodeSixes_bound in blast)
  ultimately show ?thesis by (simp add: rawDecode_def decodeSixes_encodeSixes)
qed

lemma RawStd_roundtrip: "RawStdStrictDecode (RawStdEncode s) = Some s"
  unfolding RawStdStrictDecode_def RawStdEncode_def
  by (rule rawDecode_rawEncode) (use stdIndex_base64Char encoded_not_line_end in auto)

lemma RawURL_roundtrip: "RawURLDecode (RawURLEncode s) = Some s"
  unfolding RawURLDecode_def RawURLEncode_def
  by (rule rawDecode_rawEncode) (use urlIndex_urlChar encoded_not_line_end in auto)

lemma decimalDigit_char: "d < 10 \<Longrightarrow> decimalDigit (char_of (48 + d :: nat)) = Some d"
  by (simp add: decimalDigit_def)

lemma traverseOption_append:
  "traverseOption f (xs @ ys) =
     (case (traverseOption f xs, traverseOption f ys) of (Some a, Some b) \<Rightarrow> Some (a @ b) | _ \<Rightarrow> None)"
  by (induction xs) (auto split: option.splits)

lemma FormatUint_digits:
  "\<exists>ds. traverseOption decimalDigit (FormatUint n) = Some ds \<and> foldl (\<lambda>n d. n * 10 + d) 0 ds = n \<and> FormatUint n \<noteq> []"
proof (induction n rule: FormatUint.induct)
  case (1 n)
  show ?case
  proof (cases "n < 10")
    case True
    then show ?thesis using decimalDigit_char[of n] by (simp add: FormatUint.simps[of n])
  next
    case False
    then obtain ds where "traverseOption decimalDigit (FormatUint (n div 10)) = Some ds"
      "foldl (\<lambda>n d. n * 10 + d) 0 ds = n div 10" using 1 by auto
    then show ?thesis using False decimalDigit_char[of "n mod 10"]
      by (simp add: FormatUint.simps[of n] traverseOption_append)
  qed
qed

lemma ParseUint_FormatUint: "n < 2 ^ bits \<Longrightarrow> ParseUint bits (FormatUint n) = Some n"
  using FormatUint_digits[of n] by (auto simp: ParseUint_def)

lemma FormatUint_digit_bytes: "c \<in> set (FormatUint n) \<Longrightarrow> decimalDigit c \<noteq> None"
proof -
  have "traverseOption f xs \<noteq> None \<Longrightarrow> c \<in> set xs \<Longrightarrow> f c \<noteq> None" for f :: "char \<Rightarrow> nat option" and xs
    by (induction xs) (auto split: option.splits)
  then show "c \<in> set (FormatUint n) \<Longrightarrow> decimalDigit c \<noteq> None" using FormatUint_digits[of n] by fastforce
qed

lemma Cut_append: "sep \<notin> set a \<Longrightarrow> Cut sep (a @ sep # b) = Some (a, b)"
  by (simp add: Cut_def takeWhile_append dropWhile_append)

end
