(* ===== verification/QueryStrings.thy ===== *)
theory QueryStrings
  imports Encodings "HOL-Library.List_Lexorder"
begin

text \<open>
  Query strings as \<open>net/url\<close> writes and reads them: \<open>QueryEscape\<close>, \<open>QueryUnescape\<close>, \<open>ParseQuery\<close>,
  \<open>Values.Encode\<close> and \<open>Values.Get\<close>.  \<open>ParseQuery\<close> gives \<open>None\<close> when the source reports an error.
\<close>

definition queryHex :: "nat \<Rightarrow> char" where
  "queryHex n = (if n < 10 then char_of (48 + n) else char_of (55 + n))"

definition escapeQueryByte :: "char \<Rightarrow> string" where
  "escapeQueryByte c =
     (if isUnreserved c then [c] else if c = CHR '' '' then ''+''
      else [CHR ''%'', queryHex (of_char c div 16), queryHex (of_char c mod 16)])"

definition QueryEscape :: "string \<Rightarrow> string" where
  "QueryEscape s = concat (map escapeQueryByte s)"

fun QueryUnescape :: "string \<Rightarrow> string option" where
  "QueryUnescape [] = Some []"
| "QueryUnescape (c # rest) =
     (if c = CHR ''%'' then
        (case rest of
           hi # lo # rest' \<Rightarrow>
             if isHex hi \<and> isHex lo then map_option (Cons (hexByte hi lo)) (QueryUnescape rest') else None
         | _ \<Rightarrow> None)
      else map_option (Cons (if c = CHR ''+'' then CHR '' '' else c)) (QueryUnescape rest))"

definition parsePair :: "string \<Rightarrow> (string \<times> string) option" where
  "parsePair seg =
     (if CHR '';'' \<in> set seg then None
      else let (k, v) = (case Cut CHR ''='' seg of None \<Rightarrow> (seg, []) | Some kv \<Rightarrow> kv)
           in (case (QueryUnescape k, QueryUnescape v) of (Some k, Some v) \<Rightarrow> Some (k, v) | _ \<Rightarrow> None))"

definition addValue :: "queryValues \<Rightarrow> string \<times> string \<Rightarrow> queryValues" where
  "addValue m p = AList.update (fst p) ((case map_of m (fst p) of None \<Rightarrow> [] | Some vs \<Rightarrow> vs) @ [snd p]) m"

definition ParseQuery :: "string \<Rightarrow> queryValues option" where
  "ParseQuery s = map_option (foldl addValue []) (traverseOption parsePair (filter (\<lambda>seg. seg \<noteq> []) (Split CHR ''&'' s)))"

definition encodePair :: "string \<times> string \<Rightarrow> string" where
  "encodePair p = QueryEscape (fst p) @ ''='' @ QueryEscape (snd p)"

definition valuesGet :: "queryValues \<Rightarrow> string \<Rightarrow> string list" where
  "valuesGet q k = (case map_of q k of None \<Rightarrow> [] | Some vs \<Rightarrow> vs)"

definition EncodeValues :: "queryValues \<Rightarrow> string" where
  "EncodeValues q = Join ''&'' (concat (map (\<lambda>k. map (\<lambda>v. encodePair (k, v)) (valuesGet q k)) (sort (map fst q))))"

definition GetValue :: "queryValues \<Rightarrow> string \<Rightarrow> string" where
  "GetValue q k = (case valuesGet q k of [] \<Rightarrow> [] | v # _ \<Rightarrow> v)"

section \<open>Round trips\<close>

lemma queryHex_digit: "n < 16 \<Longrightarrow> hexVal (queryHex n) = of_nat n" "n < 16 \<Longrightarrow> isHex (queryHex n)"
  by (auto simp: hexVal_def isHex_def queryHex_def less_eq_char_def of_char_word)

lemma hexByte_queryHex: "hexByte (queryHex (of_char b div 16)) (queryHex (of_char b mod 16)) = b"
  using or_push_bit_nibble[of "of_char b div 16" "of_char b mod 16"] nat_of_char_less_256[of b]
  by (simp add: hexByte_def queryHex_digit less_mult_imp_div_less)

lemma unreserved_literal: "isUnreserved c \<Longrightarrow> c \<noteq> CHR ''%'' \<and> c \<noteq> CHR ''+'' \<and> c \<notin> {CHR ''&'', CHR ''='', CHR '';''}"
  by (auto simp: isUnreserved_def less_eq_char_def)

lemma QueryUnescape_byte: "QueryUnescape (escapeQueryByte c @ s) = map_option (Cons c) (QueryUnescape s)"
proof (cases "isUnreserved c \<or> c = CHR '' ''")
  case True
  then show ?thesis using unreserved_literal[of c] by (auto simp: escapeQueryByte_def)
next
  case False
  have "isHex (queryHex (of_char c div 16))" "isHex (queryHex (of_char c mod 16))"
    using nat_of_char_less_256[of c] by (simp_all add: queryHex_digit less_mult_imp_div_less)
  then show ?thesis using False by (simp add: escapeQueryByte_def hexByte_queryHex)
qed

lemma QueryUnescape_QueryEscape: "QueryUnescape (QueryEscape s) = Some s"
  by (induction s) (simp_all add: QueryEscape_def QueryUnescape_byte)

lemma isHex_no_separator: "isHex c \<Longrightarrow> c \<notin> {CHR ''&'', CHR ''='', CHR '';''}"
  by (auto simp: isHex_def less_eq_char_def)

lemma escapeQueryByte_no_separator:
  assumes "x \<in> set (escapeQueryByte c)"
  shows "x \<notin> {CHR ''&'', CHR ''='', CHR '';''}"
proof -
  have "isHex (queryHex (of_char c div 16))" "isHex (queryHex (of_char c mod 16))"
    using nat_of_char_less_256[of c] by (simp_all add: queryHex_digit less_mult_imp_div_less)
  then show ?thesis
    using assms unreserved_literal[of c] isHex_no_separator
    by (fastforce simp: escapeQueryByte_def split: if_splits)
qed

lemma QueryEscape_no_separator: "x \<in> set (QueryEscape s) \<Longrightarrow> x \<notin> {CHR ''&'', CHR ''='', CHR '';''}"
  using escapeQueryByte_no_separator by (fastforce simp: QueryEscape_def)

lemma parsePair_encodePair: "parsePair (encodePair p) = Some p"
proof -
  have "CHR '';'' \<notin> set (encodePair p)" "CHR ''='' \<notin> set (QueryEscape (fst p))"
    using QueryEscape_no_separator by (auto simp: encodePair_def)
  then show ?thesis
    by (simp add: parsePair_def encodePair_def Cut_append QueryUnescape_QueryEscape)
qed

lemma encodePair_segment: "encodePair p \<noteq> []" "CHR ''&'' \<notin> set (encodePair p)"
  using QueryEscape_no_separator by (auto simp: encodePair_def)

lemma ParseQuery_encoded: "ParseQuery (Join ''&'' (map encodePair ps)) = Some (foldl addValue [] ps)"
proof (cases "ps = []")
  case True
  then show ?thesis by (simp add: ParseQuery_def)
next
  case False
  have "Split CHR ''&'' (Join ''&'' (map encodePair ps)) = map encodePair ps"
    using False by (intro Split_Join) (auto simp: encodePair_segment list_all_iff)
  moreover have "filter (\<lambda>seg. seg \<noteq> []) (map encodePair ps) = map encodePair ps"
    by (auto simp: encodePair_segment filter_id_conv)
  moreover have "traverseOption parsePair (map encodePair ps) = Some ps"
    by (induction ps) (simp_all add: parsePair_encodePair)
  ultimately show ?thesis by (simp add: ParseQuery_def)
qed

lemma addValue_fresh:
  "fst p \<notin> fst ` set m \<Longrightarrow> addValue m p = m @ [(fst p, [snd p])]"
proof -
  assume f: "fst p \<notin> fst ` set m"
  then have "map_of m (fst p) = None" by (simp add: map_of_eq_None_iff)
  moreover have "AList.update k v m = m @ [(k, v)]" if "k \<notin> fst ` set m" for k and v :: "string list"
    using that by (induction m) auto
  ultimately show ?thesis using f by (simp add: addValue_def)
qed

lemma addValue_distinct:
  "distinct (map fst m @ map fst ps) \<Longrightarrow> foldl addValue m ps = m @ map (\<lambda>p. (fst p, [snd p])) ps"
proof (induction ps arbitrary: m)
  case (Cons p ps)
  then have "addValue m p = m @ [(fst p, [snd p])]" by (intro addValue_fresh) auto
  moreover have "distinct (map fst (m @ [(fst p, [snd p])]) @ map fst ps)" using Cons.prems by auto
  ultimately show ?case using Cons.IH by simp
qed simp

lemma EncodeValues_single:
  assumes "distinct (map fst ps)" "sorted (map fst ps)"
  shows "EncodeValues (map (\<lambda>p. (fst p, [snd p])) ps) = Join ''&'' (map encodePair ps)"
proof -
  have "valuesGet (map (\<lambda>p. (fst p, [snd p])) ps) (fst p) = [snd p]" if "p \<in> set ps" for p
    using that assms(1) by (induction ps) (force simp: valuesGet_def)+
  then have "map (\<lambda>k. map (\<lambda>v. encodePair (k, v)) (valuesGet (map (\<lambda>p. (fst p, [snd p])) ps) k)) (map fst ps)
      = map (\<lambda>p. [encodePair p]) ps" by simp
  moreover have "sort (map fst ps) = map fst ps" using assms(2) by (rule sorted_sort_id)
  moreover have "concat (map (\<lambda>p. [encodePair p]) ps) = map encodePair ps" by (induction ps) simp_all
  moreover have "map fst (map (\<lambda>p. (fst p, [snd p])) ps) = map fst ps" by simp
  ultimately show ?thesis unfolding EncodeValues_def by (simp only:)
qed

text \<open>A query written with sorted keys and one value each is read back and written again as it was.\<close>

lemma EncodeValues_ParseQuery:
  assumes "distinct (map fst ps)" "sorted (map fst ps)"
  shows "ParseQuery (Join ''&'' (map encodePair ps)) = Some (map (\<lambda>p. (fst p, [snd p])) ps)"
    and "EncodeValues (map (\<lambda>p. (fst p, [snd p])) ps) = Join ''&'' (map encodePair ps)"
  using assms addValue_distinct[of "[]" ps] by (simp_all add: ParseQuery_encoded EncodeValues_single)

end
