(* ===== verification/AssetTokens.thy ===== *)
theory AssetTokens
  imports QueryStrings
begin

text \<open>
  Package \<open>internal/capabilities/assets\<close> (\<open>service.go\<close>): signed references to images, with their token syntax.
  Arguments of the model: the JSON encoding of a payload, HMAC-SHA256, SHA-256, content sniffing and image
  headers (\<open>assetLib\<close>).
\<close>

section \<open>Signed references\<close>

record Payload =
  paV :: int
  paConnection :: string
  paRevision :: string
  paPath :: string
  paQuery :: string
  paTransform :: string
  paPlugin :: string
  paExpires :: int

record assetLib =
  alMarshal :: "Payload \<Rightarrow> string"
  alUnmarshal :: "string \<Rightarrow> Payload option"
  alMAC :: "string \<Rightarrow> string \<Rightarrow> string"
  alSHA256 :: "string \<Rightarrow> string"
  alDetect :: "string \<Rightarrow> string"
  alImageConfig :: "string \<Rightarrow> (int \<times> int) option"

definition newAssets :: "string \<Rightarrow> string option" where
  "newAssets key = (if length key < 32 then None else Some key)"

definition signature :: "assetLib \<Rightarrow> string \<Rightarrow> string \<Rightarrow> string" where
  "signature lib key encoded = RawURLEncode (alMAC lib key encoded)"

definition Mint :: "assetLib \<Rightarrow> string \<Rightarrow> Payload \<Rightarrow> string" where
  "Mint lib key p = (let encoded = RawURLEncode (alMarshal lib p) in ''v1.'' @ encoded @ ''.'' @ signature lib key encoded)"

definition usablePayload :: "int \<Rightarrow> Payload \<Rightarrow> bool" where
  "usablePayload now p \<longleftrightarrow> paV p = 1 \<and> paConnection p \<noteq> [] \<and> paRevision p \<noteq> [] \<and> paPath p \<noteq> [] \<and>
     paPlugin p \<noteq> [] \<and> now < paExpires p"

definition Verify :: "assetLib \<Rightarrow> string \<Rightarrow> int \<Rightarrow> string \<Rightarrow> Payload option" where
  "Verify lib key now token =
     (case Split CHR ''.'' token of
        [v, encoded, sig] \<Rightarrow>
          if v \<noteq> ''v1'' then None
          else (case (RawURLDecode sig, RawURLDecode (signature lib key encoded)) of
                  (Some want, Some got) \<Rightarrow>
                    if got \<noteq> want then None
                    else (case RawURLDecode encoded of
                            None \<Rightarrow> None
                          | Some body \<Rightarrow>
                              (case alUnmarshal lib body of
                                 None \<Rightarrow> None
                               | Some p \<Rightarrow> if usablePayload now p then Some p else None))
                | _ \<Rightarrow> None)
      | _ \<Rightarrow> None)"

definition CacheKey :: "assetLib \<Rightarrow> Payload \<Rightarrow> string" where
  "CacheKey lib p = RawURLEncode (alSHA256 lib (alMarshal lib (p\<lparr>paExpires := 0\<rparr>)))"

section \<open>Tokens\<close>

lemma RawURLEncode_no_dot: "CHR ''.'' \<notin> set (RawURLEncode s)"
proof -
  have "urlIndex CHR ''.'' = None" by (simp add: urlIndex_def alphabetIndex_def less_eq_char_def)
  then show ?thesis using encodeSixes_bound urlIndex_urlChar by (fastforce simp: RawURLEncode_def rawEncode_map)
qed

lemma Verify_Mint:
  assumes "alUnmarshal lib (alMarshal lib p) = Some p" "usablePayload now p"
  shows "Verify lib key now (Mint lib key p) = Some p"
proof -
  define encoded where "encoded = RawURLEncode (alMarshal lib p)"
  have "Split CHR ''.'' (Join ''.'' [''v1'', encoded, signature lib key encoded]) = [''v1'', encoded, signature lib key encoded]"
    by (intro Split_Join) (auto simp: encoded_def signature_def RawURLEncode_no_dot)
  then have "Split CHR ''.'' (Mint lib key p) = [''v1'', encoded, signature lib key encoded]"
    by (simp add: Mint_def encoded_def Let_def)
  then show ?thesis using assms by (simp add: Verify_def signature_def RawURL_roundtrip encoded_def)
qed

lemma Verify_Some:
  assumes "Verify lib key now token = Some p"
  obtains encoded sig body where "token = ''v1.'' @ encoded @ ''.'' @ sig" "RawURLDecode sig = Some (alMAC lib key encoded)"
    "RawURLDecode encoded = Some body" "alUnmarshal lib body = Some p" "usablePayload now p"
proof -
  obtain encoded sig where parts: "Split CHR ''.'' token = [''v1'', encoded, sig]"
    using assms by (auto simp: Verify_def split: list.splits if_splits)
  have "Join ''.'' (Split CHR ''.'' token) = token" by (rule Join_Split)
  then have "token = ''v1.'' @ encoded @ ''.'' @ sig" using parts by simp
  then show ?thesis using assms parts that
    by (auto simp: Verify_def signature_def RawURL_roundtrip split: option.splits if_splits)
qed

end
