(* ===== verification/Capabilities.thy ===== *)
theory Capabilities
  imports Connections AssetTokens
begin

text \<open>
  Package \<open>internal/capabilities\<close>: the authority of one invocation (\<open>Grant\<close>), the single place
  where a request is compared with policy (\<open>Authorize\<close>), the budgets, the header and query filters,
  the cache, the denial audit, and the broker methods that combine them.

  The counters behind \<open>Grant.budget\<close>, the cache, the audit, the log and the event sink are the
  fields of \<open>brokerState\<close>; every broker method is a function from a state to a result and a new
  state.  \<open>bSent\<close> records what reached the network.  Package \<open>mime\<close> is a parameter (\<open>mimeLib\<close>).
\<close>

section \<open>Types\<close>

datatype UseKind = UseData | UseAsset | UseOther string

text \<open>\<open>roQueryKeys = None\<close> is Go's \<open>nil\<close>: unconstrained.\<close>

record Route =
  roSlot :: string
  roMethod :: string
  roPath :: string
  roUse :: UseKind
  roQueryKeys :: "string list option"
  roContentType :: string
  roMaxBodyKB :: int

type_synonym CapSet = "(string \<times> bool) list"

definition Has :: "CapSet \<Rightarrow> string \<Rightarrow> bool" where
  "Has c capability = (map_of c capability = Some True)"

definition NewCapSet :: "string list \<Rightarrow> CapSet" where
  "NewCapSet caps = foldl (\<lambda>s c. AList.update c True s) [] caps"

record ConnectionPolicy =
  cpAllowedPaths :: "string list"

record Limits =
  HTTPRequests :: int
  ResponseMB :: int
  CacheEntries :: int
  CacheBytesKB :: int
  HostCalls :: int
  RequestBodyKB :: int

record ExecutionIdentity =
  SnapshotGen :: "64 word"
  CardHash :: string
  ManifestDigest :: string
  ApprovalRevision :: string
  SlotRevisions :: "string \<rightharpoonup> string"

record Event =
  evType :: string
  evData :: "(string \<times> string) list"

record HTTPRequest =
  qSlot :: string
  qMethod :: string
  qPath :: string
  qQuery :: "(string \<times> string) list"
  qHeader :: "(string \<times> string) list"
  qBody :: "string option"
  qBodyLen :: int

definition bodyLen :: "HTTPRequest \<Rightarrow> int" where
  "bodyLen r =
     (if qBodyLen r \<noteq> 0 then qBodyLen r
      else (case qBody r of None \<Rightarrow> 0 | Some b \<Rightarrow> int (length b)))"

record Grant =
  PluginID :: string
  Version :: string
  InstanceID :: string
  Slots :: "string \<rightharpoonup> string"
  Caps :: CapSet
  ManifestRoutes :: "Route list"
  ApprovedRoutes :: "Route list"
  gConnectionPolicy :: "string \<rightharpoonup> ConnectionPolicy"
  gLimits :: Limits
  Ident :: ExecutionIdentity

record budgetState =
  hostCallsUsed :: int
  httpRequestsUsed :: int
  cacheEntriesUsed :: int
  cacheBytesKBUsed :: int

definition freshBudget :: budgetState where
  "freshBudget = \<lparr>hostCallsUsed = 0, httpRequestsUsed = 0, cacheEntriesUsed = 0, cacheBytesKBUsed = 0\<rparr>"

datatype capError =
    ErrCapDenied
  | ErrSlotDenied
  | RouteCanon routepath_error
  | RouteManifest string string
  | RouteApproved string string
  | RouteConnection string
  | ErrBudgetExceeded
  | ErrNotHTTPConnection string
  | ErrUpstream doError
  | ErrUpstreamTooLarge
  | ErrEventType
  | ErrEventSink
  | ErrTransform

text \<open>The errors that wrap \<open>ErrRouteDenied\<close>.\<close>

definition isRouteDenied :: "capError \<Rightarrow> bool" where
  "isRouteDenied e =
     (case e of RouteCanon _ \<Rightarrow> True | RouteManifest _ _ \<Rightarrow> True | RouteApproved _ _ \<Rightarrow> True
      | RouteConnection _ \<Rightarrow> True | _ \<Rightarrow> False)"

section \<open>Authorize\<close>

record mimeLib =
  ParseMediaType :: "string \<Rightarrow> (string \<times> (string \<times> string) list) option"
  FormatMediaType :: "string \<Rightarrow> (string \<times> string) list \<Rightarrow> string"

definition normaliseMediaType :: "mimeLib \<Rightarrow> string \<Rightarrow> string option" where
  "normaliseMediaType mime v =
     (case ParseMediaType mime v of
        None \<Rightarrow> None
      | Some (mt, params) \<Rightarrow>
          let params' = (case map_of params ''charset'' of
                           None \<Rightarrow> params
                         | Some cs \<Rightarrow> AList.update ''charset'' (map lower_byte cs) params);
              out = FormatMediaType mime (map lower_byte mt) params'
          in if out = [] then None else Some out)"

definition contentTypeAllowed :: "mimeLib \<Rightarrow> string \<Rightarrow> (string \<times> string) list \<Rightarrow> bool" where
  "contentTypeAllowed mime declared header =
     (if declared = [] then True
      else (case normaliseMediaType mime
                   (case map_of header ''Content-Type'' of None \<Rightarrow> [] | Some v \<Rightarrow> v) of
              None \<Rightarrow> False
            | Some normalisedGot \<Rightarrow>
                (case normaliseMediaType mime declared of
                   None \<Rightarrow> False
                 | Some normalisedDeclared \<Rightarrow> normalisedGot = normalisedDeclared)))"

definition queryKeysAllowed :: "string list option \<Rightarrow> (string \<times> string) list \<Rightarrow> bool" where
  "queryKeysAllowed allowed query =
     (case allowed of
        None \<Rightarrow> True
      | Some keys \<Rightarrow> list_all (\<lambda>(k, _). k \<in> set keys) query)"

definition coreDefaultBodyKB :: int where
  "coreDefaultBodyKB = 64"

definition bodySizeAllowed :: "int \<Rightarrow> int \<Rightarrow> int \<Rightarrow> bool" where
  "bodySizeAllowed routeMaxKB manifestRequestBodyKB len =
     (if len < 0 then False
      else let effectiveKB = (if manifestRequestBodyKB \<le> 0 then coreDefaultBodyKB
                              else manifestRequestBodyKB);
               effectiveKB' = (if routeMaxKB > 0 \<and> routeMaxKB < effectiveKB then routeMaxKB
                               else effectiveKB)
           in len \<le> effectiveKB' * 1024)"

definition routeMatchesSlotMethodAndPath ::
    "Route \<Rightarrow> string \<Rightarrow> string \<Rightarrow> string \<Rightarrow> UseKind \<Rightarrow> bool" where
  "routeMatchesSlotMethodAndPath route slot method canonicalPath use =
     (if roSlot route \<noteq> slot \<or> roUse route \<noteq> use \<or> roMethod route \<noteq> method then False
      else (case Canonicalise (roPath route) of
              Inl _ \<Rightarrow> False
            | Inr routePattern \<Rightarrow> Match routePattern canonicalPath))"

fun anyRouteAllows ::
    "mimeLib \<Rightarrow> Route list \<Rightarrow> HTTPRequest \<Rightarrow> string \<Rightarrow> UseKind \<Rightarrow> int \<Rightarrow> bool" where
  "anyRouteAllows mime [] req canonicalPath use manifestRequestBodyKB = False"
| "anyRouteAllows mime (route # routes) req canonicalPath use manifestRequestBodyKB =
     (if \<not> routeMatchesSlotMethodAndPath route (qSlot req) (qMethod req) canonicalPath use
      then anyRouteAllows mime routes req canonicalPath use manifestRequestBodyKB
      else if \<not> queryKeysAllowed (roQueryKeys route) (qQuery req)
      then anyRouteAllows mime routes req canonicalPath use manifestRequestBodyKB
      else if \<not> contentTypeAllowed mime (roContentType route) (qHeader req)
      then anyRouteAllows mime routes req canonicalPath use manifestRequestBodyKB
      else if \<not> bodySizeAllowed (roMaxBodyKB route) manifestRequestBodyKB (bodyLen req)
      then anyRouteAllows mime routes req canonicalPath use manifestRequestBodyKB
      else True)"

definition connectionAllows :: "ConnectionPolicy \<Rightarrow> string \<Rightarrow> bool" where
  "connectionAllows policy canonicalPath =
     (if cpAllowedPaths policy = [] then True
      else underAllowedPath (cpAllowedPaths policy) canonicalPath)"

text \<open>\<open>None\<close> when the request is permitted.\<close>

definition Authorize :: "mimeLib \<Rightarrow> Grant \<Rightarrow> HTTPRequest \<Rightarrow> UseKind \<Rightarrow> capError option" where
  "Authorize mime g req use =
     (case Canonicalise (qPath req) of
        Inl e \<Rightarrow> Some (RouteCanon e)
      | Inr canonicalPath \<Rightarrow>
          if \<not> anyRouteAllows mime (ManifestRoutes g) req canonicalPath use (RequestBodyKB (gLimits g))
          then Some (RouteManifest (qMethod req) canonicalPath)
          else if \<not> anyRouteAllows mime (ApprovedRoutes g) req canonicalPath use (RequestBodyKB (gLimits g))
          then Some (RouteApproved (qMethod req) canonicalPath)
          else (case gConnectionPolicy g (qSlot req) of
                  None \<Rightarrow> None
                | Some policy \<Rightarrow>
                    if \<not> connectionAllows policy canonicalPath
                    then Some (RouteConnection canonicalPath) else None))"

section \<open>Budgets\<close>

definition consumeHostCall :: "Grant \<Rightarrow> budgetState \<Rightarrow> capError option \<times> budgetState" where
  "consumeHostCall g b =
     (if HostCalls (gLimits g) > 0 \<and> hostCallsUsed b \<ge> HostCalls (gLimits g)
      then (Some ErrBudgetExceeded, b)
      else (None, b\<lparr>hostCallsUsed := hostCallsUsed b + 1\<rparr>))"

definition consumeHTTPRequest :: "Grant \<Rightarrow> budgetState \<Rightarrow> capError option \<times> budgetState" where
  "consumeHTTPRequest g b =
     (if HTTPRequests (gLimits g) > 0 \<and> httpRequestsUsed b \<ge> HTTPRequests (gLimits g)
      then (Some ErrBudgetExceeded, b)
      else (None, b\<lparr>httpRequestsUsed := httpRequestsUsed b + 1\<rparr>))"

definition consumeCacheWrite :: "Grant \<Rightarrow> int \<Rightarrow> budgetState \<Rightarrow> capError option \<times> budgetState" where
  "consumeCacheWrite g valueBytes b =
     (if CacheEntries (gLimits g) > 0 \<and> cacheEntriesUsed b \<ge> CacheEntries (gLimits g)
      then (Some ErrBudgetExceeded, b)
      else let kb = (valueBytes + 1023) div 1024 in
        if CacheBytesKB (gLimits g) > 0 \<and> cacheBytesKBUsed b + kb > CacheBytesKB (gLimits g)
        then (Some ErrBudgetExceeded, b)
        else (None, b\<lparr>cacheEntriesUsed := cacheEntriesUsed b + 1,
                      cacheBytesKBUsed := cacheBytesKBUsed b + kb\<rparr>))"

section \<open>Header and query ownership\<close>

definition pluginHeaderAllowlist :: "string list" where
  "pluginHeaderAllowlist =
     [''Accept'', ''Accept-Language'', ''Content-Type'', ''If-None-Match'', ''If-Modified-Since'', ''Range'']"

definition alwaysStrippedHeaders :: "string list" where
  "alwaysStrippedHeaders =
     [''Host'', ''Content-Length'', ''Transfer-Encoding'', ''Connection'', ''Upgrade'']"

record connectionOwnership =
  coHeaders :: "string list"
  coQueryKeys :: "string list"

definition newConnectionOwnership :: "AuthType \<Rightarrow> string \<Rightarrow> string list \<Rightarrow> connectionOwnership" where
  "newConnectionOwnership authType authName staticHeaderNames =
     (let headers = map (map lower_byte) staticHeaderNames in
      case authType of
        AuthHeader \<Rightarrow>
          \<lparr>coHeaders = (if authName \<noteq> [] then map lower_byte authName # headers else headers),
           coQueryKeys = []\<rparr>
      | AuthQuery \<Rightarrow>
          \<lparr>coHeaders = headers, coQueryKeys = (if authName \<noteq> [] then [authName] else [])\<rparr>
      | _ \<Rightarrow> \<lparr>coHeaders = headers, coQueryKeys = []\<rparr>)"

definition canonicalHeaderCase :: "string \<Rightarrow> string" where
  "canonicalHeaderCase lower =
     (if lower = ''accept'' then ''Accept''
      else if lower = ''accept-language'' then ''Accept-Language''
      else if lower = ''content-type'' then ''Content-Type''
      else if lower = ''if-none-match'' then ''If-None-Match''
      else if lower = ''if-modified-since'' then ''If-Modified-Since''
      else if lower = ''range'' then ''Range''
      else if lower = ''host'' then ''Host''
      else if lower = ''content-length'' then ''Content-Length''
      else if lower = ''transfer-encoding'' then ''Transfer-Encoding''
      else if lower = ''connection'' then ''Connection''
      else if lower = ''upgrade'' then ''Upgrade''
      else [])"

definition filterHeaders ::
    "(string \<times> string) list \<Rightarrow> connectionOwnership \<Rightarrow> (string \<times> string) list" where
  "filterHeaders hs owned =
     filter (\<lambda>(name, _).
       let lower = map lower_byte name in
         \<not> canonicalHeaderCase lower \<in> set alwaysStrippedHeaders \<and>
         \<not> lower \<in> set (coHeaders owned) \<and>
         canonicalHeaderCase lower \<in> set pluginHeaderAllowlist) hs"

definition filterQuery ::
    "(string \<times> string) list \<Rightarrow> connectionOwnership \<Rightarrow> (string \<times> string) list" where
  "filterQuery q owned = filter (\<lambda>(k, _). \<not> k \<in> set (coQueryKeys owned)) q"

section \<open>Cache\<close>

text \<open>An absent \<open>expiresAt\<close> is Go's zero time; times are nanoseconds.\<close>

record cacheItem =
  ciValue :: string
  ciExpiresAt :: "int option"

type_synonym memCache = "(string \<times> cacheItem) list"

definition cacheNamespace :: "Grant \<Rightarrow> string" where
  "cacheNamespace g =
     ''plugin:'' @ PluginID g @ '':'' @ ManifestDigest (Ident g) @ '':'' @ InstanceID g"

definition memCacheGet :: "int \<Rightarrow> string \<Rightarrow> string \<Rightarrow> memCache \<Rightarrow> string option \<times> memCache" where
  "memCacheGet now namespace key items =
     (let full = namespace @ '':'' @ key in
      case map_of items full of
        None \<Rightarrow> (None, items)
      | Some item \<Rightarrow>
          (case ciExpiresAt item of
             None \<Rightarrow> (Some (ciValue item), items)
           | Some e \<Rightarrow> if now > e then (None, AList.delete full items)
                       else (Some (ciValue item), items)))"

definition memCachePut :: "int \<Rightarrow> string \<Rightarrow> string \<Rightarrow> string \<Rightarrow> int \<Rightarrow> memCache \<Rightarrow> memCache" where
  "memCachePut now namespace key val ttl items =
     AList.update (namespace @ '':'' @ key)
       \<lparr>ciValue = val, ciExpiresAt = (if ttl > 0 then Some (now + ttl) else None)\<rparr> items"

section \<open>Audit\<close>

definition routepathText :: "routepath_error \<Rightarrow> string" where
  "routepathText e =
     (case e of
        ErrNotAbsolute \<Rightarrow> ''routepath: path must begin with /''
      | ErrBackslash \<Rightarrow> ''routepath: path contains a backslash''
      | ErrControlOrSpace \<Rightarrow> ''routepath: path contains a control character or whitespace''
      | ErrMalformedEscape \<Rightarrow> ''routepath: path contains a malformed percent-escape''
      | ErrEncodedSeparator \<Rightarrow> ''routepath: a percent-escape decodes to / or '' @ [CHR 0x5C]
      | ErrDotSegment \<Rightarrow> ''routepath: a segment is . or .. (before or after decoding)''
      | ErrEmptySegment \<Rightarrow> ''routepath: path contains an empty segment (//)''
      | ErrQueryOrFragment \<Rightarrow> ''routepath: path contains a literal ? or #''
      | IndexOutOfRange \<Rightarrow> [])"

text \<open>The messages of the errors that reach the audit.\<close>

definition capErrorText :: "capError \<Rightarrow> string" where
  "capErrorText e =
     (case e of
        ErrCapDenied \<Rightarrow> ''capabilities: capability not granted''
      | ErrSlotDenied \<Rightarrow> ''capabilities: slot not granted''
      | RouteCanon r \<Rightarrow> ''capabilities: route not authorised: '' @ routepathText r
      | RouteManifest method path \<Rightarrow>
          ''capabilities: route not authorised: no manifest route permits '' @ method @ '' '' @ path
      | RouteApproved method path \<Rightarrow>
          ''capabilities: route not authorised: no approved (lock) route permits '' @ method @ '' '' @ path
      | RouteConnection path \<Rightarrow>
          ''capabilities: route not authorised: the connection'' @ [CHR 0x27] @
          ''s own allowedPaths forbids '' @ path
      | ErrBudgetExceeded \<Rightarrow> ''capabilities: budget exceeded''
      | _ \<Rightarrow> [])"

record DenialRecord =
  drMethod :: string
  drErr :: capError
  drCount :: int

record memAudit =
  byCause :: "(string \<times> DenialRecord) list"
  totals :: "(string \<times> int) list"

definition NewMemAudit :: memAudit where
  "NewMemAudit = \<lparr>byCause = [], totals = []\<rparr>"

definition Total :: "memAudit \<Rightarrow> string \<Rightarrow> int" where
  "Total a pluginID = (case map_of (totals a) pluginID of None \<Rightarrow> 0 | Some n \<Rightarrow> n)"

definition Denied :: "string \<Rightarrow> string \<Rightarrow> capError \<Rightarrow> memAudit \<Rightarrow> memAudit" where
  "Denied pluginID method err a =
     (let key = pluginID @ [CHR 0x00] @ method @ [CHR 0x00] @ capErrorText err;
          rec = (case map_of (byCause a) key of
                   None \<Rightarrow> \<lparr>drMethod = method, drErr = err, drCount = 0\<rparr>
                 | Some r \<Rightarrow> r)
      in a\<lparr>byCause := AList.update key (rec\<lparr>drCount := drCount rec + 1\<rparr>) (byCause a),
           totals := AList.update pluginID (Total a pluginID + 1) (totals a)\<rparr>)"

section \<open>The broker\<close>

datatype logLevel = LevelDebug | LevelInfo | LevelWarn | LevelError

record brokerState =
  bBudget :: budgetState
  bCache :: memCache
  bAudit :: memAudit
  bLog :: "(logLevel \<times> string \<times> (string \<times> string) list) list"
  bEvents :: "(string \<times> Event) list"
  bSent :: "(string \<times> httpRequest list) list"

text \<open>
  What the broker is built with: the registry, the \<open>mime\<close> package, and the event sink, which is
  absent in isolated runtimes and otherwise accepts or refuses an event.
\<close>

record brokerEnv =
  beRegistry :: registry
  beMime :: mimeLib
  beSink :: "(string \<Rightarrow> Event \<Rightarrow> bool) option"

text \<open>\<open>broker.authorize\<close>: the budget is the one the check leaves behind; a failure is audited.\<close>

definition brokerAuthorize ::
    "Grant \<Rightarrow> string \<Rightarrow> capError option \<times> budgetState \<Rightarrow> brokerState \<Rightarrow> capError option \<times> brokerState"
  where
  "brokerAuthorize g method checked st =
     (case checked of
        (Some err, b) \<Rightarrow>
          (Some err, st\<lparr>bBudget := b, bAudit := Denied (PluginID g) method err (bAudit st)\<rparr>)
      | (None, b) \<Rightarrow> (None, st\<lparr>bBudget := b\<rparr>))"

definition checkHTTP ::
    "brokerEnv \<Rightarrow> Grant \<Rightarrow> HTTPRequest \<Rightarrow> budgetState \<Rightarrow> capError option \<times> budgetState" where
  "checkHTTP be g req b =
     (if \<not> Has (Caps g) ''http'' then (Some ErrCapDenied, b)
      else if Slots g (qSlot req) = None then (Some ErrSlotDenied, b)
      else (case Authorize (beMime be) g req UseData of
              Some e \<Rightarrow> (Some e, b)
            | None \<Rightarrow>
                (case consumeHostCall g b of
                   (Some e, b1) \<Rightarrow> (Some e, b1)
                 | (None, b1) \<Rightarrow> consumeHTTPRequest g b1)))"

text \<open>The authorizer that re-checks a redirect's destination against the same grant.\<close>

definition redirectAuthorize :: "mimeLib \<Rightarrow> Grant \<Rightarrow> string \<Rightarrow> RedirectRequest \<Rightarrow> bool" where
  "redirectAuthorize mime g slot dest =
     (Authorize mime g
        \<lparr>qSlot = slot, qMethod = rdMethod dest, qPath = rdPath dest, qQuery = rdQuery dest,
         qHeader = rdHeader dest, qBody = None, qBodyLen = rdBodyLen dest\<rparr> UseData = None)"

text \<open>The request that reaches the registry, and what \<open>HTTP\<close> makes of the answer.\<close>

definition upstreamRequest :: "Grant \<Rightarrow> HTTPRequest \<Rightarrow> HTTPConfig \<Rightarrow> Request" where
  "upstreamRequest g req cfg =
     (let owned = newConnectionOwnership (aType (cAuth cfg)) (aName (cAuth cfg)) (map fst (cHeaders cfg))
      in \<lparr>rMethod = qMethod req, rPath = qPath req,
          rQuery = filterQuery (qQuery req) owned,
          rHeaders = filterHeaders (qHeader req) owned,
          rBody = qBody req,
          rMaxResponseBytes = (if ResponseMB (gLimits g) > 0 then ResponseMB (gLimits g) * 2 ^ 20 else 0)\<rparr>)"

definition brokerForward ::
    "brokerEnv \<Rightarrow> netEnv \<Rightarrow> Grant \<Rightarrow> HTTPRequest \<Rightarrow> string \<Rightarrow> HTTPConfig \<Rightarrow> brokerState \<Rightarrow>
     (capError, Response) result \<times> brokerState" where
  "brokerForward be env g req cid cfg st =
     (case Do env (beRegistry be) (Some (redirectAuthorize (beMime be) g (qSlot req))) cid
             (upstreamRequest g req cfg) of
        (res, sent) \<Rightarrow>
          let st2 = st\<lparr>bSent := bSent st @ [(cid, sent)]\<rparr> in
          (case res of
             Inl e \<Rightarrow>
               if e = ErrResponseTooLarge
               then (Inl ErrUpstreamTooLarge,
                     st2\<lparr>bAudit := Denied (PluginID g) ''HTTP'' ErrBudgetExceeded (bAudit st2)\<rparr>)
               else (Inl (ErrUpstream e), st2)
           | Inr resp \<Rightarrow> (Inr resp, st2)))"

definition brokerHTTP ::
    "brokerEnv \<Rightarrow> netEnv \<Rightarrow> Grant \<Rightarrow> HTTPRequest \<Rightarrow> brokerState \<Rightarrow>
     (capError, Response) result \<times> brokerState" where
  "brokerHTTP be env g req st =
     (case brokerAuthorize g ''HTTP'' (checkHTTP be g req (bBudget st)) st of
        (Some err, st1) \<Rightarrow> (Inl err, st1)
      | (None, st1) \<Rightarrow>
          let cid = (case Slots g (qSlot req) of None \<Rightarrow> [] | Some i \<Rightarrow> i) in
          (case registryGet (beRegistry be) cid of
             None \<Rightarrow> (Inl (ErrNotHTTPConnection cid), st1)
           | Some conn \<Rightarrow>
               (case connHTTP conn of
                  None \<Rightarrow> (Inl (ErrNotHTTPConnection cid), st1)
                | Some cfg \<Rightarrow> brokerForward be env g req cid cfg st1)))"

definition checkCapHostCall ::
    "Grant \<Rightarrow> string \<Rightarrow> budgetState \<Rightarrow> capError option \<times> budgetState" where
  "checkCapHostCall g capability b =
     (if \<not> Has (Caps g) capability then (Some ErrCapDenied, b) else consumeHostCall g b)"

definition brokerCacheGet ::
    "int \<Rightarrow> Grant \<Rightarrow> string \<Rightarrow> brokerState \<Rightarrow> (capError, string option) result \<times> brokerState" where
  "brokerCacheGet now g key st =
     (case brokerAuthorize g ''CacheGet'' (checkCapHostCall g ''cache'' (bBudget st)) st of
        (Some err, st1) \<Rightarrow> (Inl err, st1)
      | (None, st1) \<Rightarrow>
          (case memCacheGet now (cacheNamespace g) key (bCache st1) of
             (v, items) \<Rightarrow> (Inr v, st1\<lparr>bCache := items\<rparr>)))"

definition checkCachePut :: "Grant \<Rightarrow> string \<Rightarrow> budgetState \<Rightarrow> capError option \<times> budgetState" where
  "checkCachePut g val b =
     (if \<not> Has (Caps g) ''cache'' then (Some ErrCapDenied, b)
      else (case consumeHostCall g b of
              (Some e, b1) \<Rightarrow> (Some e, b1)
            | (None, b1) \<Rightarrow> consumeCacheWrite g (int (length val)) b1))"

definition brokerCachePut ::
    "int \<Rightarrow> Grant \<Rightarrow> string \<Rightarrow> string \<Rightarrow> int \<Rightarrow> brokerState \<Rightarrow> capError option \<times> brokerState" where
  "brokerCachePut now g key val ttl st =
     (case brokerAuthorize g ''CachePut'' (checkCachePut g val (bBudget st)) st of
        (Some err, st1) \<Rightarrow> (Some err, st1)
      | (None, st1) \<Rightarrow>
          (None, st1\<lparr>bCache := memCachePut now (cacheNamespace g) key val ttl (bCache st1)\<rparr>))"

definition brokerLog ::
    "Grant \<Rightarrow> string \<Rightarrow> string \<Rightarrow> (string \<times> string) list \<Rightarrow> brokerState \<Rightarrow> capError option \<times> brokerState"
  where
  "brokerLog g level msg attrs st =
     (case brokerAuthorize g ''Log'' (checkCapHostCall g ''log'' (bBudget st)) st of
        (Some err, st1) \<Rightarrow> (Some err, st1)
      | (None, st1) \<Rightarrow>
          let lvl = (if level = ''warn'' then LevelWarn else if level = ''error'' then LevelError
                     else if level = ''debug'' then LevelDebug else LevelInfo)
          in (None, st1\<lparr>bLog := bLog st1 @ [(lvl, msg, (''plugin'', PluginID g) # attrs)]\<rparr>))"

definition brokerEmit :: "brokerEnv \<Rightarrow> Grant \<Rightarrow> Event \<Rightarrow> brokerState \<Rightarrow> capError option \<times> brokerState" where
  "brokerEmit be g e st =
     (case brokerAuthorize g ''Emit'' (checkCapHostCall g ''events'' (bBudget st)) st of
        (Some err, st1) \<Rightarrow> (Some err, st1)
      | (None, st1) \<Rightarrow>
          if evType e = [] then (Some ErrEventType, st1)
          else (case beSink be of
                  Some sink \<Rightarrow>
                    if sink (PluginID g) e
                    then (None, st1\<lparr>bEvents := bEvents st1 @ [(PluginID g, e)]\<rparr>)
                    else (Some ErrEventSink, st1)
                | None \<Rightarrow>
                    (None, st1\<lparr>bLog := bLog st1 @
                       [(LevelInfo, ''event emitted'', [(''plugin'', PluginID g), (''type'', evType e)])]\<rparr>)))"

subsection \<open>The broker mints a reference\<close>

record Transform =
  tfWidth :: int
  tfFormat :: string

definition transformString :: "Transform \<Rightarrow> string" where
  "transformString t =
     (let w = (if tfWidth t > 0 then ''w='' @ FormatUint (nat (tfWidth t)) else [])
      in w @ (if tfFormat t \<noteq> [] then (if w \<noteq> [] then '','' else []) @ ''f='' @ tfFormat t else []))"

text \<open>The texts that the anchored expression of \<open>transformPattern\<close> and \<open>servedTransform\<close> accepts.\<close>

definition transformTexts :: "string list" where
  "transformTexts = concat (map (\<lambda>w. map (\<lambda>f. w @ f) [[], '',f=webp'', '',f=jpeg''])
     [[], ''w=160'', ''w=320'', ''w=640'', ''w=1280''])"

definition validTransform :: "string \<Rightarrow> bool" where
  "validTransform v \<longleftrightarrow> v \<in> set transformTexts"

definition firstValues :: "queryValues \<Rightarrow> (string \<times> string) list" where
  "firstValues q = List.map_filter (\<lambda>(k, vs). case vs of [] \<Rightarrow> None | v # _ \<Rightarrow> Some (k, v)) q"

definition canonicalQuery :: "queryValues \<Rightarrow> string" where
  "canonicalQuery q = Join ''&'' (map (\<lambda>k. encodePair (k, GetValue q k)) (sort (map fst q)))"

definition defaultAssetRefTTL :: int where
  "defaultAssetRefTTL = 24 * 3600"

definition assetRequest :: "string \<Rightarrow> string \<Rightarrow> (string \<times> string) list \<Rightarrow> HTTPRequest" where
  "assetRequest slot path query = \<lparr>qSlot = slot, qMethod = ''GET'', qPath = path, qQuery = query, qHeader = [],
     qBody = None, qBodyLen = 0\<rparr>"

definition checkAssetRef ::
    "brokerEnv \<Rightarrow> Grant \<Rightarrow> string \<Rightarrow> string \<Rightarrow> queryValues \<Rightarrow> budgetState \<Rightarrow> capError option \<times> budgetState" where
  "checkAssetRef be g slot path query b =
     (if \<not> Has (Caps g) ''assets'' then (Some ErrCapDenied, b)
      else if Slots g slot = None then (Some ErrSlotDenied, b)
      else case Authorize (beMime be) g (assetRequest slot path (firstValues query)) UseAsset of
             Some e \<Rightarrow> (Some e, b)
           | None \<Rightarrow> consumeHostCall g b)"

definition assetPayload :: "Grant \<Rightarrow> string \<Rightarrow> string \<Rightarrow> string \<Rightarrow> queryValues \<Rightarrow> Transform \<Rightarrow> string \<Rightarrow> int \<Rightarrow> Payload" where
  "assetPayload g slot fallback canonicalPath query t cid now =
     \<lparr>paV = 1, paConnection = cid,
      paRevision = (case SlotRevisions (Ident g) slot of Some r \<Rightarrow> if r = [] then fallback else r | None \<Rightarrow> fallback),
      paPath = canonicalPath, paQuery = canonicalQuery query, paTransform = transformString t,
      paPlugin = PluginID g @ ''@'' @ Version g, paExpires = now + defaultAssetRefTTL\<rparr>"

definition AssetRef ::
    "assetLib \<Rightarrow> string \<Rightarrow> string \<Rightarrow> int \<Rightarrow> brokerEnv \<Rightarrow> Grant \<Rightarrow> string \<Rightarrow> string \<Rightarrow> queryValues \<Rightarrow> Transform \<Rightarrow>
     brokerState \<Rightarrow> (capError, string) result \<times> brokerState" where
  "AssetRef lib key fallback now be g slot path query t st =
     (case brokerAuthorize g ''AssetRef'' (checkAssetRef be g slot path query (bBudget st)) st of
        (Some err, st) \<Rightarrow> (Inl err, st)
      | (None, st) \<Rightarrow>
          (case Canonicalise path of
             Inl e \<Rightarrow> (Inl (RouteCanon e), st)
           | Inr canonicalPath \<Rightarrow>
               if \<not> validTransform (transformString t) then (Inl ErrTransform, st)
               else (Inr (Mint lib key (assetPayload g slot fallback canonicalPath query t (the (Slots g slot)) now)), st)))"

text \<open>The calls an invocation makes through the broker, one after another.\<close>

datatype hostCall =
    CallHTTP netEnv HTTPRequest
  | CallCacheGet int string
  | CallCachePut int string string int
  | CallAssetRef assetLib string string int string string queryValues Transform
  | CallLog string string "(string \<times> string) list"
  | CallEmit Event

fun brokerStep :: "brokerEnv \<Rightarrow> Grant \<Rightarrow> hostCall \<Rightarrow> brokerState \<Rightarrow> brokerState" where
  "brokerStep be g (CallHTTP env req) st = snd (brokerHTTP be env g req st)"
| "brokerStep be g (CallCacheGet now key) st = snd (brokerCacheGet now g key st)"
| "brokerStep be g (CallCachePut now key val ttl) st = snd (brokerCachePut now g key val ttl st)"
| "brokerStep be g (CallAssetRef lib signKey fallback now slot path query t) st =
     snd (AssetRef lib signKey fallback now be g slot path query t st)"
| "brokerStep be g (CallLog level msg attrs) st = snd (brokerLog g level msg attrs st)"
| "brokerStep be g (CallEmit e) st = snd (brokerEmit be g e st)"


text \<open>The checks that each method makes before anything else.\<close>

fun checkCall :: "brokerEnv \<Rightarrow> Grant \<Rightarrow> hostCall \<Rightarrow> budgetState \<Rightarrow> capError option \<times> budgetState" where
  "checkCall be g (CallHTTP env req) b = checkHTTP be g req b"
| "checkCall be g (CallCacheGet now key) b = checkCapHostCall g ''cache'' b"
| "checkCall be g (CallCachePut now key val ttl) b = checkCachePut g val b"
| "checkCall be g (CallAssetRef lib signKey fallback now slot path query t) b = checkAssetRef be g slot path query b"
| "checkCall be g (CallLog level msg attrs) b = checkCapHostCall g ''log'' b"
| "checkCall be g (CallEmit e) b = checkCapHostCall g ''events'' b"


section \<open>Specification\<close>

text \<open>What it means that one route permits a request whose canonical path is \<open>c\<close>.\<close>

definition pathPermitted :: "string \<Rightarrow> string \<Rightarrow> bool" where
  "pathPermitted glob c =
     (case Canonicalise glob of
        Inl _ \<Rightarrow> False
      | Inr p \<Rightarrow>
          if c = ''/'' then p = ''/'' \<or> (\<exists>s. pathSegments p = [s] \<and> set s \<subseteq> {CHR ''*''})
          else list_all2 globMatches (pathSegments p) (pathSegments c))"

definition routePermits :: "mimeLib \<Rightarrow> int \<Rightarrow> HTTPRequest \<Rightarrow> string \<Rightarrow> UseKind \<Rightarrow> Route \<Rightarrow> bool" where
  "routePermits mime manifestKB req c use r =
     (roSlot r = qSlot req \<and> roUse r = use \<and> roMethod r = qMethod req \<and>
      pathPermitted (roPath r) c \<and>
      (\<forall>keys. roQueryKeys r = Some keys \<longrightarrow> fst ` set (qQuery req) \<subseteq> set keys) \<and>
      contentTypeAllowed mime (roContentType r) (qHeader req) \<and>
      0 \<le> bodyLen req \<and>
      bodyLen req \<le> 1024 * (if manifestKB \<le> 0 then coreDefaultBodyKB else manifestKB) \<and>
      (roMaxBodyKB r > 0 \<longrightarrow> bodyLen req \<le> 1024 * roMaxBodyKB r))"


section \<open>Lemmas\<close>

subsection \<open>Authorize\<close>

lemma bodySizeAllowed_iff:
  "bodySizeAllowed routeKB manifestKB n \<longleftrightarrow>
   0 \<le> n \<and> n \<le> 1024 * (if manifestKB \<le> 0 then coreDefaultBodyKB else manifestKB) \<and>
   (routeKB > 0 \<longrightarrow> n \<le> 1024 * routeKB)"
  by (auto simp: bodySizeAllowed_def Let_def)

lemma queryKeysAllowed_iff:
  "queryKeysAllowed ks q \<longleftrightarrow> (\<forall>keys. ks = Some keys \<longrightarrow> fst ` set q \<subseteq> set keys)"
  by (cases ks) (auto simp: queryKeysAllowed_def list_all_iff)

lemma anyRouteAllows_iff:
  assumes "Canonicalise c = Inr c"
  shows "anyRouteAllows mime rs req c use kb \<longleftrightarrow> (\<exists>r\<in>set rs. routePermits mime kb req c use r)"
proof (induction rs)
  case (Cons r rs)
  have "routeMatchesSlotMethodAndPath r (qSlot req) (qMethod req) c use \<longleftrightarrow>
      roSlot r = qSlot req \<and> roUse r = use \<and> roMethod r = qMethod req \<and> pathPermitted (roPath r) c"
    using Match_segments[OF Canonicalise_fixpoint assms]
    by (auto simp: routeMatchesSlotMethodAndPath_def pathPermitted_def split: sum.splits)
  then show ?case
    using Cons by (simp add: routePermits_def bodySizeAllowed_iff queryKeysAllowed_iff) blast
qed simp

lemma underAllowedPath_iff:
  assumes "Canonicalise c = Inr c"
  shows "underAllowedPath ps c \<longleftrightarrow>
    (\<exists>a\<in>set ps. \<exists>q. Canonicalise a = Inr q \<and> prefix (pathSegments q) (pathSegments c))"
proof -
  have "(case Canonicalise a of Inl _ \<Rightarrow> False | Inr q \<Rightarrow> HasPathPrefix c q) \<longleftrightarrow>
      (\<exists>q. Canonicalise a = Inr q \<and> prefix (pathSegments q) (pathSegments c))" for a
    using HasPathPrefix_segments[OF assms Canonicalise_fixpoint, of a] by (cases "Canonicalise a") auto
  then show ?thesis by (simp add: underAllowedPath_def list_ex_iff)
qed

lemma Authorize_iff:
  "Authorize mime g req use = None \<longleftrightarrow>
   (\<exists>c. Canonicalise (qPath req) = Inr c \<and>
     (\<exists>r\<in>set (ManifestRoutes g). routePermits mime (RequestBodyKB (gLimits g)) req c use r) \<and>
     (\<exists>r\<in>set (ApprovedRoutes g). routePermits mime (RequestBodyKB (gLimits g)) req c use r) \<and>
     (\<forall>policy. gConnectionPolicy g (qSlot req) = Some policy \<longrightarrow> cpAllowedPaths policy \<noteq> [] \<longrightarrow>
       (\<exists>a\<in>set (cpAllowedPaths policy). \<exists>q. Canonicalise a = Inr q \<and>
          prefix (pathSegments q) (pathSegments c))))"
proof (cases "Canonicalise (qPath req)")
  case (Inr c)
  note cc = Canonicalise_fixpoint[OF Inr]
  show ?thesis
    using Inr
    by (auto simp: Authorize_def anyRouteAllows_iff[OF cc] connectionAllows_def
        underAllowedPath_iff[OF cc] split: option.splits)
qed (simp add: Authorize_def)

subsection \<open>Budgets\<close>

lemma brokerForward_state:
  "brokerForward be env g req cid cfg st = (res, st') \<Longrightarrow>
   bBudget st' = bBudget st \<and> bCache st' = bCache st \<and> bLog st' = bLog st \<and> bEvents st' = bEvents st \<and>
   bSent st' = bSent st @ [(cid, snd (Do env (beRegistry be)
     (Some (redirectAuthorize (beMime be) g (qSlot req))) cid (upstreamRequest g req cfg)))]"
  by (auto simp: brokerForward_def Let_def split: prod.splits sum.splits if_splits)









subsection \<open>Effects\<close>

text \<open>A call that fails its checks touches nothing but the budget and the audit.\<close>

lemma Denied_Total:
  "Total (Denied p m e a) q = (if q = p then Total a q + 1 else Total a q)"
  by (simp add: Denied_def Total_def Let_def update_conv')

lemma brokerAuthorize_denied:
  "brokerAuthorize g m (Some e, b) st = (Some e, st\<lparr>bBudget := b, bAudit := Denied (PluginID g) m e (bAudit st)\<rparr>)"
  by (simp add: brokerAuthorize_def)

lemma brokerAuthorize_ok: "brokerAuthorize g m (None, b) st = (None, st\<lparr>bBudget := b\<rparr>)"
  by (simp add: brokerAuthorize_def)

text \<open>A call whose checks pass has consumed exactly one host call, and an HTTP call one request.\<close>

lemma checkHTTP_ok:
  "checkHTTP be g req b = (None, b') \<Longrightarrow>
   Has (Caps g) ''http'' \<and> Slots g (qSlot req) \<noteq> None \<and> Authorize (beMime be) g req UseData = None \<and>
   b' = b\<lparr>hostCallsUsed := hostCallsUsed b + 1, httpRequestsUsed := httpRequestsUsed b + 1\<rparr>"
  by (auto simp: checkHTTP_def consumeHostCall_def consumeHTTPRequest_def split: if_splits option.splits)

lemma brokerHTTP_cases:
  obtains (denied) e b where "checkHTTP be g req (bBudget st) = (Some e, b)"
    "brokerHTTP be env g req st =
       (Inl e, st\<lparr>bBudget := b, bAudit := Denied (PluginID g) ''HTTP'' e (bAudit st)\<rparr>)"
  | (noconn) cid b where "checkHTTP be g req (bBudget st) = (None, b)" "Slots g (qSlot req) = Some cid"
    "brokerHTTP be env g req st = (Inl (ErrNotHTTPConnection cid), st\<lparr>bBudget := b\<rparr>)"
  | (forward) cid b conn cfg where "checkHTTP be g req (bBudget st) = (None, b)"
    "Slots g (qSlot req) = Some cid" "registryGet (beRegistry be) cid = Some conn" "connHTTP conn = Some cfg"
    "brokerHTTP be env g req st = brokerForward be env g req cid cfg (st\<lparr>bBudget := b\<rparr>)"
proof (cases "checkHTTP be g req (bBudget st)")
  case (Pair r b)
  show ?thesis
  proof (cases r)
    case (Some e)
    then show ?thesis using Pair denied by (simp add: brokerHTTP_def brokerAuthorize_denied)
  next
    case None
    then obtain cid where cid: "Slots g (qSlot req) = Some cid" using Pair checkHTTP_ok by fastforce
    have "brokerHTTP be env g req st =
        (case registryGet (beRegistry be) cid of
           None \<Rightarrow> (Inl (ErrNotHTTPConnection cid), st\<lparr>bBudget := b\<rparr>)
         | Some conn \<Rightarrow> (case connHTTP conn of None \<Rightarrow> (Inl (ErrNotHTTPConnection cid), st\<lparr>bBudget := b\<rparr>)
             | Some cfg \<Rightarrow> brokerForward be env g req cid cfg (st\<lparr>bBudget := b\<rparr>)))"
      using Pair None cid by (simp add: brokerHTTP_def brokerAuthorize_ok)
    then show ?thesis
      using Pair None cid noconn forward
      by (cases "registryGet (beRegistry be) cid") (auto split: option.splits)
  qed
qed







subsection \<open>Headers and query on the wire\<close>

lemma lower_upper_byte [simp]:
  "lower_byte (upper_byte c) = lower_byte c" "lower_byte (lower_byte c) = lower_byte c"
proof -
  have "of_char c < (256::nat)" by simp
  then show "lower_byte (upper_byte c) = lower_byte c" "lower_byte (lower_byte c) = lower_byte c"
    by (auto simp: lower_byte_def upper_byte_def less_eq_char_def)
qed

lemma lower_CanonicalHeaderKey [simp]: "map lower_byte (CanonicalHeaderKey k) = map lower_byte k"
proof -
  have "map lower_byte (canonicalHeaderBytes up s) = map lower_byte s" for up s
    by (induction up s rule: canonicalHeaderBytes.induct) auto
  then show ?thesis by (simp add: CanonicalHeaderKey_def)
qed

lemma keys_update: "fst ` set (AList.update k v al) = insert k (fst ` set al)"
  by (induction al) auto

lemma keys_headerSet: "fst ` set (headerSet h k v) = insert (CanonicalHeaderKey k) (fst ` set h)"
  by (simp add: headerSet_def keys_update)

lemma keys_valuesSet: "fst ` set (valuesSet q k v) = insert k (fst ` set q)"
  by (simp add: valuesSet_def keys_update)

lemma map_of_headerSet: "map_of (headerSet h k v) = (map_of h)(CanonicalHeaderKey k \<mapsto> [v])"
  by (simp add: headerSet_def update_conv')

lemma map_of_valuesSet: "map_of (valuesSet q k v) = (map_of q)(k \<mapsto> [v])"
  by (simp add: valuesSet_def update_conv')

lemma keys_headerSets:
  "fst ` set (foldl (\<lambda>h (k, v). headerSet h k v) h0 xs) = fst ` set h0 \<union> (CanonicalHeaderKey \<circ> fst) ` set xs"
proof (induction xs arbitrary: h0)
  case (Cons x xs)
  show ?case by (cases x) (simp add: Cons keys_headerSet)
qed simp

lemma map_of_headerSets_cong:
  "map_of h k = map_of h' k \<Longrightarrow>
   map_of (foldl (\<lambda>h (k, v). headerSet h k v) h xs) k = map_of (foldl (\<lambda>h (k, v). headerSet h k v) h' xs) k"
proof (induction xs arbitrary: h h')
  case (Cons x xs)
  show ?case using Cons.prems
    by (cases x) (auto intro!: Cons.IH simp: map_of_headerSet)
qed simp

lemma keys_valuesSets:
  "fst ` set (foldl (\<lambda>q (k, v). valuesSet q k v) q0 xs) = fst ` set q0 \<union> fst ` set xs"
proof (induction xs arbitrary: q0)
  case (Cons x xs)
  show ?case by (cases x) (simp add: Cons keys_valuesSet)
qed simp

text \<open>The headers of a request that owes nothing to its caller.\<close>

definition connectionHeaders :: "HTTPConfig \<Rightarrow> header" where
  "connectionHeaders cfg =
     fst (injectAuth (cAuth cfg) (foldl (\<lambda>h (k, v). headerSet h k v) [] (cHeaders cfg), []))"

lemma injectAuth_header_cong:
  "map_of h k = map_of h' k \<Longrightarrow> map_of (fst (injectAuth a (h, q))) k = map_of (fst (injectAuth a (h', q'))) k"
  by (auto simp: injectAuth_def map_of_headerSet split: AuthType.splits)

lemma injectAuth_header_keys:
  "k \<in> fst ` set (fst (injectAuth a (h, q))) \<Longrightarrow> aType a = AuthHeader \<longrightarrow> aName a \<noteq> [] \<Longrightarrow>
   k \<in> fst ` set h \<or> map lower_byte k \<in> set (ownedHeader (ownedNames a hs))"
proof -
  assume k: "k \<in> fst ` set (fst (injectAuth a (h, q)))" and n: "aType a = AuthHeader \<longrightarrow> aName a \<noteq> []"
  have auth: "map lower_byte ''Authorization'' = ''authorization''" by code_simp
  consider "k \<in> fst ` set h" | "aType a = AuthHeader" "k = CanonicalHeaderKey (aName a)"
    | "aType a \<in> {AuthBearer, AuthBasic}" "k = CanonicalHeaderKey ''Authorization''"
    using k keys_headerSet by (cases "aType a") (simp_all add: injectAuth_def, blast+)
  then show ?thesis
    using n auth by cases (auto simp: ownedNames_def Let_def)
qed

lemma buildRequest_parts:
  assumes "buildRequest env c target r = Inr h"
  obtains q where
    "q = foldl (\<lambda>q (k, v). valuesSet q k v)
           (if uRawQuery target = [] then [] else parseQuery env (uRawQuery target)) (rQuery r)"
    "hHeader h = fst (injectAuth (cAuth (clCfg c))
       (foldl (\<lambda>h (k, v). headerSet h k v) (foldl (\<lambda>h (k, v). headerSet h k v) [] (rHeaders r))
          (cHeaders (clCfg c)), q))"
    "hQuery h = snd (injectAuth (cAuth (clCfg c))
       (foldl (\<lambda>h (k, v). headerSet h k v) (foldl (\<lambda>h (k, v). headerSet h k v) [] (rHeaders r))
          (cHeaders (clCfg c)), q))"
    "hURL h = target"
  using assms by (auto simp: buildRequest_def Let_def split: if_splits prod.splits)

lemma filterHeaders_allowed:
  assumes "n \<in> fst ` set (filterHeaders hs (newConnectionOwnership (aType a) (aName a) (map fst static)))"
  shows "canonicalHeaderCase (map lower_byte n) \<in> set pluginHeaderAllowlist"
    "map lower_byte n \<notin> set (ownedHeader (ownedNames a static))"
proof -
  have f: "canonicalHeaderCase (map lower_byte n) \<in> set pluginHeaderAllowlist"
    "map lower_byte n \<notin> set (coHeaders (newConnectionOwnership (aType a) (aName a) (map fst static)))"
    using assms by (auto simp: filterHeaders_def Let_def)
  have "canonicalHeaderCase ''authorization'' \<notin> set pluginHeaderAllowlist" by code_simp
  then have na: "map lower_byte n \<noteq> ''authorization''" using f(1) by metis
  show "canonicalHeaderCase (map lower_byte n) \<in> set pluginHeaderAllowlist" by (rule f(1))
  show "map lower_byte n \<notin> set (ownedHeader (ownedNames a static))"
    using f(2) na
    by (auto simp: ownedNames_def newConnectionOwnership_def Let_def image_iff split: AuthType.splits if_splits)
qed

abbreviation setHeaders :: "header \<Rightarrow> (string \<times> string) list \<Rightarrow> header" where
  "setHeaders h0 xs \<equiv> foldl (\<lambda>h (k, v). headerSet h k v) h0 xs"

lemma plugin_header_keys:
  assumes "k \<in> fst ` set (setHeaders []
    (filterHeaders hs (newConnectionOwnership (aType a) (aName a) (map fst static))))"
  shows "canonicalHeaderCase (map lower_byte k) \<in> set pluginHeaderAllowlist"
    "map lower_byte k \<notin> set (ownedHeader (ownedNames a static))"
proof -
  obtain n where "n \<in> fst ` set (filterHeaders hs (newConnectionOwnership (aType a) (aName a) (map fst static)))"
    "k = CanonicalHeaderKey n"
    using assms unfolding keys_headerSets by auto
  then show "canonicalHeaderCase (map lower_byte k) \<in> set pluginHeaderAllowlist"
    "map lower_byte k \<notin> set (ownedHeader (ownedNames a static))"
    using filterHeaders_allowed[of n hs a static] by simp_all
qed

lemma static_header_keys:
  "x \<in> set static \<Longrightarrow> map lower_byte (fst x) \<in> set (ownedHeader (ownedNames a static))"
  by (cases x; cases "aType a") (force simp: ownedNames_def Let_def)+

lemma upstream_header:
  assumes "buildRequest env c target (upstreamRequest g req (clCfg c)) = Inr h"
  obtains q where "hHeader h = fst (injectAuth (cAuth (clCfg c)) (setHeaders (setHeaders []
    (filterHeaders (qHeader req) (newConnectionOwnership (aType (cAuth (clCfg c)))
       (aName (cAuth (clCfg c))) (map fst (cHeaders (clCfg c)))))) (cHeaders (clCfg c)), q))"
  using buildRequest_parts[OF assms] by (auto simp: upstreamRequest_def Let_def)

lemma wire_header_keys:
  assumes h: "buildRequest env c target (upstreamRequest g req (clCfg c)) = Inr h"
    and name: "aType (cAuth (clCfg c)) = AuthHeader \<longrightarrow> aName (cAuth (clCfg c)) \<noteq> []"
    and k: "k \<in> fst ` set (hHeader h)"
  shows "map lower_byte k \<in> set (ownedHeader (ownedNames (cAuth (clCfg c)) (cHeaders (clCfg c)))) \<or>
      canonicalHeaderCase (map lower_byte k) \<in> set pluginHeaderAllowlist"
  using h
proof (cases rule: upstream_header)
  case (1 q)
  from injectAuth_header_keys[OF k[unfolded 1] name, of "cHeaders (clCfg c)"]
  show ?thesis
    unfolding keys_headerSets[of "setHeaders [] _"]
    using plugin_header_keys(1) static_header_keys[of _ "cHeaders (clCfg c)"] by fastforce
qed

lemma wire_header_values:
  assumes h: "buildRequest env c target (upstreamRequest g req (clCfg c)) = Inr h"
    and k: "map lower_byte k \<in> set (ownedHeader (ownedNames (cAuth (clCfg c)) (cHeaders (clCfg c))))"
  shows "map_of (hHeader h) k = map_of (connectionHeaders (clCfg c)) k"
  using h
proof (cases rule: upstream_header)
  case (1 q)
  let ?plugin = "setHeaders [] (filterHeaders (qHeader req) (newConnectionOwnership
    (aType (cAuth (clCfg c))) (aName (cAuth (clCfg c))) (map fst (cHeaders (clCfg c)))))"
  have "k \<notin> fst ` set ?plugin" using plugin_header_keys(2) k by blast
  then have "map_of ?plugin k = map_of [] k" by (simp add: map_of_eq_None_iff)
  then show ?thesis
    unfolding 1 connectionHeaders_def by (intro injectAuth_header_cong map_of_headerSets_cong)
qed

lemma upstream_query:
  assumes "buildRequest env c target (upstreamRequest g req (clCfg c)) = Inr h" "uRawQuery target = []"
  obtains q h0 where "hQuery h = snd (injectAuth (cAuth (clCfg c)) (h0, q))"
    "fst ` set q \<subseteq> fst ` set (qQuery req)"
proof -
  obtain h0 owned where "hQuery h = snd (injectAuth (cAuth (clCfg c))
      (h0, foldl (\<lambda>q (k, v). valuesSet q k v) [] (filterQuery (qQuery req) owned)))"
    using buildRequest_parts[OF assms(1)] assms(2) by (auto simp: upstreamRequest_def Let_def)
  moreover have "fst ` set (foldl (\<lambda>q (k, v). valuesSet q k v) [] (filterQuery (qQuery req) owned)) \<subseteq>
      fst ` set (qQuery req)"
    unfolding keys_valuesSets by (auto simp: filterQuery_def)
  ultimately show ?thesis using that by blast
qed

lemma wire_query_keys:
  assumes h: "buildRequest env c target (upstreamRequest g req (clCfg c)) = Inr h" "uRawQuery target = []"
    and name: "aType (cAuth (clCfg c)) = AuthQuery \<longrightarrow> aName (cAuth (clCfg c)) \<noteq> []"
    and k: "k \<in> fst ` set (hQuery h)"
  shows "k \<in> set (ownedQuery (ownedNames (cAuth (clCfg c)) (cHeaders (clCfg c)))) \<or>
    k \<in> fst ` set (qQuery req)"
  using h
proof (cases rule: upstream_query)
  case (1 q h0)
  have "aType (cAuth (clCfg c)) = AuthQuery \<and> k = aName (cAuth (clCfg c)) \<or> k \<in> fst ` set q"
    using k unfolding 1(1)
    by (cases "aType (cAuth (clCfg c))") (simp_all add: injectAuth_def keys_valuesSet)
  then show ?thesis using 1(2) name by (auto simp: ownedNames_def Let_def)
qed

lemma wire_query_values:
  assumes h: "buildRequest env c target (upstreamRequest g req (clCfg c)) = Inr h" "uRawQuery target = []"
    and k: "k \<in> set (ownedQuery (ownedNames (cAuth (clCfg c)) (cHeaders (clCfg c))))"
  shows "map_of (hQuery h) k = Some [aValue (cAuth (clCfg c))]"
  using h
proof (cases rule: upstream_query)
  case (1 q h0)
  have "aType (cAuth (clCfg c)) = AuthQuery \<and> k = aName (cAuth (clCfg c))"
    using k by (cases "aType (cAuth (clCfg c))") (simp_all add: ownedNames_def Let_def split: if_splits)
  then show ?thesis unfolding 1(1) by (simp add: injectAuth_def map_of_valuesSet)
qed

subsection \<open>Cache\<close>

text \<open>
  Identifiers as the loaders admit them: plugin and card ids have no colon, and a manifest digest is
  \<open>sha256:\<close> followed by hexadecimal digits.
\<close>

definition wellFormedIdent :: "Grant \<Rightarrow> bool" where
  "wellFormedIdent g =
     (CHR '':'' \<notin> set (PluginID g) \<and> CHR '':'' \<notin> set (InstanceID g) \<and>
      HasPrefix (ManifestDigest (Ident g)) ''sha256:'' \<and>
      CHR '':'' \<notin> set (drop 7 (ManifestDigest (Ident g))))"

lemma separator_unique:
  "a @ x # r = b @ x # t \<Longrightarrow> x \<notin> set a \<Longrightarrow> x \<notin> set b \<Longrightarrow> a = b \<and> r = t"
proof (induction a arbitrary: b)
  case Nil
  then show ?case by (cases b) auto
next
  case (Cons y a)
  then show ?case by (cases b) auto
qed

lemma cache_key_unique:
  assumes "wellFormedIdent g1" "wellFormedIdent g2"
    "cacheNamespace g1 @ '':'' @ k1 = cacheNamespace g2 @ '':'' @ k2"
  shows "PluginID g1 = PluginID g2 \<and> ManifestDigest (Ident g1) = ManifestDigest (Ident g2) \<and>
    InstanceID g1 = InstanceID g2 \<and> k1 = k2"
proof -
  define d1 where "d1 = drop 7 (ManifestDigest (Ident g1))"
  define d2 where "d2 = drop 7 (ManifestDigest (Ident g2))"
  have d: "ManifestDigest (Ident g1) = ''sha256:'' @ d1" "ManifestDigest (Ident g2) = ''sha256:'' @ d2"
    using assms(1,2) by (auto simp: wellFormedIdent_def HasPrefix_iff d1_def d2_def)
  have colon: "CHR '':'' \<notin> set d1" "CHR '':'' \<notin> set d2"
    using assms(1,2) by (simp_all add: wellFormedIdent_def d1_def d2_def)
  have pid: "CHR '':'' \<notin> set (PluginID g1)" "CHR '':'' \<notin> set (PluginID g2)"
    "CHR '':'' \<notin> set (InstanceID g1)" "CHR '':'' \<notin> set (InstanceID g2)"
    using assms(1,2) by (simp_all add: wellFormedIdent_def)
  have "PluginID g1 @ CHR '':'' # (''sha256:'' @ d1 @ CHR '':'' # InstanceID g1 @ CHR '':'' # k1) =
        PluginID g2 @ CHR '':'' # (''sha256:'' @ d2 @ CHR '':'' # InstanceID g2 @ CHR '':'' # k2)"
    using assms(3) by (simp add: cacheNamespace_def d)
  note 1 = separator_unique[OF this pid(1,2)]
  then have "d1 @ CHR '':'' # (InstanceID g1 @ CHR '':'' # k1) = d2 @ CHR '':'' # (InstanceID g2 @ CHR '':'' # k2)"
    by (simp only: same_append_eq)
  note 2 = separator_unique[OF this colon]
  then have "InstanceID g1 @ CHR '':'' # k1 = InstanceID g2 @ CHR '':'' # k2" by (rule conjunct2)
  from separator_unique[OF this pid(3,4)] 1 2 show ?thesis by (simp only: d)
qed

lemma memCacheGet_Put:
  "fst (memCacheGet t2 n2 k2 (memCachePut t1 n1 k1 v ttl items)) =
   (if n1 @ '':'' @ k1 = n2 @ '':'' @ k2 then (if ttl > 0 \<and> t2 > t1 + ttl then None else Some v)
    else fst (memCacheGet t2 n2 k2 items))"
  by (auto simp: memCacheGet_def memCachePut_def Let_def update_conv' split: option.splits)

subsection \<open>The whole HTTP call\<close>

text \<open>Every client of a registry belongs to a connection with the same configuration.\<close>

definition consistentRegistry :: "registry \<Rightarrow> bool" where
  "consistentRegistry r =
     (\<forall>cid c. clients r cid = Some c \<longrightarrow>
        (\<exists>conn. registryGet r cid = Some conn \<and> connHTTP conn = Some (clCfg c)))"

lemma brokerHTTP_sent_forward:
  assumes "brokerHTTP be env g req st = (res, st')" "bSent st' = bSent st @ [(cid, sent)]"
  obtains b conn cfg where "checkHTTP be g req (bBudget st) = (None, b)" "Slots g (qSlot req) = Some cid"
    "registryGet (beRegistry be) cid = Some conn" "connHTTP conn = Some cfg"
    "sent = snd (Do env (beRegistry be) (Some (redirectAuthorize (beMime be) g (qSlot req))) cid
       (upstreamRequest g req cfg))"
proof (cases rule: brokerHTTP_cases[of be g req st env])
  case (forward cid' b conn cfg)
  then have f: "brokerForward be env g req cid' cfg (st\<lparr>bBudget := b\<rparr>) = (res, st')" using assms(1) by simp
  from brokerForward_state[OF f] have "cid' = cid"
    "sent = snd (Do env (beRegistry be) (Some (redirectAuthorize (beMime be) g (qSlot req))) cid
       (upstreamRequest g req cfg))" using assms(2) by auto
  then show ?thesis using forward that by blast
qed (use assms in auto)

section \<open>Properties\<close>

definition exampleMime :: mimeLib where
  "exampleMime = \<lparr>ParseMediaType = (\<lambda>_. None), FormatMediaType = (\<lambda>t _. t)\<rparr>"

definition exampleRoute :: Route where
  "exampleRoute = \<lparr>roSlot = ''main'', roMethod = ''GET'', roPath = ''/*'', roUse = UseData,
     roQueryKeys = Some [], roContentType = [], roMaxBodyKB = 0\<rparr>"

definition exampleGrant :: Grant where
  "exampleGrant = \<lparr>PluginID = ''weather'', Version = ''1'', InstanceID = ''card'',
     Slots = [''main'' \<mapsto> ''c''], Caps = NewCapSet [''http'', ''cache''],
     ManifestRoutes = [exampleRoute], ApprovedRoutes = [exampleRoute],
     gConnectionPolicy = [''main'' \<mapsto> \<lparr>cpAllowedPaths = []\<rparr>],
     gLimits = \<lparr>HTTPRequests = 1, ResponseMB = 1, CacheEntries = 2, CacheBytesKB = 4, HostCalls = 3,
       RequestBodyKB = 0\<rparr>,
     Ident = \<lparr>SnapshotGen = 1, CardHash = [], ManifestDigest = ''sha256:ab'', ApprovalRevision = [],
       SlotRevisions = Map.empty\<rparr>\<rparr>"

definition exampleHTTPRequest :: HTTPRequest where
  "exampleHTTPRequest = \<lparr>qSlot = ''main'', qMethod = ''GET'', qPath = ''/a'', qQuery = [],
     qHeader = [(''Accept'', ''x''), (''Cookie'', ''y'')], qBody = None, qBodyLen = 0\<rparr>"

definition exampleBroker :: brokerEnv where
  "exampleBroker = \<lparr>beRegistry = exampleRegistry\<lparr>connections := [''c'' \<mapsto>
       \<lparr>connID = ''c'', connKind = KindHTTP, connHTTP = Some exampleConfig, connDocker = None\<rparr>]\<rparr>,
     beMime = exampleMime, beSink = None\<rparr>"

definition exampleState :: brokerState where
  "exampleState = \<lparr>bBudget = freshBudget, bCache = [], bAudit = NewMemAudit, bLog = [], bEvents = [],
     bSent = []\<rparr>"

text \<open>
  C8: the three policies are independent.  \<open>Authorize\<close> permits a request exactly when its path
  canonicalises and that canonical path is permitted by some manifest route, by some approved route
  and by the connection's \<open>allowedPaths\<close>, each judged on its own; a route permits when slot, use and
  method agree, the glob matches, the query keys are listed, the content type agrees and the body fits.
\<close>

theorem Authorize_three_policies:
  "Authorize mime g req use = None \<longleftrightarrow>
   (\<exists>c. Canonicalise (qPath req) = Inr c \<and>
     (\<exists>r\<in>set (ManifestRoutes g). routePermits mime (RequestBodyKB (gLimits g)) req c use r) \<and>
     (\<exists>r\<in>set (ApprovedRoutes g). routePermits mime (RequestBodyKB (gLimits g)) req c use r) \<and>
     (\<forall>policy. gConnectionPolicy g (qSlot req) = Some policy \<longrightarrow> cpAllowedPaths policy \<noteq> [] \<longrightarrow>
       (\<exists>a\<in>set (cpAllowedPaths policy). \<exists>q. Canonicalise a = Inr q \<and>
          prefix (pathSegments q) (pathSegments c))))"
  by (rule Authorize_iff)

theorem Authorize_three_policies_witness:
  "\<exists>c. Canonicalise ''/a'' = Inr c \<and>
    (\<exists>r\<in>{exampleRoute}. routePermits exampleMime 0 exampleHTTPRequest c UseData r)"
proof -
  have "Authorize exampleMime exampleGrant exampleHTTPRequest UseData = None" by code_simp
  then show ?thesis
    unfolding Authorize_three_policies by (auto simp: exampleGrant_def exampleHTTPRequest_def)
qed



text \<open>
  C38: a denied call has no effect.  When the checks of a host call fail, the network, the cache,
  the log and the event sink are untouched; only the budget and the audit change, and the audit
  counts exactly one more denial, for the calling plugin.
\<close>

theorem denied_call_has_no_effect:
  assumes "checkCall be g call (bBudget st) = (Some e, b)"
  shows "(\<exists>m. brokerStep be g call st = st\<lparr>bBudget := b, bAudit := Denied (PluginID g) m e (bAudit st)\<rparr>) \<and>
    Total (bAudit (brokerStep be g call st)) p =
      Total (bAudit st) p + (if p = PluginID g then 1 else 0)"
proof -
  have "\<exists>m. brokerStep be g call st = st\<lparr>bBudget := b, bAudit := Denied (PluginID g) m e (bAudit st)\<rparr>"
    using assms
    by (cases call)
      (auto simp: brokerHTTP_def brokerCacheGet_def brokerCachePut_def AssetRef_def brokerLog_def brokerEmit_def
        brokerAuthorize_denied)
  then show ?thesis by (auto simp: Denied_Total)
qed

theorem denied_call_has_no_effect_witness:
  "bSent (brokerStep exampleBroker exampleGrant (CallLog ''info'' ''m'' []) exampleState) = [] \<and>
   Total (bAudit (brokerStep exampleBroker exampleGrant (CallLog ''info'' ''m'' []) exampleState)) ''weather'' = 1"
proof -
  have c: "checkCall exampleBroker exampleGrant (CallLog ''info'' ''m'' []) (bBudget exampleState) =
      (Some ErrCapDenied, freshBudget)" by code_simp
  have "PluginID exampleGrant = ''weather''" "Total (bAudit exampleState) ''weather'' = 0"
    "bSent exampleState = []" by code_simp+
  with denied_call_has_no_effect[OF c, of "''weather''"] show ?thesis by auto
qed

text \<open>
  C2: nothing reaches the network without authority.  If \<open>HTTP\<close> sent requests to connection \<open>cid\<close>,
  the grant has the capability, binds the slot to \<open>cid\<close> and authorises the request, and the same
  \<open>Authorize\<close> accepted every followed redirect, for the path relative to the base URL.
\<close>

theorem brokerHTTP_authorised:
  assumes "brokerHTTP be env g req st = (res, st')" "bSent st' = bSent st @ [(cid, sent)]"
    and "clients (beRegistry be) cid = Some c"
  shows "Has (Caps g) ''http'' \<and> Slots g (qSlot req) = Some cid \<and>
    Authorize (beMime be) g req UseData = None \<and>
    list_all (\<lambda>d. \<exists>b rel. canonicalBasePath (clBase c) = Inr b \<and>
        Canonicalise (uPath (hURL d)) = Inr (joinCanonical b rel) \<and>
        redirectAuthorize (beMime be) g (qSlot req)
          (redirectRequest d rel (cAuth (clCfg c)) (cHeaders (clCfg c)))) (tl sent)"
  using assms(1,2)
proof (cases rule: brokerHTTP_sent_forward)
  case (1 b conn cfg)
  obtain r where d: "Do env (beRegistry be) (Some (redirectAuthorize (beMime be) g (qSlot req))) cid
      (upstreamRequest g req cfg) = (r, sent)" using 1(5) by (metis prod.collapse)
  have "list_all (\<lambda>d. \<exists>v. redirectPolicy c (Some (redirectAuthorize (beMime be) g (qSlot req))) d v = None)
      (tl sent)"
  proof (cases "sent = []")
    case False
    show ?thesis using assms(3) d False by (cases rule: Do_first_request) auto
  qed simp
  then have "list_all (\<lambda>d. \<exists>b rel. canonicalBasePath (clBase c) = Inr b \<and>
        Canonicalise (uPath (hURL d)) = Inr (joinCanonical b rel) \<and>
        redirectAuthorize (beMime be) g (qSlot req)
          (redirectRequest d rel (cAuth (clCfg c)) (cHeaders (clCfg c)))) (tl sent)"
    by (rule list.pred_mono_strong) (use redirect_authorised in blast)
  then show ?thesis using checkHTTP_ok[OF 1(1)] 1(2) by simp
qed

definition exampleSent :: "string \<Rightarrow> httpRequest" where
  "exampleSent path = \<lparr>hMethod = ''GET'', hURL = exampleBase\<lparr>uPath := path\<rparr>, hQuery = [],
     hHeader = [(''Accept'', [''x'']), (''Authorization'', [''Bearer t''])], hBody = None, hContentLength = 0\<rparr>"

lemma exampleBrokerHTTP:
  obtains res st' where "brokerHTTP exampleBroker exampleEnv exampleGrant exampleHTTPRequest exampleState = (res, st')"
    "bSent st' = bSent exampleState @ [(''c'', [exampleSent ''/api/a'', exampleSent ''/api/b''])]"
    "clients (beRegistry exampleBroker) ''c'' = Some exampleClient"
proof -
  have "bSent (snd (brokerHTTP exampleBroker exampleEnv exampleGrant exampleHTTPRequest exampleState)) =
      [(''c'', [exampleSent ''/api/a'', exampleSent ''/api/b''])]" by code_simp
  moreover have "clients (beRegistry exampleBroker) ''c'' = Some exampleClient"
    by (simp add: exampleBroker_def exampleRegistry_def)
  ultimately show ?thesis
    using that by (cases "brokerHTTP exampleBroker exampleEnv exampleGrant exampleHTTPRequest exampleState")
      (simp add: exampleState_def)
qed

theorem brokerHTTP_authorised_witness:
  "Has (Caps exampleGrant) ''http'' \<and> Slots exampleGrant (qSlot exampleHTTPRequest) = Some ''c'' \<and>
   Authorize (beMime exampleBroker) exampleGrant exampleHTTPRequest UseData = None"
proof (rule exampleBrokerHTTP)
  fix res st'
  assume "brokerHTTP exampleBroker exampleEnv exampleGrant exampleHTTPRequest exampleState = (res, st')"
    "bSent st' = bSent exampleState @ [(''c'', [exampleSent ''/api/a'', exampleSent ''/api/b''])]"
    "clients (beRegistry exampleBroker) ''c'' = Some exampleClient"
  from brokerHTTP_authorised[OF this] show ?thesis by blast
qed

text \<open>
  C32: a plugin can neither read nor set what a connection owns.  In the first request on the wire
  every header is owned by the connection or on the allowlist, every query key is owned or was asked
  for, and an owned header or key carries the connection's value whatever the plugin supplied.
\<close>

theorem brokerHTTP_ownership:
  assumes "brokerHTTP be env g req st = (res, st')" "bSent st' = bSent st @ [(cid, h # ds)]"
    and "consistentRegistry (beRegistry be)" "clients (beRegistry be) cid = Some c"
    and "aType (cAuth (clCfg c)) \<in> {AuthHeader, AuthQuery} \<longrightarrow> aName (cAuth (clCfg c)) \<noteq> []"
  shows "(\<forall>k. (k \<in> fst ` set (hHeader h) \<longrightarrow>
        map lower_byte k \<in> set (ownedHeader (ownedNames (cAuth (clCfg c)) (cHeaders (clCfg c)))) \<or>
        canonicalHeaderCase (map lower_byte k) \<in> set pluginHeaderAllowlist) \<and>
      (map lower_byte k \<in> set (ownedHeader (ownedNames (cAuth (clCfg c)) (cHeaders (clCfg c)))) \<longrightarrow>
        map_of (hHeader h) k = map_of (connectionHeaders (clCfg c)) k) \<and>
      (k \<in> fst ` set (hQuery h) \<longrightarrow>
        k \<in> set (ownedQuery (ownedNames (cAuth (clCfg c)) (cHeaders (clCfg c)))) \<or>
        k \<in> fst ` set (qQuery req)) \<and>
      (k \<in> set (ownedQuery (ownedNames (cAuth (clCfg c)) (cHeaders (clCfg c)))) \<longrightarrow>
        map_of (hQuery h) k = Some [aValue (cAuth (clCfg c))]))"
  using assms(1,2)
proof (cases rule: brokerHTTP_sent_forward)
  case (1 b conn cfg)
  have cfg: "cfg = clCfg c"
    using 1(3,4) assms(3,4) unfolding consistentRegistry_def by (metis option.inject)
  obtain r where d: "Do env (beRegistry be) (Some (redirectAuthorize (beMime be) g (qSlot req))) cid
      (upstreamRequest g req (clCfg c)) = (r, h # ds)" using 1(5) cfg by (metis prod.collapse)
  have p: "qPath req \<noteq> []"
    using checkHTTP_ok[OF 1(1)] by (auto simp: Authorize_def Canonicalise_def HasPrefix_def)
  have "h # ds \<noteq> []" by simp
  from assms(4) d this obtain target where t: "joinPath (clBase c) (qPath req) = Inr target"
    and h: "buildRequest env c target (upstreamRequest g req (clCfg c)) = Inr h"
    by (cases rule: Do_first_request) (auto simp: upstreamRequest_def Let_def)
  have raw: "uRawQuery target = []" using joinPath_segments[OF t p] by blast
  show ?thesis
    using wire_header_keys[OF h] wire_header_values[OF h] wire_query_keys[OF h raw] wire_query_values[OF h raw]
      assms(5) by blast
qed

theorem brokerHTTP_ownership_witness:
  "map_of (hHeader (exampleSent ''/api/a'')) ''Authorization'' =
     map_of (connectionHeaders (clCfg exampleClient)) ''Authorization''"
proof (rule exampleBrokerHTTP)
  fix res st'
  assume r: "brokerHTTP exampleBroker exampleEnv exampleGrant exampleHTTPRequest exampleState = (res, st')"
    "bSent st' = bSent exampleState @ [(''c'', [exampleSent ''/api/a'', exampleSent ''/api/b''])]"
    "clients (beRegistry exampleBroker) ''c'' = Some exampleClient"
  have con: "consistentRegistry (beRegistry exampleBroker)"
    by (simp add: consistentRegistry_def exampleBroker_def exampleRegistry_def registryGet_def exampleClient_def)
  have own: "map lower_byte ''Authorization'' \<in>
      set (ownedHeader (ownedNames (cAuth (clCfg exampleClient)) (cHeaders (clCfg exampleClient))))"
    "aType (cAuth (clCfg exampleClient)) = AuthBearer" by code_simp+
  from brokerHTTP_ownership[OF r(1,2) con r(3)] own show ?thesis by simp
qed

text \<open>
  C39: the cache keeps plugins apart.  What one grant stores is returned to it until it expires, and
  it is invisible to a grant of another plugin, manifest digest or card, whatever keys they use.
\<close>

theorem cache_isolation:
  assumes "wellFormedIdent g1" "wellFormedIdent g2"
  shows "fst (memCacheGet t2 (cacheNamespace g2) k2 (memCachePut t1 (cacheNamespace g1) k1 v ttl items)) =
    (if PluginID g1 = PluginID g2 \<and> ManifestDigest (Ident g1) = ManifestDigest (Ident g2) \<and>
        InstanceID g1 = InstanceID g2 \<and> k1 = k2
     then (if ttl > 0 \<and> t2 > t1 + ttl then None else Some v)
     else fst (memCacheGet t2 (cacheNamespace g2) k2 items))"
proof -
  have "cacheNamespace g1 @ '':'' @ k1 = cacheNamespace g2 @ '':'' @ k2 \<longleftrightarrow>
      PluginID g1 = PluginID g2 \<and> ManifestDigest (Ident g1) = ManifestDigest (Ident g2) \<and>
      InstanceID g1 = InstanceID g2 \<and> k1 = k2"
    by (rule iffI, erule cache_key_unique[OF assms]) (simp add: cacheNamespace_def)
  then show ?thesis by (simp only: memCacheGet_Put)
qed

theorem cache_isolation_witness:
  "fst (memCacheGet 5 (cacheNamespace (exampleGrant\<lparr>InstanceID := ''other''\<rparr>)) ''k''
     (memCachePut 1 (cacheNamespace exampleGrant) ''k'' ''v'' 10 [])) = None"
proof -
  have "wellFormedIdent exampleGrant" "wellFormedIdent (exampleGrant\<lparr>InstanceID := ''other''\<rparr>)"
    "InstanceID exampleGrant = ''card''" by code_simp+
  with cache_isolation[of exampleGrant "exampleGrant\<lparr>InstanceID := ''other''\<rparr>" 5 "''k''" 1 "''k''" "''v''" 10 "[]"]
  show ?thesis by (simp add: memCacheGet_def)
qed

end
