(* ===== verification/Widgets.thy ===== *)
theory Widgets
  imports Complex_Main Prelude "HOL-Library.AList"
begin

text \<open>
  Package \<open>internal/widgets\<close>: the widget document, the only artefact an integration produces.  Every
  Go string type (\<open>Level\<close>, \<open>Format\<close>, ...) is \<open>string\<close>, a \<open>float64\<close> is a rational number, a
  pointer or an absent value is an option, and a Go map is an association list.  The closed union of
  block types is a datatype with one constructor for each.  Validation against the JSON schema is
  the work of a library and is not part of this theory.
\<close>

datatype Scalar = SString string | SNumber rat | SBool bool | SNil

record Status =
  stLevel :: string
  stText :: string
  stSince :: string

record Signal =
  sigValue :: Scalar
  sigUnit :: string
  sigLevel :: string

record Notice =
  noLevel :: string
  noMessage :: string

record Hints =
  TTLSeconds :: int

record Image =
  imRef :: string
  imAlt :: string
  imAspect :: string
  imBlurhash :: string

record MetricItem =
  miLabel :: string
  miValue :: Scalar
  miFormat :: string
  miUnit :: string
  miLevel :: string
  miIcon :: string
  miLink :: string

record ProgressItem =
  piLabel :: string
  piProgress :: rat
  piValue :: Scalar
  piFormat :: string
  piLevel :: string

record StatusItem =
  siLabel :: string
  siLevel :: string
  siText :: string
  siSince :: string
  siLink :: string

record ListItem =
  liID :: string
  liTitle :: string
  liSubtitle :: string
  liValue :: Scalar
  liFormat :: string
  liLevel :: string
  liIcon :: string
  liImage :: "Image option"
  liLink :: string
  liTimestamp :: string

record MediaItem =
  meID :: string
  meImage :: Image
  meTitle :: string
  meSubtitle :: string
  meBadge :: string
  meLevel :: string
  meLink :: string
  meTimestamp :: string

record TableColumn =
  tcKey :: string
  tcLabel :: string
  tcFormat :: string
  tcAlign :: string

record Action =
  acID :: string
  acLabel :: string
  acIcon :: string
  acConfirm :: bool
  acDanger :: bool

record SeriesPoint =
  spT :: string
  spV :: "rat option"

record SeriesLine =
  slLabel :: string
  slLevel :: string
  slPoints :: "SeriesPoint list"

record HistoryLine =
  hlSignal :: string
  hlLabel :: string
  hlLevel :: string

record SeriesHistory =
  shWindow :: string
  shLines :: "HistoryLine list"

record BlockMetrics =
  bmTitle :: string
  bmEmphasis :: string
  bmColumns :: int
  bmItems :: "MetricItem list"

record BlockKeyValue =
  bkTitle :: string
  bkEmphasis :: string
  bkItems :: "MetricItem list"

record BlockProgress =
  bpTitle :: string
  bpEmphasis :: string
  bpItems :: "ProgressItem list"

record BlockStatus =
  bsTitle :: string
  bsEmphasis :: string
  bsItems :: "StatusItem list"

record BlockList =
  blTitle :: string
  blEmphasis :: string
  blEmpty :: string
  blItems :: "ListItem list"

record BlockMedia =
  bdKind :: string
  bdTitle :: string
  bdEmphasis :: string
  bdColumns :: int
  bdEmpty :: string
  bdItems :: "MediaItem list"

record BlockText =
  btKind :: string
  btTitle :: string
  btEmphasis :: string
  btLevel :: string
  btContent :: string

record BlockTable =
  baTitle :: string
  baEmphasis :: string
  baColumns :: "TableColumn list"
  baRows :: "(string \<times> Scalar) list list"

record BlockActions =
  bcTitle :: string
  bcEmphasis :: string
  bcActions :: "Action list"

record BlockSeries =
  seTitle :: string
  seEmphasis :: string
  seFormat :: string
  seUnit :: string
  seMin :: "rat option"
  seMax :: "rat option"
  seSeries :: "SeriesLine list"
  seHistory :: "SeriesHistory option"

datatype Block =
    Metrics BlockMetrics
  | KeyValue BlockKeyValue
  | Progress BlockProgress
  | Statuses BlockStatus
  | Items BlockList
  | Media BlockMedia
  | Text BlockText
  | Table BlockTable
  | Actions BlockActions
  | Series BlockSeries

record Document =
  docTitle :: string
  docSubtitle :: string
  docLink :: string
  docStatus :: "Status option"
  docBlocks :: "Block list"
  docSignals :: "(string \<times> Signal) list"
  docNotices :: "Notice list"
  docHints :: "Hints option"

text \<open>Durations in nanoseconds.\<close>

definition Second :: int where "Second = 1000000000"
definition Minute :: int where "Minute = 60 * Second"
definition Hour :: int where "Hour = 60 * Minute"

definition HistoryWindows :: "(string \<times> int) list" where
  "HistoryWindows = [(''1h'', Hour), (''6h'', 6 * Hour), (''24h'', 24 * Hour), (''7d'', 7 * 24 * Hour)]"

definition blockBindings :: "Block \<Rightarrow> (string \<times> int) list" where
  "blockBindings b =
     (case b of
        Series s \<Rightarrow>
          (case seHistory s of
             None \<Rightarrow> []
           | Some h \<Rightarrow>
               let window = (case map_of HistoryWindows (shWindow h) of
                               None \<Rightarrow> 24 * Hour | Some w \<Rightarrow> w)
               in map (\<lambda>line. (hlSignal line, window)) (shLines h))
      | _ \<Rightarrow> [])"

definition HistoryBindings :: "Document \<Rightarrow> (string \<times> int) list" where
  "HistoryBindings doc =
     foldl (\<lambda>out (signal, window). AList.update signal window out) []
       (concat (map blockBindings (docBlocks doc)))"

definition emptyDocument :: Document where
  "emptyDocument = \<lparr>docTitle = [], docSubtitle = [], docLink = [], docStatus = None, docBlocks = [],
     docSignals = [], docNotices = [], docHints = None\<rparr>"

end
