(* ===== verification/Secrets.thy ===== *)
theory Secrets
  imports Widgets
begin

text \<open>
  Package \<open>internal/secrets\<close>: the registry of known secret values (\<open>scrub.go\<close>), the log scrubber and
  the walker that looks for a secret in a produced document (\<open>document.go\<close>).  The set of values is a
  list without repetitions; Go iterates over it in an arbitrary order, so the theorems hold for
  every list.
\<close>

section \<open>Scrubbing\<close>

text \<open>\<open>strings.ReplaceAll\<close> for a non-empty \<open>old\<close>; the sources never replace an empty string.\<close>

function ReplaceAll :: "string \<Rightarrow> string \<Rightarrow> string \<Rightarrow> string" where
  "ReplaceAll s old new =
     (if old = [] then s
      else (case Index s old of
              None \<Rightarrow> s
            | Some i \<Rightarrow> take i s @ new @ ReplaceAll (drop (i + length old) s) old new))"
  by pat_completeness auto

termination
  by (relation "measure (\<lambda>(s, _, _). length s)") (auto dest!: Index_length simp: neq_Nil_conv)

declare ReplaceAll.simps [simp del]

definition minScrubLength :: nat where
  "minScrubLength = 8"

definition redacted :: string where
  "redacted = ''***''"

type_synonym Registry = "string list"

definition Track :: "string \<Rightarrow> Registry \<Rightarrow> Registry" where
  "Track v vs = (if length v < minScrubLength then vs else List.insert v vs)"

definition Scrub :: "Registry \<Rightarrow> string \<Rightarrow> string" where
  "Scrub vs s = foldl (\<lambda>s v. if Contains s v then ReplaceAll s v redacted else s) s vs"

definition ContainsSecret :: "Registry \<Rightarrow> string \<Rightarrow> bool" where
  "ContainsSecret vs s = list_ex (\<lambda>v. Contains s v) vs"

text \<open>
  A log attribute after \<open>Resolve\<close>: a string, a group, or a value of another kind (a number, a
  time, an \<open>error\<close>) given by the text the next handler prints for it.
\<close>

datatype Attr = StringAttr string string | GroupAttr string "Attr list" | OtherAttr string string

fun scrubAttr :: "Registry \<Rightarrow> Attr \<Rightarrow> Attr" where
  "scrubAttr r (StringAttr key v) = StringAttr key (Scrub r v)"
| "scrubAttr r (GroupAttr key attrs) = GroupAttr key (map (scrubAttr r) attrs)"
| "scrubAttr r (OtherAttr key v) = OtherAttr key v"

section \<open>The document walker\<close>

definition containsAny :: "Registry \<Rightarrow> string list \<Rightarrow> bool" where
  "containsAny r texts = list_ex (ContainsSecret r) texts"

definition scalarLeaks :: "Registry \<Rightarrow> Scalar \<Rightarrow> bool" where
  "scalarLeaks r v = (case v of SString s \<Rightarrow> ContainsSecret r s | _ \<Rightarrow> False)"

definition imageLeaks :: "Registry \<Rightarrow> Image option \<Rightarrow> bool" where
  "imageLeaks r img = (case img of None \<Rightarrow> False | Some i \<Rightarrow> ContainsSecret r (imAlt i))"

definition metricItemsLeak :: "Registry \<Rightarrow> MetricItem list \<Rightarrow> bool" where
  "metricItemsLeak r items =
     list_ex (\<lambda>it. containsAny r [miLabel it, miUnit it, miLink it] \<or> scalarLeaks r (miValue it)) items"

fun blockLeaks :: "Registry \<Rightarrow> Block \<Rightarrow> bool" where
  "blockLeaks r (Metrics v) = (containsAny r [bmTitle v] \<or> metricItemsLeak r (bmItems v))"
| "blockLeaks r (KeyValue v) = (containsAny r [bkTitle v] \<or> metricItemsLeak r (bkItems v))"
| "blockLeaks r (Progress v) =
     (if containsAny r [bpTitle v] then True
      else list_ex (\<lambda>it. containsAny r [piLabel it] \<or> scalarLeaks r (piValue it)) (bpItems v))"
| "blockLeaks r (Statuses v) =
     (if containsAny r [bsTitle v] then True
      else list_ex (\<lambda>it. containsAny r [siLabel it, siText it, siLink it]) (bsItems v))"
| "blockLeaks r (Items v) =
     (if containsAny r [blTitle v, blEmpty v] then True
      else list_ex (\<lambda>it. containsAny r [liTitle it, liSubtitle it, liLink it] \<or>
             scalarLeaks r (liValue it) \<or> imageLeaks r (liImage it)) (blItems v))"
| "blockLeaks r (Media v) =
     (if containsAny r [bdTitle v, bdEmpty v] then True
      else list_ex (\<lambda>it. containsAny r [meTitle it, meSubtitle it, meBadge it, meLink it] \<or>
             imageLeaks r (Some (meImage it))) (bdItems v))"
| "blockLeaks r (Text v) = containsAny r [btTitle v, btContent v]"
| "blockLeaks r (Table v) =
     (if containsAny r [baTitle v] then True
      else if list_ex (\<lambda>c. containsAny r [tcLabel c]) (baColumns v) then True
      else list_ex (\<lambda>row. list_ex (\<lambda>(_, cell). scalarLeaks r cell) row) (baRows v))"
| "blockLeaks r (Actions v) =
     (if containsAny r [bcTitle v] then True
      else list_ex (\<lambda>a. containsAny r [acLabel a]) (bcActions v))"
| "blockLeaks r (Series v) =
     (if containsAny r [seTitle v, seUnit v] then True
      else if list_ex (\<lambda>line. containsAny r [slLabel line]) (seSeries v) then True
      else (case seHistory v of
              None \<Rightarrow> False
            | Some h \<Rightarrow> list_ex (\<lambda>line. containsAny r [hlLabel line]) (shLines h)))"

definition ContainsSecretInDocument :: "Registry \<Rightarrow> Document \<Rightarrow> bool" where
  "ContainsSecretInDocument r doc =
     (if containsAny r [docTitle doc, docSubtitle doc, docLink doc] then True
      else if (case docStatus doc of None \<Rightarrow> False | Some s \<Rightarrow> ContainsSecret r (stText s)) then True
      else if list_ex (\<lambda>n. ContainsSecret r (noMessage n)) (docNotices doc) then True
      else if list_ex (\<lambda>(_, sig). scalarLeaks r (sigValue sig)) (docSignals doc) then True
      else list_ex (blockLeaks r) (docBlocks doc))"

section \<open>What is scanned\<close>

text \<open>
  The strings the walker looks at, as one list.  It is a device of the proofs, not a specification: strings
  that the walker leaves out (identities, icons, image references, table keys) are left out here too.
\<close>

definition scalarText :: "Scalar \<Rightarrow> string list" where
  "scalarText v = (case v of SString s \<Rightarrow> [s] | _ \<Rightarrow> [])"

definition metricText :: "MetricItem \<Rightarrow> string list" where
  "metricText it = [miLabel it, miUnit it, miLink it] @ scalarText (miValue it)"

fun blockText :: "Block \<Rightarrow> string list" where
  "blockText (Metrics v) = bmTitle v # concat (map metricText (bmItems v))"
| "blockText (KeyValue v) = bkTitle v # concat (map metricText (bkItems v))"
| "blockText (Progress v) = bpTitle v # concat (map (\<lambda>it. piLabel it # scalarText (piValue it)) (bpItems v))"
| "blockText (Statuses v) = bsTitle v # concat (map (\<lambda>it. [siLabel it, siText it, siLink it]) (bsItems v))"
| "blockText (Items v) =
     [blTitle v, blEmpty v] @
     concat (map (\<lambda>it. [liTitle it, liSubtitle it, liLink it] @ scalarText (liValue it) @
                    (case liImage it of None \<Rightarrow> [] | Some i \<Rightarrow> [imAlt i])) (blItems v))"
| "blockText (Media v) =
     [bdTitle v, bdEmpty v] @
     concat (map (\<lambda>it. [meTitle it, meSubtitle it, meBadge it, meLink it, imAlt (meImage it)]) (bdItems v))"
| "blockText (Text v) = [btTitle v, btContent v]"
| "blockText (Table v) =
     baTitle v # map tcLabel (baColumns v) @ concat (map (\<lambda>row. concat (map (\<lambda>(_, cell). scalarText cell) row)) (baRows v))"
| "blockText (Actions v) = bcTitle v # map acLabel (bcActions v)"
| "blockText (Series v) =
     [seTitle v, seUnit v] @ map slLabel (seSeries v) @
     (case seHistory v of None \<Rightarrow> [] | Some h \<Rightarrow> map hlLabel (shLines h))"

definition scannedText :: "Document \<Rightarrow> string list" where
  "scannedText doc =
     [docTitle doc, docSubtitle doc, docLink doc] @
     (case docStatus doc of None \<Rightarrow> [] | Some s \<Rightarrow> [stText s]) @
     map noMessage (docNotices doc) @
     concat (map (\<lambda>(_, sig). scalarText (sigValue sig)) (docSignals doc)) @
     concat (map blockText (docBlocks doc))"

text \<open>The strings that can reach a log line through one attribute's value.\<close>

fun attrStrings :: "Attr \<Rightarrow> string list" where
  "attrStrings (StringAttr key v) = [v]"
| "attrStrings (GroupAttr key attrs) = concat (map attrStrings attrs)"
| "attrStrings (OtherAttr key v) = []"

definition exampleSecret :: string where
  "exampleSecret = ''hunter2hunter2''"

definition exampleList :: "string \<Rightarrow> string \<Rightarrow> Document" where
  "exampleList ident title = emptyDocument\<lparr>docBlocks := [Items \<lparr>blTitle = [], blEmphasis = [], blEmpty = [],
     blItems = [\<lparr>liID = ident, liTitle = title, liSubtitle = [], liValue = SNil, liFormat = [], liLevel = [],
       liIcon = [], liImage = None, liLink = [], liTimestamp = []\<rparr>]\<rparr>]\<rparr>"

section \<open>Scrubbing removes every secret\<close>

lemma Contains_separated:
  assumes "Contains (A @ c # R) v" and "c \<notin> set v"
  shows "Contains A v \<or> Contains R v"
proof -
  obtain u r where eq: "A @ c # R = u @ v @ r" using assms(1) by (auto simp: Contains_iff)
  consider x where "A = u @ x" "v @ r = x @ c # R" | x where "u = A @ x" "c # R = x @ v @ r"
    using eq unfolding append_eq_append_conv2 by metis
  then show ?thesis
  proof cases
    case 1
    then consider y where "x = v @ y" | y where "v = x @ y \<and> c # R = y @ r"
      unfolding append_eq_append_conv2 by metis
    then show ?thesis
    proof cases
      case (1 y)
      then show ?thesis using \<open>A = u @ x\<close> by (auto simp: Contains_iff)
    next
      case (2 y)
      then have "y = [] \<and> v = x" using assms(2) by (cases y) auto
      then show ?thesis using \<open>A = u @ x\<close> by (auto simp: Contains_iff intro: exI[of _ "[]"])
    qed
  next
    case 2
    show ?thesis
    proof (cases x)
      case Nil
      then have "v = []" using 2 assms(2) by (cases v) auto
      then show ?thesis by (metis Contains_iff append_Nil)
    next
      case (Cons d x')
      then show ?thesis using 2 by (auto simp: Contains_iff)
    qed
  qed
qed

lemma Contains_around_redacted:
  assumes "Contains (A @ redacted @ R) v" and "v \<noteq> []" and "CHR ''*'' \<notin> set v"
  shows "Contains A v \<or> Contains R v"
proof -
  have strip: "Contains Q v" if "Contains (CHR ''*'' # Q) v" for Q
    using Contains_separated[of "[]" _ Q v] that assms(2,3) by (auto simp: Contains_iff)
  have "Contains A v \<or> Contains (CHR ''*'' # CHR ''*'' # R) v"
    using Contains_separated[of A _ "CHR ''*'' # CHR ''*'' # R"] assms by (simp add: redacted_def)
  then show ?thesis by (auto dest: strip)
qed

lemma Contains_take: "Contains (take i s) v \<Longrightarrow> Contains s v"
  unfolding Contains_iff by (metis append_assoc append_take_drop_id)

lemma Contains_drop: "Contains (drop i s) v \<Longrightarrow> Contains s v"
  unfolding Contains_iff by (metis append_assoc append_take_drop_id)

lemma ReplaceAll_keeps_absence:
  assumes "v \<noteq> []" and "CHR ''*'' \<notin> set v"
  shows "Contains (ReplaceAll s old redacted) v \<Longrightarrow> Contains s v"
proof (induction s old redacted rule: ReplaceAll.induct)
  case (1 s old)
  show ?case
  proof (cases "old = [] \<or> Index s old = None")
    case True
    then have "ReplaceAll s old redacted = s" by (auto simp: ReplaceAll.simps[of s])
    then show ?thesis using 1(2) by simp
  next
    case False
    then obtain i where i: "old \<noteq> []" "Index s old = Some i" by auto
    then have "Contains (take i s @ redacted @ ReplaceAll (drop (i + length old) s) old redacted) v"
      using 1(2) by (simp add: ReplaceAll.simps[of s])
    then have "Contains (take i s) v \<or> Contains (ReplaceAll (drop (i + length old) s) old redacted) v"
      using assms by (rule Contains_around_redacted)
    then show ?thesis using 1(1)[OF i] Contains_take Contains_drop by blast
  qed
qed

lemma ReplaceAll_removes:
  assumes "old \<noteq> []" and "CHR ''*'' \<notin> set old"
  shows "\<not> Contains (ReplaceAll s old redacted) old"
  using assms
proof (induction s old redacted rule: ReplaceAll.induct)
  case (1 s old)
  show ?case
  proof (cases "Index s old")
    case None
    then show ?thesis using 1(2) by (simp add: ReplaceAll.simps[of s] Contains_def)
  next
    case (Some i)
    have "\<not> Contains (take i s) old" using Index_first[OF Some 1(2)] by (simp add: Contains_iff)
    then show ?thesis
      using 1(1)[OF 1(2) Some 1(2,3)] Contains_around_redacted[OF _ 1(2,3)] Some 1(2)
      by (auto simp: ReplaceAll.simps[of s])
  qed
qed

lemma Scrub_step_keeps_absence:
  "v \<noteq> [] \<Longrightarrow> CHR ''*'' \<notin> set v \<Longrightarrow> \<not> Contains s v \<Longrightarrow> \<not> Contains (Scrub vs s) v"
  by (induction vs arbitrary: s) (auto simp: Scrub_def dest: ReplaceAll_keeps_absence)

lemma Scrub_Cons:
  "Scrub (w # vs) s = Scrub vs (if Contains s w then ReplaceAll s w redacted else s)"
  by (simp add: Scrub_def)

lemma Scrub_removes:
  "v \<in> set vs \<Longrightarrow> v \<noteq> [] \<Longrightarrow> CHR ''*'' \<notin> set v \<Longrightarrow> \<not> Contains (Scrub vs s) v"
proof (induction vs arbitrary: s)
  case (Cons w vs)
  then show ?case
    by (cases "v = w") (auto simp: Scrub_Cons ReplaceAll_removes Scrub_step_keeps_absence)
qed simp

lemma Track_long: "list_all (\<lambda>v. minScrubLength \<le> length v) vs \<Longrightarrow>
    list_all (\<lambda>v. minScrubLength \<le> length v) (Track w vs)"
  by (auto simp: Track_def list_all_iff)

lemma containsAny_append: "containsAny r (xs @ ys) \<longleftrightarrow> containsAny r xs \<or> containsAny r ys"
  by (simp add: containsAny_def)

lemma containsAny_Cons: "containsAny r (x # xs) \<longleftrightarrow> ContainsSecret r x \<or> containsAny r xs"
  by (simp add: containsAny_def)

lemma containsAny_Nil: "\<not> containsAny r []"
  by (simp add: containsAny_def)

lemma containsAny_concat: "containsAny r (concat xss) \<longleftrightarrow> list_ex (containsAny r) xss"
  by (induction xss) (auto simp: containsAny_append containsAny_Nil)

lemma containsAny_map: "containsAny r (map f xs) \<longleftrightarrow> list_ex (\<lambda>x. ContainsSecret r (f x)) xs"
  by (induction xs) (auto simp: containsAny_Cons containsAny_Nil)

lemma list_ex_map: "list_ex P (map f xs) \<longleftrightarrow> list_ex (\<lambda>x. P (f x)) xs"
  by (simp add: list_ex_iff)

lemma scalarLeaks_text: "scalarLeaks r v \<longleftrightarrow> containsAny r (scalarText v)"
  by (cases v) (auto simp: scalarLeaks_def scalarText_def containsAny_def)

lemma imageLeaks_text:
  "imageLeaks r img \<longleftrightarrow> containsAny r (case img of None \<Rightarrow> [] | Some i \<Rightarrow> [imAlt i])"
  by (cases img) (auto simp: imageLeaks_def containsAny_def)

lemma metricItemsLeak_text: "metricItemsLeak r items \<longleftrightarrow> containsAny r (concat (map metricText items))"
  by (simp add: metricItemsLeak_def metricText_def containsAny_concat containsAny_Cons containsAny_Nil scalarLeaks_text
        list_ex_map)

lemmas contains_text = containsAny_append containsAny_Cons containsAny_Nil containsAny_concat
  containsAny_map list_ex_map scalarLeaks_text imageLeaks_text metricItemsLeak_text

lemma blockLeaks_text: "blockLeaks r b \<longleftrightarrow> containsAny r (blockText b)"
  by (cases b) (auto simp: contains_text list_ex_iff case_prod_unfold split: option.splits)

lemma ContainsSecretInDocument_text:
  "ContainsSecretInDocument r doc \<longleftrightarrow> containsAny r (scannedText doc)"
  unfolding ContainsSecretInDocument_def scannedText_def
  by (auto simp: contains_text blockLeaks_text list_ex_iff case_prod_unfold split: option.splits)

lemma ContainsSecretInDocument_mono:
  "set r \<subseteq> set r' \<Longrightarrow> ContainsSecretInDocument r doc \<Longrightarrow> ContainsSecretInDocument r' doc"
  by (auto simp: ContainsSecretInDocument_text containsAny_def ContainsSecret_def list_ex_iff)

lemma Track_grows: "set vs \<subseteq> set (Track v vs)"
  by (auto simp: Track_def)

section \<open>Properties\<close>

text \<open>
  C34. Scrubbing is complete, whatever the order in which the registry's map is iterated: for a
  registry filled by \<open>Track\<close>, the scrubbed string contains no tracked value that is free of the
  byte \<open>*\<close>, and a string without a secret is left as it is.
\<close>

theorem Scrub_removes_secrets:
  assumes "set r = set (foldr Track secrets [])"
  shows "(\<forall>v. v \<in> set r \<and> CHR ''*'' \<notin> set v \<longrightarrow> \<not> Contains (Scrub r s) v) \<and>
         (\<not> ContainsSecret r s \<longrightarrow> Scrub r s = s)"
proof (intro conjI impI allI)
  fix v
  assume v: "v \<in> set r \<and> CHR ''*'' \<notin> set v"
  have "list_all (\<lambda>v. minScrubLength \<le> length v) (foldr Track secrets [])"
    by (induction secrets) (auto intro: Track_long)
  then have "v \<noteq> []" using v assms by (auto simp: list_all_iff minScrubLength_def)
  then show "\<not> Contains (Scrub r s) v" using v by (intro Scrub_removes) auto
next
  show "\<not> ContainsSecret r s \<Longrightarrow> Scrub r s = s"
    by (induction r) (auto simp: Scrub_def ContainsSecret_def)
qed

theorem Scrub_removes_secrets_witness:
  "\<not> Contains (Scrub [exampleSecret] (''token='' @ exampleSecret @ ''!'')) exampleSecret \<and>
   Scrub [exampleSecret] (''token='' @ exampleSecret @ ''!'') = ''token=***!''"
proof -
  have r: "set [exampleSecret] = set (foldr Track [exampleSecret] [])" by code_simp
  have "\<not> Contains (Scrub [exampleSecret] (''token='' @ exampleSecret @ ''!'')) exampleSecret"
    using Scrub_removes_secrets[OF r, of "''token='' @ exampleSecret @ ''!''"] by (simp add: exampleSecret_def)
  moreover have "Scrub [exampleSecret] (''token='' @ exampleSecret @ ''!'') = ''token=***!''"
    by code_simp
  ultimately show ?thesis by blast
qed

text \<open>
  The walker does not scan every served string: a list item's identity, which the document
  schema admits as free text and which is stored and served, may hold a secret verbatim and the
  document passes; the same text in the item's title is reported.
\<close>

theorem list_item_id_not_scanned:
  "\<not> ContainsSecretInDocument [exampleSecret] (exampleList exampleSecret ''row'') \<and>
   ContainsSecretInDocument [exampleSecret] (exampleList ''row'' exampleSecret)"
  by code_simp

text \<open>
  The logging handler scrubs string attributes at every depth of nested groups, but an
  attribute of another kind, such as the \<open>error\<close> values the sources pass to the logger, reaches the
  next handler as it is, secret included.
\<close>

theorem scrubAttr_strings_only:
  "attrStrings (scrubAttr r a) = map (Scrub r) (attrStrings a) \<and>
   scrubAttr [exampleSecret] (OtherAttr ''error'' (''dial '' @ exampleSecret)) =
     OtherAttr ''error'' (''dial '' @ exampleSecret)"
proof -
  have "attrStrings (scrubAttr r a) = map (Scrub r) (attrStrings a)"
  proof (induction a)
    case (GroupAttr key attrs)
    then show ?case by (induction attrs) auto
  qed auto
  then show ?thesis by simp
qed

end
