(* ===== verification/CardState.thy ===== *)
theory CardState
  imports Widgets "HOL-Library.Signed_Division" "HOL-Library.Multiset"
begin

text \<open>
  Package \<open>internal/state\<close>: the card state with its constructors and \<open>Validate\<close> (\<open>cardstate.go\<close>), and
  the downsampling of signal history (\<open>history.go\<close>).  An instant is an integer, nanoseconds since
  1970; a timestamp field is an \<open>int option\<close> in which \<open>None\<close> is the empty string and \<open>Some t\<close> the text
  that formats \<open>t\<close> and parses back to it.  The clock is an argument.  A \<open>float64\<close> is a rational.
\<close>

type_synonym instant = int
type_synonym stamp = "int option"

section \<open>Card states\<close>

datatype ExecutionState = StatePending | StateOK | StateStale | StateError | StateDisabled | OtherState string

type_synonym DisabledReason = string

definition ReasonConfigError :: DisabledReason where
  "ReasonConfigError = ''config-error''"

datatype ErrorCode =
  ErrorUpstream | ErrorAuth | ErrorTimeout | ErrorConfig | ErrorDenied | ErrorInvalid | ErrorLimit | ErrorInternal

datatype Runtime = RuntimeBuiltin | RuntimeDeclarative | RuntimeWASM

record Source =
  srcIntegration :: string
  srcIntegrationVersion :: string
  srcRuntime :: Runtime
  srcOperation :: string
  srcSlots :: "(string \<times> string) list"

record RunError =
  reCode :: ErrorCode
  reMessage :: string
  reRetryable :: bool
  reAt :: stamp

record Execution =
  exState :: ExecutionState
  exGeneratedAt :: stamp
  exTTLSeconds :: int
  exExpiresAt :: stamp
  exStaleSince :: stamp
  exDurationMs :: int
  exConsecutiveFailures :: int
  exNextRunAt :: stamp
  exSource :: "Source option"
  exError :: "RunError option"
  exDisabledReason :: DisabledReason
  exCircuitOpenUntil :: stamp

text \<open>A point of a signal's history: a \<open>SeriesPoint\<close> whose time is the text of an instant.\<close>

record historyPoint =
  hpT :: instant
  hpV :: "rat option"

record CardState =
  csCardID :: string
  csDocument :: "Document option"
  csExecution :: Execution
  csHistory :: "(string \<times> historyPoint list) list"

definition zeroExecution :: Execution where
  "zeroExecution = \<lparr>exState = OtherState [], exGeneratedAt = None, exTTLSeconds = 0, exExpiresAt = None,
     exStaleSince = None, exDurationMs = 0, exConsecutiveFailures = 0, exNextRunAt = None,
     exSource = None, exError = None, exDisabledReason = [], exCircuitOpenUntil = None\<rparr>"

text \<open>The zero \<open>time.Time\<close> is the start of the year 1; it formats to a non-empty text.\<close>

definition zeroTime :: instant where
  "zeroTime = - 62135596800 * Second"

definition nextRunAtOrEmpty :: "instant \<Rightarrow> stamp" where
  "nextRunAtOrEmpty t = (if t = zeroTime then None else Some t)"

definition Pending :: "string \<Rightarrow> CardState" where
  "Pending cardID = \<lparr>csCardID = cardID, csDocument = None,
     csExecution = zeroExecution\<lparr>exState := StatePending\<rparr>, csHistory = []\<rparr>"

definition OK :: "instant \<Rightarrow> string \<Rightarrow> Document \<Rightarrow> Source \<Rightarrow> int \<Rightarrow> int \<Rightarrow> CardState" where
  "OK now cardID doc src ttl duration = \<lparr>csCardID = cardID, csDocument = Some doc,
     csExecution = zeroExecution\<lparr>exState := StateOK, exGeneratedAt := Some now,
       exTTLSeconds := ttl sdiv Second, exExpiresAt := Some (now + ttl),
       exDurationMs := duration sdiv 1000000, exSource := Some src\<rparr>, csHistory = []\<rparr>"

definition Stale :: "string \<Rightarrow> Document \<Rightarrow> Source \<Rightarrow> instant \<Rightarrow> instant \<Rightarrow> int \<Rightarrow> instant \<Rightarrow> CardState" where
  "Stale cardID doc src generatedAt staleSince consecutiveFailures nextRunAt =
     \<lparr>csCardID = cardID, csDocument = Some doc,
      csExecution = zeroExecution\<lparr>exState := StateStale, exGeneratedAt := Some generatedAt,
        exStaleSince := Some staleSince, exConsecutiveFailures := consecutiveFailures,
        exNextRunAt := nextRunAtOrEmpty nextRunAt, exSource := Some src\<rparr>, csHistory = []\<rparr>"

definition setExecution :: "(Execution \<Rightarrow> Execution) \<Rightarrow> CardState \<Rightarrow> CardState" where
  "setExecution f cs = cs\<lparr>csExecution := f (csExecution cs)\<rparr>"

definition StaleWithOpenCircuit ::
  "string \<Rightarrow> Document \<Rightarrow> Source \<Rightarrow> instant \<Rightarrow> instant \<Rightarrow> int \<Rightarrow> instant \<Rightarrow> CardState" where
  "StaleWithOpenCircuit cardID doc src generatedAt staleSince consecutiveFailures circuitOpenUntil =
     setExecution (\<lambda>e. e\<lparr>exCircuitOpenUntil := Some circuitOpenUntil\<rparr>)
       (Stale cardID doc src generatedAt staleSince consecutiveFailures circuitOpenUntil)"

definition stampError :: "instant \<Rightarrow> RunError \<Rightarrow> RunError" where
  "stampError now err = (if reAt err = None then err\<lparr>reAt := Some now\<rparr> else err)"

definition StaleAfterError ::
  "instant \<Rightarrow> string \<Rightarrow> Document \<Rightarrow> Source \<Rightarrow> instant \<Rightarrow> instant \<Rightarrow> int \<Rightarrow> instant \<Rightarrow> RunError \<Rightarrow> CardState" where
  "StaleAfterError now cardID doc src generatedAt staleSince consecutiveFailures nextRunAt runErr =
     setExecution (\<lambda>e. e\<lparr>exError := Some (stampError now runErr)\<rparr>)
       (Stale cardID doc src generatedAt staleSince consecutiveFailures nextRunAt)"

definition StaleAfterErrorWithOpenCircuit ::
  "instant \<Rightarrow> string \<Rightarrow> Document \<Rightarrow> Source \<Rightarrow> instant \<Rightarrow> instant \<Rightarrow> int \<Rightarrow> instant \<Rightarrow> RunError \<Rightarrow> CardState" where
  "StaleAfterErrorWithOpenCircuit now cardID doc src generatedAt staleSince consecutiveFailures circuitOpenUntil runErr =
     setExecution (\<lambda>e. e\<lparr>exCircuitOpenUntil := Some circuitOpenUntil\<rparr>)
       (StaleAfterError now cardID doc src generatedAt staleSince consecutiveFailures circuitOpenUntil runErr)"

definition Error :: "instant \<Rightarrow> string \<Rightarrow> Source \<Rightarrow> RunError \<Rightarrow> CardState" where
  "Error now cardID src err = \<lparr>csCardID = cardID, csDocument = None,
     csExecution = zeroExecution\<lparr>exState := StateError, exSource := Some src,
       exError := Some (stampError now err)\<rparr>, csHistory = []\<rparr>"

definition ErrorWithOpenCircuit :: "instant \<Rightarrow> string \<Rightarrow> Source \<Rightarrow> RunError \<Rightarrow> instant \<Rightarrow> CardState" where
  "ErrorWithOpenCircuit now cardID src err circuitOpenUntil =
     setExecution (\<lambda>e. e\<lparr>exNextRunAt := Some circuitOpenUntil, exCircuitOpenUntil := Some circuitOpenUntil\<rparr>)
       (Error now cardID src err)"

definition Disabled :: "string \<Rightarrow> Document option \<Rightarrow> DisabledReason \<Rightarrow> CardState" where
  "Disabled cardID doc reason = \<lparr>csCardID = cardID, csDocument = doc,
     csExecution = zeroExecution\<lparr>exState := StateDisabled, exDisabledReason := reason\<rparr>, csHistory = []\<rparr>"

definition MaxHistoryPoints :: nat where "MaxHistoryPoints = 288"
definition maxHistorySignals :: nat where "maxHistorySignals = 16"
definition gapFactor :: int where "gapFactor = 3"

datatype stateError =
    PendingDocument | PendingFields
  | OKDocument | OKRequired | OKForbidden
  | StaleDocument | StaleRequired | StaleForbidden
  | ErrorDocument | ErrorRequired | ErrorForbidden
  | DisabledRequired | DisabledForbidden
  | UnknownState | CircuitWithoutNextRun
  | HistorySignals | HistoryPoints string

fun validatePoints :: "(string \<times> historyPoint list) list \<Rightarrow> (stateError, unit) result" where
  "validatePoints [] = Inr ()"
| "validatePoints ((name, points) # h) =
     (if length points > MaxHistoryPoints then Inl (HistoryPoints name) else validatePoints h)"

definition validateHistory :: "(string \<times> historyPoint list) list \<Rightarrow> (stateError, unit) result" where
  "validateHistory h = (if length h > maxHistorySignals then Inl HistorySignals else validatePoints h)"

definition validateState :: "Document option \<Rightarrow> Execution \<Rightarrow> stateError option" where
  "validateState doc e =
     (case exState e of
        StatePending \<Rightarrow>
          if doc \<noteq> None then Some PendingDocument
          else if exGeneratedAt e \<noteq> None \<or> exExpiresAt e \<noteq> None \<or> exStaleSince e \<noteq> None \<or>
                  exError e \<noteq> None \<or> exCircuitOpenUntil e \<noteq> None then Some PendingFields
          else None
      | StateOK \<Rightarrow>
          if doc = None then Some OKDocument
          else if exGeneratedAt e = None \<or> exTTLSeconds e = 0 \<or> exExpiresAt e = None then Some OKRequired
          else if exError e \<noteq> None \<or> exStaleSince e \<noteq> None \<or> exDisabledReason e \<noteq> [] \<or>
                  exCircuitOpenUntil e \<noteq> None then Some OKForbidden
          else None
      | StateStale \<Rightarrow>
          if doc = None then Some StaleDocument
          else if exGeneratedAt e = None \<or> exStaleSince e = None then Some StaleRequired
          else if exDisabledReason e \<noteq> [] then Some StaleForbidden
          else None
      | StateError \<Rightarrow>
          if doc \<noteq> None then Some ErrorDocument
          else if exError e = None then Some ErrorRequired
          else if exDisabledReason e \<noteq> [] then Some ErrorForbidden
          else None
      | StateDisabled \<Rightarrow>
          if exDisabledReason e = [] then Some DisabledRequired
          else if exNextRunAt e \<noteq> None \<or> exCircuitOpenUntil e \<noteq> None then Some DisabledForbidden
          else None
      | OtherState s \<Rightarrow> Some UnknownState)"

definition Validate :: "CardState \<Rightarrow> (stateError, unit) result" where
  "Validate c =
     (case validateState (csDocument c) (csExecution c) of
        Some err \<Rightarrow> Inl err
      | None \<Rightarrow>
          if exCircuitOpenUntil (csExecution c) \<noteq> None \<and> exNextRunAt (csExecution c) = None
          then Inl CircuitWithoutNextRun
          else validateHistory (csHistory c))"

section \<open>Downsampling\<close>

record Sample =
  sT :: instant
  sV :: rat

text \<open>
  \<open>sort.Slice\<close> is not stable: samples with equal times may come out in either order.  The sorting
  routine is an argument \<open>srt\<close>, of which only the two facts in \<open>sorts\<close> are known.
\<close>

definition sorts :: "(Sample list \<Rightarrow> Sample list) \<Rightarrow> bool" where
  "sorts srt \<longleftrightarrow> (\<forall>xs. mset (srt xs) = mset xs \<and> sorted (map sT (srt xs)))"

definition dedupStep :: "Sample list \<Rightarrow> Sample \<Rightarrow> Sample list" where
  "dedupStep dedup s =
     (if dedup \<noteq> [] \<and> sT (last dedup) = sT s then butlast dedup @ [s] else dedup @ [s])"

definition inWindow :: "(Sample list \<Rightarrow> Sample list) \<Rightarrow> Sample list \<Rightarrow> instant \<Rightarrow> instant \<Rightarrow> Sample list" where
  "inWindow srt samples from to =
     foldl dedupStep [] (srt (filter (\<lambda>s. \<not> sT s < from \<and> \<not> sT s > to) samples))"

record buckets =
  bkOut :: "Sample list"
  bkSum :: rat
  bkN :: nat
  bkBucket :: int
  bkLast :: instant

definition flush :: "buckets \<Rightarrow> buckets" where
  "flush st = st\<lparr>bkOut := (if bkN st > 0 then bkOut st @ [\<lparr>sT = bkLast st, sV = bkSum st / rat_of_nat (bkN st)\<rparr>]
                          else bkOut st), bkSum := 0, bkN := 0\<rparr>"

definition bucketStep :: "instant \<Rightarrow> int \<Rightarrow> buckets \<Rightarrow> Sample \<Rightarrow> buckets" where
  "bucketStep from width st s =
     (let b = (sT s - from) sdiv width;
          st = (if b \<noteq> bkBucket st then (flush st)\<lparr>bkBucket := b\<rparr> else st)
      in st\<lparr>bkSum := bkSum st + sV s, bkN := bkN st + 1, bkLast := sT s\<rparr>)"

definition thin :: "instant \<Rightarrow> instant \<Rightarrow> Sample list \<Rightarrow> Sample list" where
  "thin from to xs =
     (let budget = MaxHistoryPoints div 2 in
      if length xs > budget
      then let width = (to - from) sdiv int budget;
               width = (if width \<le> 0 then 1 else width)
           in bkOut (flush (foldl (bucketStep from width)
                \<lparr>bkOut = [], bkSum = 0, bkN = 0, bkBucket = - 1, bkLast = zeroTime\<rparr> xs))
      else xs)"

fun spacings :: "Sample list \<Rightarrow> int list" where
  "spacings (a # b # xs) = (sT b - sT a) # spacings (b # xs)"
| "spacings _ = []"

definition medianSpacing :: "Sample list \<Rightarrow> int" where
  "medianSpacing xs =
     (if length xs < 3 then 0 else let d = sort (spacings xs) in d ! (length d div 2))"

fun pointsLoop :: "int \<Rightarrow> instant option \<Rightarrow> historyPoint list \<Rightarrow> Sample list \<Rightarrow> historyPoint list" where
  "pointsLoop gap prev points [] = points"
| "pointsLoop gap prev points (s # rest) =
     (let points =
        (case prev of
           None \<Rightarrow> points
         | Some p \<Rightarrow>
             if gap > 0 \<and> sT s - p > gap \<and> length points < MaxHistoryPoints - 1
             then points @ [\<lparr>hpT = p + (sT s - p) sdiv 2, hpV = None\<rparr>]
             else points)
      in if length points = MaxHistoryPoints then points
         else pointsLoop gap (Some (sT s)) (points @ [\<lparr>hpT = sT s, hpV = Some (sV s)\<rparr>]) rest)"

definition Downsample :: "(Sample list \<Rightarrow> Sample list) \<Rightarrow> Sample list \<Rightarrow> instant \<Rightarrow> instant \<Rightarrow> historyPoint list" where
  "Downsample srt samples from to =
     (let xs = thin from to (inWindow srt samples from to)
      in pointsLoop (medianSpacing xs * gapFactor) None [] xs)"

section \<open>Lemmas on the constructors\<close>

lemmas constructor_defs = Pending_def OK_def Stale_def StaleWithOpenCircuit_def StaleAfterError_def
  StaleAfterErrorWithOpenCircuit_def Error_def ErrorWithOpenCircuit_def Disabled_def
  setExecution_def zeroExecution_def nextRunAtOrEmpty_def

lemma validateHistory_Nil [simp]: "validateHistory [] = Inr ()"
  by (simp add: validateHistory_def maxHistorySignals_def)

lemma sdiv_pos: "0 \<le> (a::int) \<Longrightarrow> 0 < b \<Longrightarrow> a sdiv b = a div b"
  by (simp add: signed_divide_int_def sgn_if)

lemma Validate_split:
  "Validate c = Inr () \<longleftrightarrow>
     validateState (csDocument c) (csExecution c) = None \<and>
     (exCircuitOpenUntil (csExecution c) = None \<or> exNextRunAt (csExecution c) \<noteq> None) \<and>
     validateHistory (csHistory c) = Inr ()"
  by (auto simp: Validate_def split: option.splits)

lemma Validate_history_irrelevant:
  "Validate c = Inr () \<Longrightarrow> validateHistory h = Inr () \<Longrightarrow> Validate (c\<lparr>csHistory := h\<rparr>) = Inr ()"
  by (simp add: Validate_split)

lemma Validate_Pending: "Validate (Pending i) = Inr ()"
  by (simp add: Validate_split validateState_def constructor_defs)

lemma Validate_OK: "Validate (OK now i doc src ttl dur) = Inr () \<longleftrightarrow> ttl sdiv Second \<noteq> 0"
  by (simp add: Validate_split validateState_def constructor_defs)

lemma Validate_Stale: "Validate (Stale i doc src g s n t) = Inr ()"
  by (simp add: Validate_split validateState_def constructor_defs)

lemma Validate_StaleWithOpenCircuit:
  "Validate (StaleWithOpenCircuit i doc src g s n t) = Inr () \<longleftrightarrow> t \<noteq> zeroTime"
  by (simp add: Validate_split validateState_def constructor_defs)

lemma Validate_StaleAfterError: "Validate (StaleAfterError now i doc src g s n t e) = Inr ()"
  by (simp add: Validate_split validateState_def constructor_defs)

lemma Validate_StaleAfterErrorWithOpenCircuit:
  "Validate (StaleAfterErrorWithOpenCircuit now i doc src g s n t e) = Inr () \<longleftrightarrow> t \<noteq> zeroTime"
  by (simp add: Validate_split validateState_def constructor_defs)

lemma Validate_Error: "Validate (Error now i src e) = Inr ()"
  by (simp add: Validate_split validateState_def constructor_defs)

lemma Validate_ErrorWithOpenCircuit: "Validate (ErrorWithOpenCircuit now i src e t) = Inr ()"
  by (simp add: Validate_split validateState_def constructor_defs)

lemma Validate_Disabled: "Validate (Disabled i doc reason) = Inr () \<longleftrightarrow> reason \<noteq> []"
  by (simp add: Validate_split validateState_def constructor_defs)

lemmas Validate_constructors = Validate_Pending Validate_OK Validate_Stale Validate_StaleWithOpenCircuit
  Validate_StaleAfterError Validate_StaleAfterErrorWithOpenCircuit Validate_Error
  Validate_ErrorWithOpenCircuit Validate_Disabled

section \<open>Lemmas on downsampling\<close>

abbreviation increasing :: "Sample list \<Rightarrow> bool" where
  "increasing xs \<equiv> sorted_wrt (<) (map sT xs)"

lemma dedup_fold:
  assumes "increasing acc" and "sorted (map sT xs)" and "\<forall>a\<in>set acc. \<forall>x\<in>set xs. sT a \<le> sT x"
  shows "increasing (foldl dedupStep acc xs) \<and> set (foldl dedupStep acc xs) \<subseteq> set acc \<union> set xs \<and>
         sT ` set (foldl dedupStep acc xs) = sT ` (set acc \<union> set xs)"
  using assms
proof (induction xs arbitrary: acc)
  case (Cons x xs)
  let ?acc = "dedupStep acc x"
  have step: "increasing ?acc \<and> set ?acc \<subseteq> set acc \<union> {x} \<and> sT ` set ?acc = sT ` (set acc \<union> {x})"
  proof (cases "acc \<noteq> [] \<and> sT (last acc) = sT x")
    case True
    then have "acc = butlast acc @ [last acc]" by simp
    then obtain ys y where acc: "acc = ys @ [y]" "sT y = sT x" using True by metis
    then show ?thesis using Cons.prems(1) by (auto simp: dedupStep_def sorted_wrt_append)
  next
    case False
    have "sT a < sT x" if a: "a \<in> set acc" for a
    proof -
      obtain ys y where acc: "acc = ys @ [y]" using a by (cases acc rule: rev_cases) auto
      then have "sT y < sT x" using False Cons.prems(3) by force
      then show ?thesis using a acc Cons.prems(1) by (auto simp: sorted_wrt_append)
    qed
    then show ?thesis using False Cons.prems(1) by (auto simp: dedupStep_def sorted_wrt_append)
  qed
  have "\<forall>a\<in>set ?acc. \<forall>y\<in>set xs. sT a \<le> sT y"
    using step Cons.prems(2,3) by (auto dest!: subsetD)
  then show ?case using Cons.IH[of ?acc] step Cons.prems(2) by (auto simp: image_Un)
qed simp

lemma inWindow_props:
  assumes "sorts srt"
  shows "increasing (inWindow srt samples from to)"
    and "set (inWindow srt samples from to) \<subseteq> {s \<in> set samples. from \<le> sT s \<and> sT s \<le> to}"
    and "sT ` set (inWindow srt samples from to) = sT ` {s \<in> set samples. from \<le> sT s \<and> sT s \<le> to}"
proof -
  let ?xs = "filter (\<lambda>s. \<not> sT s < from \<and> \<not> sT s > to) samples"
  have srt: "set (srt ?xs) = {s \<in> set samples. from \<le> sT s \<and> sT s \<le> to}" "sorted (map sT (srt ?xs))"
    using assms unfolding sorts_def by (auto simp flip: set_mset_mset simp: not_less)
  then show "increasing (inWindow srt samples from to)"
    and "set (inWindow srt samples from to) \<subseteq> {s \<in> set samples. from \<le> sT s \<and> sT s \<le> to}"
    and "sT ` set (inWindow srt samples from to) = sT ` {s \<in> set samples. from \<le> sT s \<and> sT s \<le> to}"
    using dedup_fold[of "[]" "srt ?xs"] by (auto simp: inWindow_def)
qed

definition bucketInv :: "instant \<Rightarrow> int \<Rightarrow> instant set \<Rightarrow> rat \<Rightarrow> rat \<Rightarrow> buckets \<Rightarrow> bool" where
  "bucketInv from width ts lo hi st \<longleftrightarrow>
     increasing (bkOut st) \<and>
     (\<forall>x\<in>set (bkOut st). sT x \<in> ts \<and> lo \<le> sV x \<and> sV x \<le> hi) \<and>
     (if bkN st = 0 then bkOut st = [] \<and> bkBucket st = - 1 \<and> bkSum st = 0
      else from \<le> bkLast st \<and> bkLast st \<in> ts \<and> bkBucket st = (bkLast st - from) div width \<and>
           (\<forall>x\<in>set (bkOut st). sT x < bkLast st) \<and> int (length (bkOut st)) \<le> bkBucket st \<and>
           rat_of_nat (bkN st) * lo \<le> bkSum st \<and> bkSum st \<le> rat_of_nat (bkN st) * hi)"

lemma bucketInv_flush:
  assumes "bucketInv from width ts lo hi st" and "bkN st \<noteq> 0"
  shows "increasing (bkOut (flush st))"
    and "\<forall>x\<in>set (bkOut (flush st)). sT x \<in> ts \<and> lo \<le> sV x \<and> sV x \<le> hi"
    and "sT (last (bkOut (flush st))) = bkLast st" and "bkOut (flush st) \<noteq> []"
    and "int (length (bkOut (flush st))) \<le> bkBucket st + 1"
    and "\<forall>x\<in>set (bkOut (flush st)). sT x \<le> bkLast st"
  using assms by (auto simp: bucketInv_def flush_def sorted_wrt_append field_simps)

lemma bucketInv_step:
  assumes inv: "bucketInv from width ts lo hi st" and w: "0 < width" and s: "from \<le> sT s" "sT s \<in> ts"
    and later: "bkN st \<noteq> 0 \<Longrightarrow> bkLast st < sT s" and v: "lo \<le> sV s" "sV s \<le> hi"
  shows "bucketInv from width ts lo hi (bucketStep from width st s) \<and>
         bkN (bucketStep from width st s) \<noteq> 0 \<and> bkLast (bucketStep from width st s) = sT s"
proof -
  define b where "b = (sT s - from) div width"
  have sd: "(sT s - from) sdiv width = b" using s w by (simp add: sdiv_pos b_def)
  have b0: "0 \<le> b" using s w by (simp add: b_def pos_imp_zdiv_nonneg_iff)
  show ?thesis
  proof (cases "b = bkBucket st")
    case True
    then have n: "bkN st \<noteq> 0" using inv b0 by (auto simp: bucketInv_def split: if_splits)
    then show ?thesis using inv True later s v
      by (auto simp: bucketInv_def bucketStep_def sd Let_def algebra_simps b_def)
  next
    case False
    show ?thesis
    proof (cases "bkN st = 0")
      case True
      then show ?thesis using inv False b0 s v
        by (auto simp: bucketInv_def bucketStep_def sd Let_def flush_def b_def)
    next
      case n: False
      have "bkBucket st \<le> b" using inv n later w by (auto simp: bucketInv_def b_def intro!: zdiv_mono1)
      then have lt: "bkBucket st + 1 \<le> b" using False by simp
      have "\<forall>x\<in>set (bkOut (flush st)). sT x < sT s"
        using bucketInv_flush(6)[OF inv n] later[OF n] by fastforce
      moreover have "int (length (bkOut (flush st))) \<le> b" using bucketInv_flush(5)[OF inv n] lt by simp
      ultimately show ?thesis using bucketInv_flush(1,2)[OF inv n] False s v
        by (auto simp: bucketInv_def bucketStep_def sd Let_def b_def) (auto simp: flush_def)
    qed
  qed
qed

lemma bucketInv_fold:
  assumes "bucketInv from width ts lo hi st" and "0 < width" and "increasing xs"
    and "\<forall>x\<in>set xs. from \<le> sT x \<and> sT x \<in> ts \<and> lo \<le> sV x \<and> sV x \<le> hi"
    and "bkN st \<noteq> 0 \<Longrightarrow> \<forall>x\<in>set xs. bkLast st < sT x" and "xs \<noteq> []"
  shows "bucketInv from width ts lo hi (foldl (bucketStep from width) st xs) \<and>
         bkN (foldl (bucketStep from width) st xs) \<noteq> 0 \<and>
         bkLast (foldl (bucketStep from width) st xs) = sT (last xs)"
  using assms
proof (induction xs arbitrary: st)
  case (Cons x xs)
  have "bucketInv from width ts lo hi (bucketStep from width st x) \<and>
        bkN (bucketStep from width st x) \<noteq> 0 \<and> bkLast (bucketStep from width st x) = sT x"
    using Cons.prems by (intro bucketInv_step) auto
  then show ?case using Cons.IH[of "bucketStep from width st x"] Cons.prems by auto
qed simp

lemma thin_short: "length xs \<le> 144 \<Longrightarrow> thin from to xs = xs"
  by (simp add: thin_def MaxHistoryPoints_def)

lemma thin_props:
  assumes "increasing xs" and "\<forall>x\<in>set xs. from \<le> sT x \<and> sT x \<le> to \<and> lo \<le> sV x \<and> sV x \<le> hi" and "xs \<noteq> []"
  shows "increasing (thin from to xs) \<and> thin from to xs \<noteq> [] \<and> sT (last (thin from to xs)) = sT (last xs) \<and>
         (\<forall>x\<in>set (thin from to xs). sT x \<in> sT ` set xs \<and> lo \<le> sV x \<and> sV x \<le> hi) \<and>
         (144 * 144 \<le> to - from \<longrightarrow> length (thin from to xs) \<le> 145)"
proof (cases "length xs \<le> 144")
  case True
  then show ?thesis using assms by (auto simp: thin_short)
next
  case False
  define w where "w = (let w = (to - from) sdiv 144 in if w \<le> 0 then 1 else w)"
  define st where "st = foldl (bucketStep from w)
    \<lparr>bkOut = [], bkSum = 0, bkN = 0, bkBucket = - 1, bkLast = zeroTime\<rparr> xs"
  have w: "0 < w" by (simp add: w_def Let_def)
  have thin: "thin from to xs = bkOut (flush st)"
    using False by (simp add: thin_def st_def w_def Let_def MaxHistoryPoints_def)
  have inv: "bucketInv from w (sT ` set xs) lo hi st \<and> bkN st \<noteq> 0 \<and> bkLast st = sT (last xs)"
    unfolding st_def using assms w by (intro bucketInv_fold) (auto simp: bucketInv_def)
  have "bkBucket st \<le> 144" if "144 * 144 \<le> to - from"
  proof -
    have sd: "(to - from) sdiv 144 = (to - from) div 144" using that by (intro sdiv_pos) auto
    then have w': "w = (to - from) div 144" "144 \<le> w" using that by (auto simp: w_def Let_def)
    have "to - from < 145 * w"
      using w' div_mult_mod_eq[of "to - from" 144] pos_mod_bound[of 144 "to - from"] by linarith
    then have "(to - from) div w * w < 145 * w"
      using div_mult_mod_eq[of "to - from" w] pos_mod_sign[OF w, of "to - from"] by linarith
    then have "(to - from) div w < 145" using w by simp
    moreover have "bkBucket st = (bkLast st - from) div w" using inv by (auto simp: bucketInv_def)
    moreover have "(bkLast st - from) div w \<le> (to - from) div w" using inv assms(2,3) w by (auto intro!: zdiv_mono1)
    ultimately show ?thesis by simp
  qed
  then have len: "length (bkOut (flush st)) \<le> 145" if "144 * 144 \<le> to - from"
    using bucketInv_flush(5)[of "from" w "sT ` set xs" lo hi st] inv that by linarith
  have "bkN st \<noteq> 0" "bkLast st = sT (last xs)" using inv by blast+
  then show ?thesis
    using bucketInv_flush(1-4)[OF conjunct1[OF inv]] len unfolding thin by simp
qed

lemma length_spacings: "length (spacings xs) = length xs - 1"
  by (induction xs rule: spacings.induct) auto

lemma above_sorted_nth:
  fixes d :: "int list"
  assumes "k < length d"
  shows "length (filter (\<lambda>x. sort d ! k < x) d) \<le> length d - Suc k"
proof -
  let ?P = "\<lambda>x. sort d ! k < x"
  have "filter ?P (take (Suc k) (sort d)) = []"
    using assms sorted_nth_mono[OF sorted_sort[of d]]
    by (fastforce simp: filter_empty_conv in_set_conv_nth not_less)
  then have "length (filter ?P (sort d)) \<le> length (drop (Suc k) (sort d))"
    by (metis append_Nil append_take_drop_id filter_append length_filter_le)
  moreover have "mset (filter ?P (sort d)) = mset (filter ?P d)" by simp
  ultimately show ?thesis by (metis length_drop length_sort mset_eq_length)
qed

definition gapCount :: "int \<Rightarrow> instant option \<Rightarrow> Sample list \<Rightarrow> nat" where
  "gapCount gap prev xs =
     (if gap > 0
      then length (filter (\<lambda>x. x > gap) (spacings (case prev of None \<Rightarrow> xs | Some p \<Rightarrow> \<lparr>sT = p, sV = 0\<rparr> # xs)))
      else 0)"

lemma length_filter_mono: "(\<And>x. P x \<Longrightarrow> Q x) \<Longrightarrow> length (filter P xs) \<le> length (filter Q xs)"
  by (induction xs) (auto simp: le_SucI)

lemma gapCount_bound:
  assumes "xs \<noteq> []" and "length xs \<le> 145"
  shows "length xs + gapCount (medianSpacing xs * gapFactor) None xs \<le> 216"
proof (cases "medianSpacing xs * gapFactor > 0")
  case True
  then have pos: "0 < medianSpacing xs" and n: "\<not> length xs < 3"
    by (auto simp: gapFactor_def medianSpacing_def split: if_splits)
  let ?d = "spacings xs"
  have med: "medianSpacing xs = sort ?d ! (length ?d div 2)" using n by (simp add: medianSpacing_def Let_def)
  have k: "length ?d div 2 < length ?d" using n by (simp add: length_spacings)
  have "length (filter (\<lambda>x. x > medianSpacing xs * gapFactor) ?d) \<le> length (filter (\<lambda>x. medianSpacing xs < x) ?d)"
    using pos by (auto simp: gapFactor_def intro!: length_filter_mono)
  also have "\<dots> \<le> length ?d - Suc (length ?d div 2)"
    unfolding med using above_sorted_nth[OF k] .
  finally have "gapCount (medianSpacing xs * gapFactor) None xs \<le> length ?d - Suc (length ?d div 2)"
    by (simp add: gapCount_def)
  then show ?thesis using assms n unfolding length_spacings by linarith
next
  case False
  then show ?thesis using assms by (simp add: gapCount_def)
qed

definition samplePoint :: "Sample \<Rightarrow> historyPoint" where
  "samplePoint s = \<lparr>hpT = sT s, hpV = Some (sV s)\<rparr>"

definition gapMark :: "int \<Rightarrow> instant option \<Rightarrow> Sample \<Rightarrow> historyPoint list" where
  "gapMark gap prev s =
     (case prev of
        None \<Rightarrow> []
      | Some p \<Rightarrow> if gap > 0 \<and> sT s - p > gap then [\<lparr>hpT = p + (sT s - p) sdiv 2, hpV = None\<rparr>] else [])"

fun marked :: "int \<Rightarrow> instant option \<Rightarrow> Sample list \<Rightarrow> historyPoint list" where
  "marked gap prev [] = []"
| "marked gap prev (s # xs) = gapMark gap prev s @ samplePoint s # marked gap (Some (sT s)) xs"

lemma pointsLoop_Cons:
  "pointsLoop gap prev points (s # rest) =
     (let points = points @ (if length points < 287 then gapMark gap prev s else [])
      in if length points = 288 then points else pointsLoop gap (Some (sT s)) (points @ [samplePoint s]) rest)"
  by (auto simp: gapMark_def samplePoint_def MaxHistoryPoints_def Let_def split: option.splits)

lemma pointsLoop_length: "length points \<le> 288 \<Longrightarrow> length (pointsLoop gap prev points xs) \<le> 288"
proof (induction xs arbitrary: prev points)
  case (Cons s xs)
  have "length (gapMark gap prev s) \<le> 1" by (simp add: gapMark_def split: option.splits)
  then have "length (points @ (if length points < 287 then gapMark gap prev s else [])) \<le> 288"
    using Cons.prems by simp
  then show ?case using Cons.IH by (simp add: pointsLoop_Cons Let_def del: pointsLoop.simps)
qed simp

lemma gapCount_Cons:
  "gapCount gap prev (s # xs) = length (gapMark gap prev s) + gapCount gap (Some (sT s)) xs"
proof -
  have "spacings (\<lparr>sT = sT s, sV = 0\<rparr> # xs) = spacings (s # xs)" by (cases xs) auto
  then show ?thesis by (auto simp: gapCount_def gapMark_def split: option.splits)
qed

lemma pointsLoop_marked:
  "length points + length xs + gapCount gap prev xs \<le> 288 \<Longrightarrow>
   pointsLoop gap prev points xs = points @ marked gap prev xs"
proof (induction xs arbitrary: prev points)
  case (Cons s xs)
  have le: "length points + Suc (length xs) + length (gapMark gap prev s) + gapCount gap (Some (sT s)) xs \<le> 288"
    using Cons.prems by (simp add: gapCount_Cons)
  then have "points @ (if length points < 287 then gapMark gap prev s else []) = points @ gapMark gap prev s"
    by (cases "gapMark gap prev s") auto
  moreover have "length (points @ gapMark gap prev s) \<noteq> 288" using le by simp
  moreover have "pointsLoop gap (Some (sT s)) ((points @ gapMark gap prev s) @ [samplePoint s]) xs =
      ((points @ gapMark gap prev s) @ [samplePoint s]) @ marked gap (Some (sT s)) xs"
    using le by (intro Cons.IH) simp
  ultimately show ?case by (simp add: pointsLoop_Cons Let_def del: pointsLoop.simps)
qed simp

lemma marked_values: "filter (\<lambda>q. hpV q \<noteq> None) (marked gap prev xs) = map samplePoint xs"
  by (induction xs arbitrary: prev) (auto simp: gapMark_def samplePoint_def split: option.splits)

lemma marked_last: "xs \<noteq> [] \<Longrightarrow> marked gap prev xs \<noteq> [] \<and> last (marked gap prev xs) = samplePoint (last xs)"
  by (induction xs arbitrary: prev) auto

lemma gapMark_between:
  assumes "q \<in> set (gapMark gap prev s)"
  obtains p where "prev = Some p" "p < hpT q" "hpT q < sT s" "hpV q = None"
proof -
  obtain p where p: "prev = Some p" "0 < gap" "gap < sT s - p" "q = \<lparr>hpT = p + (sT s - p) sdiv 2, hpV = None\<rparr>"
    using assms by (auto simp: gapMark_def split: option.splits if_splits)
  then have "(sT s - p) sdiv 2 = (sT s - p) div 2" by (intro sdiv_pos) auto
  then show thesis using p that[of p] by simp
qed

lemma pointsLoop_sound:
  assumes "sorted_wrt (<) (map hpT points)" and "\<forall>q\<in>set points. prev \<noteq> None \<and> hpT q \<le> the prev"
    and "increasing xs" and "\<And>p. prev = Some p \<Longrightarrow> \<forall>x\<in>set xs. p < sT x"
  shows "sorted_wrt (<) (map hpT (pointsLoop gap prev points xs)) \<and>
         (\<forall>q\<in>set (pointsLoop gap prev points xs). hpV q = None \<or> q \<in> set points \<union> samplePoint ` set xs)"
  using assms
proof (induction xs arbitrary: prev points)
  case (Cons s xs)
  define mark where "mark = (if length points < 287 then gapMark gap prev s else [])"
  have m: "\<forall>q\<in>set mark. prev \<noteq> None \<and> the prev < hpT q \<and> hpT q < sT s \<and> hpV q = None"
    by (auto simp: mark_def elim: gapMark_between)
  have m1: "sorted_wrt (<) (map hpT mark)" by (auto simp: mark_def gapMark_def split: option.splits)
  have lt: "\<forall>q\<in>set points. hpT q < sT s" using Cons.prems(2,4) by force
  have "\<forall>q\<in>set points. \<forall>r\<in>set mark. hpT q < hpT r" using Cons.prems(2) m by (meson le_less_trans)
  then have pts: "sorted_wrt (<) (map hpT (points @ mark))" "\<forall>q\<in>set (points @ mark). hpT q < sT s"
    using Cons.prems(1) m1 m lt by (simp_all add: sorted_wrt_append ball_Un)
  then have new: "sorted_wrt (<) (map hpT (points @ mark @ [samplePoint s]))"
    "\<forall>q\<in>set (points @ mark @ [samplePoint s]). Some (sT s) \<noteq> None \<and> hpT q \<le> the (Some (sT s))"
    by (auto simp: sorted_wrt_append samplePoint_def intro: less_imp_le)
  have rest: "increasing xs" "\<forall>x\<in>set xs. sT s < sT x" using Cons.prems(3) by auto
  then have "sorted_wrt (<) (map hpT (pointsLoop gap (Some (sT s)) (points @ mark @ [samplePoint s]) xs)) \<and>
        (\<forall>q\<in>set (pointsLoop gap (Some (sT s)) (points @ mark @ [samplePoint s]) xs).
           hpV q = None \<or> q \<in> set (points @ mark @ [samplePoint s]) \<union> samplePoint ` set xs)"
    using new by (intro Cons.IH) simp_all
  then show ?case using pts m unfolding pointsLoop_Cons mark_def[symmetric] Let_def by auto
qed auto

lemma inWindow_Nil:
  assumes "sorts srt"
  shows "inWindow srt samples from to = [] \<longleftrightarrow> {s \<in> set samples. from \<le> sT s \<and> sT s \<le> to} = {}"
proof -
  have "inWindow srt samples from to = [] \<longleftrightarrow> sT ` set (inWindow srt samples from to) = {}" by simp
  then show ?thesis unfolding inWindow_props(3)[OF assms] image_is_empty .
qed

lemma Downsample_cases:
  assumes "sorts srt"
    and "\<forall>s\<in>set samples. from \<le> sT s \<and> sT s \<le> to \<longrightarrow> lo \<le> sV s \<and> sV s \<le> hi"
  obtains (empty) "Downsample srt samples from to = []" "inWindow srt samples from to = []"
  | (points) xs where "xs = thin from to (inWindow srt samples from to)" "xs \<noteq> []" "increasing xs"
      "inWindow srt samples from to \<noteq> []"
      "Downsample srt samples from to = pointsLoop (medianSpacing xs * gapFactor) None [] xs"
      "sT (last xs) = sT (last (inWindow srt samples from to))"
      "\<forall>x\<in>set xs. sT x \<in> sT ` set (inWindow srt samples from to) \<and> lo \<le> sV x \<and> sV x \<le> hi"
      "144 * 144 \<le> to - from \<Longrightarrow> length xs \<le> 145"
proof (cases "inWindow srt samples from to = []")
  case True
  then have "Downsample srt samples from to = []"
    by (simp add: Downsample_def thin_def medianSpacing_def)
  then show thesis using True empty by blast
next
  case False
  have "\<forall>x\<in>set (inWindow srt samples from to). from \<le> sT x \<and> sT x \<le> to \<and> lo \<le> sV x \<and> sV x \<le> hi"
    using inWindow_props(2)[OF assms(1), of samples "from" to] assms(2) by blast
  from thin_props[OF inWindow_props(1)[OF assms(1)] this False]
  show thesis using False by (intro points[OF refl]) (simp_all add: Downsample_def Let_def)
qed

lemma last_increasing_Max:
  assumes "increasing xs" and "xs \<noteq> []"
  shows "sT (last xs) = Max (sT ` set xs)"
proof -
  obtain ys y where xs: "xs = ys @ [y]" using assms(2) by (cases xs rule: rev_cases) auto
  then have "\<forall>z\<in>set ys. sT z < sT y" using assms(1) by (auto simp: sorted_wrt_append)
  then have "Max (sT ` set xs) = sT y" using xs by (intro Max_eqI) (auto intro: less_imp_le)
  then show ?thesis using xs by simp
qed

section \<open>Properties\<close>

definition exampleSource :: Source where
  "exampleSource = \<lparr>srcIntegration = ''demo'', srcIntegrationVersion = ''1.0.0'',
     srcRuntime = RuntimeDeclarative, srcOperation = ''summary'', srcSlots = []\<rparr>"

definition exampleRunError :: RunError where
  "exampleRunError = \<lparr>reCode = ErrorUpstream, reMessage = ''bad gateway'', reRetryable = True, reAt = None\<rparr>"

text \<open>
  Every constructor produces a legal combination of state and fields, as the comment on
  \<open>Validate\<close> claims: at any instants after 1970, a time to live of at least a second and a reason
  that is not empty, \<open>Validate\<close> accepts what each of the nine constructors returns.
\<close>

theorem constructors_validate:
  assumes "0 \<le> until" and "Second \<le> ttl" and "reason \<noteq> []"
  shows "Validate (Pending i) = Inr () \<and>
         Validate (OK now i doc src ttl dur) = Inr () \<and>
         Validate (Stale i doc src g s n t) = Inr () \<and>
         Validate (StaleWithOpenCircuit i doc src g s n until) = Inr () \<and>
         Validate (StaleAfterError now i doc src g s n t e) = Inr () \<and>
         Validate (StaleAfterErrorWithOpenCircuit now i doc src g s n until e) = Inr () \<and>
         Validate (Error now i src e) = Inr () \<and>
         Validate (ErrorWithOpenCircuit now i src e until) = Inr () \<and>
         Validate (Disabled i retained reason) = Inr ()"
proof -
  have "until \<noteq> zeroTime" using assms(1) by (simp add: zeroTime_def Second_def)
  moreover have "1 \<le> ttl div Second" using assms(2) zdiv_mono1[of Second ttl Second] by (simp add: Second_def)
  then have "ttl sdiv Second \<noteq> 0" using assms(2) by (simp add: sdiv_pos Second_def)
  ultimately show ?thesis using assms(3) by (simp add: Validate_constructors)
qed

theorem constructors_validate_witness:
  "Validate (OK 5 ''cpu'' emptyDocument exampleSource (60 * Second) 7) = Inr () \<and>
   Validate (StaleAfterErrorWithOpenCircuit 5 ''cpu'' emptyDocument exampleSource 1 2 3 (9 * Second) exampleRunError) = Inr ()"
  using constructors_validate[of "9 * Second" "60 * Second" ReasonConfigError "''cpu''" 5 emptyDocument
      exampleSource 7 1 2 3 0 exampleRunError None]
  by (simp add: Second_def ReasonConfigError_def)

text \<open>
  Downsampling is sound, for every unstable sort: the result has at most 288 points, its times
  are strictly increasing, and every point with a value carries the time of a sample that was
  recorded inside the window and a value within the range of those samples.
\<close>

theorem Downsample_sound:
  assumes "sorts srt"
    and "\<forall>s\<in>set samples. from \<le> sT s \<and> sT s \<le> to \<longrightarrow> lo \<le> sV s \<and> sV s \<le> hi"
  shows "length (Downsample srt samples from to) \<le> MaxHistoryPoints \<and>
         sorted_wrt (<) (map hpT (Downsample srt samples from to)) \<and>
         (\<forall>q v. q \<in> set (Downsample srt samples from to) \<and> hpV q = Some v \<longrightarrow>
            lo \<le> v \<and> v \<le> hi \<and> (\<exists>s\<in>set samples. sT s = hpT q \<and> from \<le> sT s \<and> sT s \<le> to))"
proof -
  have "length (Downsample srt samples from to) \<le> 288"
    unfolding Downsample_def Let_def by (rule pointsLoop_length) simp
  moreover from assms
  have "sorted_wrt (<) (map hpT (Downsample srt samples from to)) \<and>
        (\<forall>q v. q \<in> set (Downsample srt samples from to) \<and> hpV q = Some v \<longrightarrow>
            lo \<le> v \<and> v \<le> hi \<and> hpT q \<in> sT ` set (inWindow srt samples from to))"
  proof (cases rule: Downsample_cases)
    case (points xs)
    then show ?thesis
      using pointsLoop_sound[of "[]" None xs "medianSpacing xs * gapFactor"] by (fastforce simp: samplePoint_def)
  qed simp
  moreover have "t \<in> sT ` set (inWindow srt samples from to) \<longleftrightarrow>
      (\<exists>s\<in>set samples. sT s = t \<and> from \<le> sT s \<and> sT s \<le> to)" for t
    unfolding inWindow_props(3)[OF assms(1)] by auto
  ultimately show ?thesis by (simp add: MaxHistoryPoints_def)
qed

definition exampleSamples :: "Sample list" where
  "exampleSamples = map (\<lambda>(t, v). \<lparr>sT = t, sV = v\<rparr>)
     [(30000, 5), (10000, 1), (20000, 2), (40000, 3), (100000, 4)]"

lemma sorts_sort_key: "sorts (sort_key sT)"
  by (simp add: sorts_def)

lemma exampleSamples_points:
  "Downsample (sort_key sT) exampleSamples 0 100000 =
     [\<lparr>hpT = 10000, hpV = Some 1\<rparr>, \<lparr>hpT = 20000, hpV = Some 2\<rparr>, \<lparr>hpT = 30000, hpV = Some 5\<rparr>,
      \<lparr>hpT = 40000, hpV = Some 3\<rparr>, \<lparr>hpT = 70000, hpV = None\<rparr>, \<lparr>hpT = 100000, hpV = Some 4\<rparr>]"
  by code_simp

theorem Downsample_sound_witness:
  "sorted_wrt (<) (map hpT (Downsample (sort_key sT) exampleSamples 0 100000)) \<and>
   length (Downsample (sort_key sT) exampleSamples 0 100000) = 6"
proof -
  have "\<forall>s\<in>set exampleSamples. 0 \<le> sT s \<and> sT s \<le> 100000 \<longrightarrow> 1 \<le> sV s \<and> sV s \<le> 5" by (simp add: exampleSamples_def)
  from Downsample_sound[OF sorts_sort_key this] show ?thesis by (simp add: exampleSamples_points)
qed

text \<open>
  Gap markers never cost a reading: for a window of at least 144 * 144 nanoseconds (the
  shortest configurable window is an hour) the points with a value are exactly the thinned samples,
  in order, and the last point is at the newest recorded time of the window.
\<close>

theorem Downsample_keeps_readings:
  assumes "sorts srt" and "144 * 144 \<le> to - from"
  shows "filter (\<lambda>q. hpV q \<noteq> None) (Downsample srt samples from to) =
           map samplePoint (thin from to (inWindow srt samples from to)) \<and>
         (\<forall>s\<in>set samples. from \<le> sT s \<and> sT s \<le> to \<longrightarrow>
            Downsample srt samples from to \<noteq> [] \<and>
            hpT (last (Downsample srt samples from to)) =
              Max (sT ` {s \<in> set samples. from \<le> sT s \<and> sT s \<le> to}))"
proof -
  define lo where "lo = Min (insert 0 (sV ` set samples))"
  define hi where "hi = Max (insert 0 (sV ` set samples))"
  have "\<forall>s\<in>set samples. from \<le> sT s \<and> sT s \<le> to \<longrightarrow> lo \<le> sV s \<and> sV s \<le> hi"
    by (simp add: lo_def hi_def)
  with assms(1) show ?thesis
  proof (cases rule: Downsample_cases)
    case empty
    then show ?thesis using inWindow_Nil[OF assms(1), of samples "from" to] by (auto simp: thin_def)
  next
    case (points xs)
    have "length xs + gapCount (medianSpacing xs * gapFactor) None xs \<le> 288"
      using gapCount_bound[OF points(2) points(8)[OF assms(2)]] by simp
    then have eq: "Downsample srt samples from to = marked (medianSpacing xs * gapFactor) None xs"
      using pointsLoop_marked[of "[]" xs] points(5) by simp
    have "sT (last xs) = Max (sT ` {s \<in> set samples. from \<le> sT s \<and> sT s \<le> to})"
      using last_increasing_Max[OF inWindow_props(1)[OF assms(1)] points(4)] points(6)
      by (simp add: inWindow_props(3)[OF assms(1)])
    then have "hpT (last (Downsample srt samples from to)) =
        Max (sT ` {s \<in> set samples. from \<le> sT s \<and> sT s \<le> to})" "Downsample srt samples from to \<noteq> []"
      unfolding eq using marked_last[OF points(2)] by (simp_all add: samplePoint_def)
    moreover have "filter (\<lambda>q. hpV q \<noteq> None) (Downsample srt samples from to) = map samplePoint xs"
      unfolding eq by (rule marked_values)
    ultimately show ?thesis unfolding points(1) by blast
  qed
qed

theorem Downsample_keeps_readings_witness:
  "hpT (last (Downsample (sort_key sT) exampleSamples 0 100000)) = 100000 \<and>
   map hpV (filter (\<lambda>q. hpV q \<noteq> None) (Downsample (sort_key sT) exampleSamples 0 100000)) =
     map (Some \<circ> sV) (inWindow (sort_key sT) exampleSamples 0 100000)"
proof -
  have "length (inWindow (sort_key sT) exampleSamples 0 100000) \<le> 144" by code_simp
  then show ?thesis
    using Downsample_keeps_readings[OF sorts_sort_key, of 100000 0 exampleSamples]
    by (simp add: thin_short exampleSamples_points samplePoint_def comp_def)
qed

text \<open>
  The comment on equal instants is not what the code guarantees: it says that the later-written
  of two samples with the same time is kept, but \<open>sort.Slice\<close> may reorder them, and for one
  admissible sort the earlier-written value is the one that is kept.
\<close>

theorem Downsample_duplicate_instant:
  "\<exists>srt. sorts srt \<and>
     Downsample srt [\<lparr>sT = 5, sV = 1\<rparr>, \<lparr>sT = 5, sV = 2\<rparr>] 0 9 = [\<lparr>hpT = 5, hpV = Some 1\<rparr>] \<and>
     Downsample (sort_key sT) [\<lparr>sT = 5, sV = 1\<rparr>, \<lparr>sT = 5, sV = 2\<rparr>] 0 9 = [\<lparr>hpT = 5, hpV = Some 2\<rparr>]"
proof (intro exI conjI)
  show "sorts (\<lambda>xs. sort_key sT (rev xs))" by (simp add: sorts_def)
qed code_simp+

end
