(* ===== verification/Storage.thy ===== *)
theory Storage
  imports CardState
begin

text \<open>
  Package \<open>internal/storage\<close>: the tables the scheduler uses.  A table with a primary key is a partial
  function from the key to the row.  A statement that fails (a closed database, a cancelled context)
  is the argument \<open>db\<close>, which holds the error; a transaction that fails is rolled back.  The stored
  envelope is the card state itself: what \<open>json.Marshal\<close> wrote, \<open>json.Unmarshal\<close> reads back.
\<close>

record CardRecord =
  CardHash :: string
  ManifestDigest :: string
  ApprovalRevision :: string
  SlotRevisions :: string
  crState :: CardState

record store =
  cardRows :: "string \<rightharpoonup> CardRecord"
  signalRows :: "string \<times> string \<times> stamp \<rightharpoonup> rat"

datatype storeError = InvalidState stateError | Database string

definition emptyStore :: store where
  "emptyStore = \<lparr>cardRows = Map.empty, signalRows = Map.empty\<rparr>"

definition PutCardWithSignals ::
  "string option \<Rightarrow> CardRecord \<Rightarrow> (string \<times> rat) list \<Rightarrow> store \<Rightarrow> storeError option \<times> store" where
  "PutCardWithSignals db r signals s =
     (let card = crState r in
      case Validate card of
        Inl err \<Rightarrow> (Some (InvalidState err), s)
      | Inr _ \<Rightarrow>
          (case db of
             Some err \<Rightarrow> (Some (Database err), s)
           | None \<Rightarrow>
               (None, s\<lparr>cardRows := (cardRows s)(csCardID card \<mapsto> r),
                        signalRows := foldl (\<lambda>rows (name, v).
                            rows((csCardID card, name, exGeneratedAt (csExecution card)) \<mapsto> v))
                          (signalRows s) signals\<rparr>)))"

definition identityMatches :: "CardRecord \<Rightarrow> CardRecord \<Rightarrow> bool" where
  "identityMatches stored expected \<longleftrightarrow>
     CardHash stored = CardHash expected \<and>
     (ManifestDigest expected = [] \<or> ManifestDigest stored = ManifestDigest expected) \<and>
     (ApprovalRevision expected = [] \<or> ApprovalRevision stored = ApprovalRevision expected) \<and>
     (SlotRevisions expected = [] \<or> SlotRevisions stored = SlotRevisions expected)"

definition GetCardFor ::
  "string option \<Rightarrow> string \<Rightarrow> CardRecord \<Rightarrow> store \<Rightarrow> (storeError, CardState option) result \<times> store" where
  "GetCardFor db ident expected s =
     (case db of
        Some err \<Rightarrow> (Inl (Database err), s)
      | None \<Rightarrow>
          (case cardRows s ident of
             None \<Rightarrow> (Inr None, s)
           | Some row \<Rightarrow>
               if \<not> identityMatches row expected
               then (Inr None, s\<lparr>cardRows := (cardRows s)(ident := None)\<rparr>)
               else (case Validate (crState row) of
                       Inl err \<Rightarrow> (Inl (InvalidState err), s)
                     | Inr _ \<Rightarrow> (Inr (Some (crState row)), s))))"

lemma GetCardFor_Some:
  assumes "GetCardFor db ident expected s = (Inr (Some cs), s')"
  shows "s' = s \<and> Validate cs = Inr () \<and> (\<exists>row. cardRows s ident = Some row \<and> crState row = cs \<and>
           identityMatches row expected)"
  using assms by (auto simp: GetCardFor_def split: option.splits if_splits sum.splits)

lemma GetCardFor_cardRows:
  "GetCardFor db ident expected s = (r, s') \<Longrightarrow>
   cardRows s' = cardRows s \<or> cardRows s' = (cardRows s)(ident := None)"
  by (auto simp: GetCardFor_def split: option.splits if_splits sum.splits)

lemma PutCardWithSignals_error: "PutCardWithSignals db r signals s = (Some e, s') \<Longrightarrow> s' = s"
  by (auto simp: PutCardWithSignals_def Let_def split: option.splits sum.splits)

lemma PutCardWithSignals_ok:
  "PutCardWithSignals db r signals s = (None, s') \<Longrightarrow>
   Validate (crState r) = Inr () \<and> cardRows s' = (cardRows s)(csCardID (crState r) \<mapsto> r)"
  by (auto simp: PutCardWithSignals_def Let_def split: option.splits sum.splits)

end
