(* ===== verification/Scheduler.thy ===== *)
theory Scheduler
  imports Secrets Storage
begin

text \<open>
  Package \<open>internal/scheduler\<close>: the manager of card refreshes.  \<open>refresh\<close> takes the manager's lock
  several times and runs the integration in between without it, so it is modelled as a task that
  moves through phases, one atomic section of the code for each phase.  The step relation at the end
  lets the sections of any number of tasks, a configuration change (\<open>Apply\<close>) and the readers of
  event streams interleave freely.  The clock is read once in each section; the outcome of a run, a
  failing database statement and the rows \<open>SignalHistory\<close> returns are arguments.
\<close>

section \<open>Data\<close>

record Definition =
  dID :: string
  dHash :: string
  dKey :: string
  dManifestDigest :: string
  dApprovalRevision :: string
  dSlotRevisions :: string
  dRefresh :: int
  dTimeout :: int
  dSource :: Source
  dRun :: bool
  dDisabled :: DisabledReason
  dHistorySignals :: "string list"
  dSignalTypes :: "(string \<times> string) list"
  dGeneration :: nat

text \<open>\<open>dRun\<close> says whether \<open>Run\<close> is set; what the function returns is an argument of the steps.\<close>

record StateEvent =
  evID :: nat
  evState :: CardState

text \<open>A subscription: the capacity of its channel and what is buffered in it.\<close>

record subscriber =
  subBuffer :: nat
  subQueue :: "StateEvent list"

record Manager =
  mStore :: "store option"
  mDefs :: "string \<rightharpoonup> Definition"
  mStates :: "string \<rightharpoonup> CardState"
  mFailures :: "string \<rightharpoonup> int"
  mOpenUntil :: "string \<rightharpoonup> instant"
  mManualAt :: "string \<rightharpoonup> instant"
  mFlights :: "string set"
  mSubs :: "nat \<rightharpoonup> subscriber"
  mWorkers :: nat
  mNextID :: nat
  mGeneration :: nat

text \<open>
  The errors of a run: which sentinel \<open>errors.Is\<close> finds in it, and its text.
\<close>

datatype errKind = DeadlineExceeded | Canceled | SecretInDocument | UnretainedSignal | RunPanicked | OtherKind

datatype runErr = RunErr errKind string

datatype schedError =
    ErrUnknownCard | ErrRateLimited | ErrSuperseded
  | EmptyID | DuplicateID string
  | InvalidCard stateError
  | StoreFailed storeError
  | HistoryFailed string

definition ErrSecretInDocument :: runErr where
  "ErrSecretInDocument = RunErr SecretInDocument ''scheduler: document contains a configured secret value''"

definition ErrRunPanicked :: runErr where
  "ErrRunPanicked = RunErr RunPanicked ''scheduler: the integration failed unexpectedly; see the server log''"

definition NewManager :: "store option \<Rightarrow> Manager" where
  "NewManager store = \<lparr>mStore = store, mDefs = Map.empty, mStates = Map.empty, mFailures = Map.empty,
     mOpenUntil = Map.empty, mManualAt = Map.empty, mFlights = {}, mSubs = Map.empty,
     mWorkers = 0, mNextID = 0, mGeneration = 0\<rparr>"

definition workers :: nat where
  "workers = 8"

section \<open>Durations\<close>

definition minDuration :: "int \<Rightarrow> int \<Rightarrow> int" where
  "minDuration a b = (if a < b then a else b)"

text \<open>The loop of \<open>backoff\<close>; the first argument is the number of iterations left, \<open>n - i\<close>.\<close>

fun backoffLoop :: "nat \<Rightarrow> int \<Rightarrow> int" where
  "backoffLoop 0 base = base"
| "backoffLoop (Suc k) base = (if base < Hour then backoffLoop k (base * 2) else base)"

definition backoff :: "int \<Rightarrow> int \<Rightarrow> int" where
  "backoff n base =
     (let base = (if base \<le> 0 then Second else base)
      in minDuration (backoffLoop (nat (n - 1)) base) Hour)"

definition fnv32a :: "string \<Rightarrow> 32 word" where
  "fnv32a s = foldl (\<lambda>h c. xor h (word_of_nat (of_char c)) * 16777619) 2166136261 s"

definition jitter :: "string \<Rightarrow> int \<Rightarrow> int" where
  "jitter ident base =
     (if base \<le> 0 then Minute
      else let percent = int (unat (fnv32a ident) mod 11) - 5
           in base + (base * percent) sdiv 100)"

definition parseTime :: "stamp \<Rightarrow> instant" where
  "parseTime v = (case v of None \<Rightarrow> zeroTime | Some t \<Rightarrow> t)"

definition restored :: "instant \<Rightarrow> CardState \<Rightarrow> Source \<Rightarrow> CardState" where
  "restored now cs source =
     (let e = csExecution cs; expires = parseTime (exExpiresAt e) in
      case csDocument cs of
        Some doc \<Rightarrow>
          if exState e = StateOK \<and> expires \<noteq> zeroTime \<and> \<not> now < expires
          then Stale (csCardID cs) doc source (parseTime (exGeneratedAt e)) expires 0 now
          else cs
      | None \<Rightarrow> cs)"

fun classify :: "runErr \<Rightarrow> ErrorCode" where
  "classify (RunErr kind text) =
     (case kind of
        DeadlineExceeded \<Rightarrow> ErrorTimeout
      | Canceled \<Rightarrow> ErrorTimeout
      | SecretInDocument \<Rightarrow> ErrorInvalid
      | UnretainedSignal \<Rightarrow> ErrorInvalid
      | RunPanicked \<Rightarrow> ErrorInternal
      | OtherKind \<Rightarrow> ErrorUpstream)"

fun errText :: "runErr \<Rightarrow> string" where
  "errText (RunErr kind text) = text"

section \<open>Applying a configuration\<close>

record prepared =
  pDefs :: "string \<rightharpoonup> Definition"
  pStates :: "string \<rightharpoonup> CardState"
  pFailures :: "string \<rightharpoonup> int"
  pOpen :: "string \<rightharpoonup> instant"

definition emptyPrepared :: prepared where
  "emptyPrepared = \<lparr>pDefs = Map.empty, pStates = Map.empty, pFailures = Map.empty, pOpen = Map.empty\<rparr>"

definition withDefaults :: "Definition \<Rightarrow> Definition" where
  "withDefaults d = d\<lparr>dRefresh := (if dRefresh d \<le> 0 then Minute else dRefresh d),
                      dTimeout := (if dTimeout d \<le> 0 then 10 * Second else dTimeout d)\<rparr>"

definition expectedRecord :: "Definition \<Rightarrow> CardRecord" where
  "expectedRecord d = \<lparr>CardHash = dHash d, ManifestDigest = dManifestDigest d,
     ApprovalRevision = dApprovalRevision d, SlotRevisions = dSlotRevisions d, crState = Pending []\<rparr>"

text \<open>A nil registry disables the check: it is the empty registry, which nothing matches.\<close>

definition documentLeaksSecret :: "Registry \<Rightarrow> Document option \<Rightarrow> bool" where
  "documentLeaksSecret reg doc = (case doc of None \<Rightarrow> False | Some d \<Rightarrow> ContainsSecretInDocument reg d)"

definition restoreCard ::
  "Registry \<Rightarrow> instant \<Rightarrow> string option \<Rightarrow> Definition \<Rightarrow> store option \<Rightarrow> prepared \<Rightarrow>
   (schedError, prepared) result \<times> store option" where
  "restoreCard reg now db d store p =
     (case store of
        None \<Rightarrow> (Inr p, None)
      | Some s \<Rightarrow>
          (case GetCardFor db (dID d) (expectedRecord d) s of
             (Inl err, s') \<Rightarrow> (Inl (StoreFailed err), Some s')
           | (Inr None, s') \<Rightarrow> (Inr p, Some s')
           | (Inr (Some old), s') \<Rightarrow>
               if documentLeaksSecret reg (csDocument old) then (Inr p, Some s')
               else (Inr (p\<lparr>pStates := (pStates p)(dID d \<mapsto> restored now old (dSource d)),
                            pFailures := (pFailures p)(dID d \<mapsto> exConsecutiveFailures (csExecution old)),
                            pOpen := (pOpen p)(dID d \<mapsto> parseTime (exCircuitOpenUntil (csExecution old)))\<rparr>),
                     Some s')))"

fun prepare ::
  "Registry \<Rightarrow> instant \<Rightarrow> (string \<Rightarrow> string option) \<Rightarrow> Definition list \<Rightarrow> store option \<Rightarrow> prepared \<Rightarrow>
   (schedError, prepared) result \<times> store option" where
  "prepare reg now db [] store p = (Inr p, store)"
| "prepare reg now db (d # defs) store p =
     (let d = withDefaults d in
      if dID d = [] then (Inl EmptyID, store)
      else if pDefs p (dID d) \<noteq> None then (Inl (DuplicateID (dID d)), store)
      else (case restoreCard reg now (db (dID d)) d store
                   (p\<lparr>pDefs := (pDefs p)(dID d \<mapsto> d), pStates := (pStates p)(dID d \<mapsto> Pending (dID d))\<rparr>) of
              (Inl err, store') \<Rightarrow> (Inl err, store')
            | (Inr p', store') \<Rightarrow> prepare reg now db defs store' p'))"

definition Apply ::
  "Registry \<Rightarrow> instant \<Rightarrow> (string \<Rightarrow> string option) \<Rightarrow> Definition list \<Rightarrow> Manager \<Rightarrow> schedError option \<times> Manager" where
  "Apply reg now db defs m =
     (case prepare reg now db defs (mStore m) emptyPrepared of
        (Inl err, store) \<Rightarrow> (Some err, m\<lparr>mStore := store\<rparr>)
      | (Inr p, store) \<Rightarrow>
          let generation = mGeneration m + 1 in
          (None, m\<lparr>mStore := store, mGeneration := generation,
                   mDefs := (\<lambda>ident. map_option (\<lambda>d. d\<lparr>dGeneration := generation\<rparr>) (pDefs p ident)),
                   mStates := pStates p, mFailures := pFailures p, mOpenUntil := pOpen p,
                   mManualAt := Map.empty\<rparr>))"

section \<open>Committing\<close>

definition publish :: "StateEvent \<Rightarrow> subscriber option \<Rightarrow> subscriber option" where
  "publish ev sub =
     (case sub of
        None \<Rightarrow> None
      | Some s \<Rightarrow> if length (subQueue s) < subBuffer s then Some (s\<lparr>subQueue := subQueue s @ [ev]\<rparr>) else None)"

definition isCurrent :: "Manager \<Rightarrow> Definition \<Rightarrow> bool" where
  "isCurrent m d = (case mDefs m (dID d) of None \<Rightarrow> False | Some current \<Rightarrow> dGeneration current = dGeneration d)"

definition putCard ::
  "string option \<Rightarrow> Definition \<Rightarrow> CardState \<Rightarrow> (string \<times> rat) list \<Rightarrow> store option \<Rightarrow>
   (storeError, store option) result" where
  "putCard db d cs history store =
     (case store of
        None \<Rightarrow> Inr None
      | Some s \<Rightarrow>
          (case PutCardWithSignals db ((expectedRecord d)\<lparr>crState := cs\<rparr>) history s of
             (Some err, s') \<Rightarrow> Inl err
           | (None, s') \<Rightarrow> Inr (Some s')))"

definition commitWithHistory ::
  "string option \<Rightarrow> Definition \<Rightarrow> CardState \<Rightarrow> (string \<times> rat) list \<Rightarrow> Manager \<Rightarrow> schedError option \<times> Manager" where
  "commitWithHistory db d cs history m =
     (case Validate cs of
        Inl err \<Rightarrow> (Some (InvalidCard err), m)
      | Inr _ \<Rightarrow>
          if \<not> isCurrent m d then (Some ErrSuperseded, m)
          else
            (case putCard db d cs history (mStore m) of
               Inl err \<Rightarrow> (Some (StoreFailed err), m)
             | Inr store \<Rightarrow>
                 let ev = \<lparr>evID = mNextID m + 1, evState = cs\<rparr>
                 in (None, m\<lparr>mStore := store, mStates := (mStates m)(dID d \<mapsto> cs), mNextID := mNextID m + 1,
                             mSubs := (\<lambda>ch. publish ev (mSubs m ch))\<rparr>)))"

section \<open>Refreshing a card\<close>

type_synonym runResult = "(runErr, Document \<times> int) result"

text \<open>The phases of one call of \<open>refresh\<close>.\<close>

datatype task =
    TStart Definition
  | TJoin Definition
  | TQueued Definition string
  | TRunning Definition string
  | TWaiting Definition string
  | TRan Definition runResult
  | TReset Definition CardState "(string \<times> rat) list"
  | TFailed Definition runErr
  | TFailing Definition int CardState runErr
  | TCommit Definition CardState "(string \<times> rat) list"
  | TDone "schedError option"

definition refreshStart :: "instant \<Rightarrow> Manager \<Rightarrow> Definition \<Rightarrow> task" where
  "refreshStart now m d =
     (let ident = dID d;
          open' = (case mOpenUntil m ident of None \<Rightarrow> zeroTime | Some t \<Rightarrow> t) in
      if \<not> isCurrent m d then TDone (Some ErrSuperseded)
      else if dDisabled d \<noteq> [] then TCommit d (Disabled ident None (dDisabled d)) []
      else if now < open' then TDone None
      else if \<not> dRun d then TCommit d (Disabled ident None ReasonConfigError) []
      else TJoin d)"

text \<open>The flight key is the generation and the definition's key (or its ID).\<close>

definition flightKey :: "Definition \<Rightarrow> string" where
  "flightKey d = FormatUint (dGeneration d) @ '':'' @ (if dKey d = [] then dID d else dKey d)"

definition joinFlight :: "Manager \<Rightarrow> Definition \<Rightarrow> Manager \<times> task" where
  "joinFlight m d =
     (let key = flightKey d in
      if key \<in> mFlights m then (m, TWaiting d key)
      else (m\<lparr>mFlights := insert key (mFlights m)\<rparr>, TQueued d key))"

fun historicalValues :: "string list \<Rightarrow> Document \<Rightarrow> (runErr, (string \<times> rat) list) result" where
  "historicalValues [] doc = Inr []"
| "historicalValues (name # names) doc =
     (case map_of (docSignals doc) name of
        None \<Rightarrow> historicalValues names doc
      | Some signal \<Rightarrow>
          (case sigValue signal of
             SNil \<Rightarrow> historicalValues names doc
           | SNumber v \<Rightarrow> map_sum id (\<lambda>out. (name, v) # out) (historicalValues names doc)
           | _ \<Rightarrow> Inl (RunErr OtherKind (''scheduler: historical signal '' @ name @ '' changed type''))))"

definition unretained :: "Definition \<Rightarrow> Document \<Rightarrow> string option" where
  "unretained d doc = find (\<lambda>signal. signal \<notin> set (dHistorySignals d)) (map fst (HistoryBindings doc))"

definition unretainedErr :: "string \<Rightarrow> runErr" where
  "unretainedErr signal = RunErr UnretainedSignal
     (''scheduler: a series block binds a signal this operation does not retain: '' @ signal)"

text \<open>The checks on a produced document, in the order of the code.\<close>

definition checkDocument ::
  "Registry \<Rightarrow> Definition \<Rightarrow> runResult \<Rightarrow> (runErr, Document \<times> int \<times> (string \<times> rat) list) result" where
  "checkDocument reg d result =
     (case result of
        Inl err \<Rightarrow> Inl err
      | Inr (doc, dur) \<Rightarrow>
          if documentLeaksSecret reg (Some doc) then Inl ErrSecretInDocument
          else (case historicalValues (dHistorySignals d) doc of
                  Inl err \<Rightarrow> Inl err
                | Inr history \<Rightarrow>
                    (case unretained d doc of
                       Some signal \<Rightarrow> Inl (unretainedErr signal)
                     | None \<Rightarrow> Inr (doc, dur, history))))"

definition effectiveTTL :: "Definition \<Rightarrow> Document \<Rightarrow> int" where
  "effectiveTTL d doc =
     (let ttl = dRefresh d;
          ttl = (case docHints doc of
                   None \<Rightarrow> ttl
                 | Some h \<Rightarrow> if TTLSeconds h > 0 \<and> TTLSeconds h * Second < ttl then TTLSeconds h * Second else ttl)
      in if ttl < Second then Second else ttl)"

type_synonym historyReader = "string \<Rightarrow> instant \<Rightarrow> instant \<Rightarrow> (string, Sample list) result"

fun bindHistory ::
  "(Sample list \<Rightarrow> Sample list) \<Rightarrow> historyReader \<Rightarrow> instant \<Rightarrow> (string \<times> rat) list \<Rightarrow> (string \<times> int) list \<Rightarrow>
   (schedError, (string \<times> historyPoint list) list) result" where
  "bindHistory srt rd to current [] = Inr []"
| "bindHistory srt rd to current ((signal, window) # bindings) =
     (let from = to - window in
      case rd signal from to of
        Inl err \<Rightarrow> Inl (HistoryFailed err)
      | Inr samples \<Rightarrow>
          let samples = (case map_of current signal of
                           None \<Rightarrow> samples | Some v \<Rightarrow> samples @ [\<lparr>sT = to, sV = v\<rparr>]);
              points = Downsample srt samples from to
          in map_sum id (\<lambda>out. if points = [] then out else (signal, points) # out)
               (bindHistory srt rd to current bindings))"

definition boundHistory ::
  "(Sample list \<Rightarrow> Sample list) \<Rightarrow> historyReader \<Rightarrow> Manager \<Rightarrow> Document \<Rightarrow> instant \<Rightarrow> (string \<times> rat) list \<Rightarrow>
   (schedError, (string \<times> historyPoint list) list) result" where
  "boundHistory srt rd m doc generatedAt current =
     (let bindings = HistoryBindings doc in
      if bindings = [] \<or> mStore m = None then Inr []
      else bindHistory srt rd generatedAt current bindings)"

definition afterRun ::
  "Registry \<Rightarrow> (Sample list \<Rightarrow> Sample list) \<Rightarrow> historyReader \<Rightarrow> instant \<Rightarrow> Manager \<Rightarrow> Definition \<Rightarrow> runResult \<Rightarrow> task" where
  "afterRun reg srt rd now m d result =
     (case checkDocument reg d result of
        Inl err \<Rightarrow> TFailed d err
      | Inr (doc, dur, history) \<Rightarrow>
          (case boundHistory srt rd m doc now history of
             Inl err \<Rightarrow> TDone (Some err)
           | Inr bound \<Rightarrow>
               TReset d ((OK now (dID d) doc (dSource d) (effectiveTTL d doc) dur)\<lparr>csHistory := bound\<rparr>) history))"

definition resetBreaker :: "Definition \<Rightarrow> Manager \<Rightarrow> Manager" where
  "resetBreaker d m = m\<lparr>mFailures := (mFailures m)(dID d \<mapsto> 0), mOpenUntil := (mOpenUntil m)(dID d := None)\<rparr>"

definition stateOf :: "Manager \<Rightarrow> string \<Rightarrow> CardState" where
  "stateOf m ident = (case mStates m ident of
     Some cs \<Rightarrow> cs
   | None \<Rightarrow> \<lparr>csCardID = [], csDocument = None, csExecution = zeroExecution, csHistory = []\<rparr>)"

definition failuresOf :: "Manager \<Rightarrow> string \<Rightarrow> int" where
  "failuresOf m ident = (case mFailures m ident of None \<Rightarrow> 0 | Some n \<Rightarrow> n)"

definition countFailure :: "Manager \<Rightarrow> Definition \<Rightarrow> runErr \<Rightarrow> Manager \<times> task" where
  "countFailure m d err =
     (let ident = dID d; failures = failuresOf m ident + 1
      in (m\<lparr>mFailures := (mFailures m)(ident \<mapsto> failures)\<rparr>, TFailing d failures (stateOf m ident) err))"

definition failureState :: "instant \<Rightarrow> Definition \<Rightarrow> int \<Rightarrow> CardState \<Rightarrow> runErr \<Rightarrow> CardState" where
  "failureState now d failures previous err =
     (let ident = dID d;
          retry = now + backoff failures (dRefresh d);
          re = \<lparr>reCode = classify err, reMessage = errText err, reRetryable = True, reAt = None\<rparr>;
          generatedAt = parseTime (exGeneratedAt (csExecution previous)) in
      if failures \<ge> 3 then
        let open' = now + minDuration (5 * Minute) (backoff failures (dRefresh d)) in
        (case csDocument previous of
           Some doc \<Rightarrow>
             (StaleAfterErrorWithOpenCircuit now ident doc (dSource d) generatedAt now failures open' re)
               \<lparr>csHistory := csHistory previous\<rparr>
         | None \<Rightarrow> ErrorWithOpenCircuit now ident (dSource d) re open')
      else
        (case csDocument previous of
           Some doc \<Rightarrow>
             (StaleAfterError now ident doc (dSource d) generatedAt now failures retry re)
               \<lparr>csHistory := csHistory previous\<rparr>
         | None \<Rightarrow>
             setExecution (\<lambda>e. e\<lparr>exConsecutiveFailures := failures, exNextRunAt := Some retry\<rparr>)
               (Error now ident (dSource d) re)))"

definition openCircuit :: "instant \<Rightarrow> Definition \<Rightarrow> int \<Rightarrow> Manager \<Rightarrow> Manager" where
  "openCircuit now d failures m =
     (if failures \<ge> 3
      then m\<lparr>mOpenUntil := (mOpenUntil m)(dID d \<mapsto>
             now + minDuration (5 * Minute) (backoff failures (dRefresh d)))\<rparr>
      else m)"

text \<open>
  One call of \<open>refresh\<close> that no other task interrupts; \<open>result\<close> is what the run returns.
\<close>

definition refresh ::
  "Registry \<Rightarrow> (Sample list \<Rightarrow> Sample list) \<Rightarrow> historyReader \<Rightarrow> string option \<Rightarrow> instant \<Rightarrow> runResult \<Rightarrow>
   Definition \<Rightarrow> Manager \<Rightarrow> schedError option \<times> Manager" where
  "refresh reg srt rd db now result d m =
     (case refreshStart now m d of
        TDone err \<Rightarrow> (err, m)
      | TCommit d cs history \<Rightarrow> commitWithHistory db d cs history m
      | _ \<Rightarrow>
          (case afterRun reg srt rd now m d result of
             TReset d cs history \<Rightarrow> commitWithHistory db d cs history (resetBreaker d m)
           | TFailed d err \<Rightarrow>
               (case countFailure m d err of
                  (m', TFailing d failures previous err) \<Rightarrow>
                    commitWithHistory db d (failureState now d failures previous err) []
                      (openCircuit now d failures m')
                | (m', _) \<Rightarrow> (None, m'))
           | TDone err \<Rightarrow> (err, m)
           | _ \<Rightarrow> (None, m)))"

definition Refresh ::
  "Registry \<Rightarrow> (Sample list \<Rightarrow> Sample list) \<Rightarrow> historyReader \<Rightarrow> string option \<Rightarrow> instant \<Rightarrow> runResult \<Rightarrow>
   string \<Rightarrow> Manager \<Rightarrow> schedError option \<times> Manager" where
  "Refresh reg srt rd db now result ident m =
     (case mDefs m ident of
        None \<Rightarrow> (Some ErrUnknownCard, m)
      | Some d \<Rightarrow> refresh reg srt rd db now result d m)"

text \<open>The throttle of \<open>RefreshNow\<close>: it returns the definition to refresh, or the error.\<close>

definition admitManual :: "instant \<Rightarrow> string \<Rightarrow> Manager \<Rightarrow> (schedError, Definition) result \<times> Manager" where
  "admitManual now ident m =
     (case mDefs m ident of
        None \<Rightarrow> (Inl ErrUnknownCard, m)
      | Some d \<Rightarrow>
          let last' = (case mManualAt m ident of None \<Rightarrow> zeroTime | Some t \<Rightarrow> t) in
          if last' \<noteq> zeroTime \<and> now - last' < Second then (Inl ErrRateLimited, m)
          else (Inr d, m\<lparr>mManualAt := (mManualAt m)(ident \<mapsto> now)\<rparr>))"

definition RefreshNow ::
  "Registry \<Rightarrow> (Sample list \<Rightarrow> Sample list) \<Rightarrow> historyReader \<Rightarrow> string option \<Rightarrow> instant \<Rightarrow> runResult \<Rightarrow>
   string \<Rightarrow> Manager \<Rightarrow> schedError option \<times> Manager" where
  "RefreshNow reg srt rd db now result ident m =
     (case admitManual now ident m of
        (Inl err, m') \<Rightarrow> (Some err, m')
      | (Inr d, m') \<Rightarrow> refresh reg srt rd db now result d m')"

text \<open>How long a refresh loop sleeps after a refresh that returned \<open>err\<close>.\<close>

definition loopWait :: "instant \<Rightarrow> Manager \<Rightarrow> Definition \<Rightarrow> schedError option \<Rightarrow> int" where
  "loopWait now m d err =
     (let wait = jitter (dID d) (dRefresh d);
          wait = (if err = None
                  then let next = parseTime (exNextRunAt (csExecution (stateOf m (dID d)))) in
                       if next \<noteq> zeroTime \<and> next - now < wait then next - now else wait
                  else wait)
      in if wait < 0 then 0 else wait)"

definition Subscribe :: "nat \<Rightarrow> int \<Rightarrow> Manager \<Rightarrow> Manager" where
  "Subscribe ch buffer m =
     m\<lparr>mSubs := (mSubs m)(ch \<mapsto> \<lparr>subBuffer = nat (if buffer < 1 then 1 else buffer), subQueue = []\<rparr>)\<rparr>"

definition Unsubscribe :: "nat \<Rightarrow> Manager \<Rightarrow> Manager" where
  "Unsubscribe ch m = m\<lparr>mSubs := (mSubs m)(ch := None)\<rparr>"

definition CloseManager :: "Manager \<Rightarrow> Manager" where
  "CloseManager m = m\<lparr>mSubs := Map.empty\<rparr>"

section \<open>Interleaving\<close>

record sys =
  sysM :: Manager
  sysTasks :: "nat \<rightharpoonup> task"

text \<open>Closing a flight: its followers continue with the leader's result.\<close>

definition wakeTask :: "string \<Rightarrow> runResult \<Rightarrow> task \<Rightarrow> task" where
  "wakeTask key result t =
     (case t of TWaiting d k \<Rightarrow> if k = key then TRan d result else t | _ \<Rightarrow> t)"

definition wakeFollowers :: "string \<Rightarrow> runResult \<Rightarrow> (nat \<rightharpoonup> task) \<Rightarrow> (nat \<rightharpoonup> task)" where
  "wakeFollowers key result tasks = (\<lambda>j. map_option (wakeTask key result) (tasks j))"

datatype label = Task nat | Spawn nat | Config | Stream nat

definition cancelled :: runErr where
  "cancelled = RunErr Canceled ''context canceled''"

inductive step :: "Registry \<Rightarrow> (Sample list \<Rightarrow> Sample list) \<Rightarrow> label \<Rightarrow> sys \<Rightarrow> sys \<Rightarrow> bool"
  for reg srt where
  spawn: "sysTasks s i = None \<Longrightarrow> dGeneration d < mGeneration (sysM s) \<or> mDefs (sysM s) (dID d) = Some d \<Longrightarrow>
     step reg srt (Spawn i) s \<lparr>sysM = sysM s, sysTasks = (sysTasks s)(i \<mapsto> TStart d)\<rparr>"
| manual: "sysTasks s i = None \<Longrightarrow> admitManual now ident (sysM s) = (Inr d, m) \<Longrightarrow>
     step reg srt (Spawn i) s \<lparr>sysM = m, sysTasks = (sysTasks s)(i \<mapsto> TStart d)\<rparr>"
| start: "sysTasks s i = Some (TStart d) \<Longrightarrow> 0 \<le> now \<Longrightarrow>
     step reg srt (Task i) s \<lparr>sysM = sysM s, sysTasks = (sysTasks s)(i \<mapsto> refreshStart now (sysM s) d)\<rparr>"
| join: "sysTasks s i = Some (TJoin d) \<Longrightarrow> joinFlight (sysM s) d = (m, t) \<Longrightarrow>
     step reg srt (Task i) s \<lparr>sysM = m, sysTasks = (sysTasks s)(i \<mapsto> t)\<rparr>"
| acquire: "sysTasks s i = Some (TQueued d key) \<Longrightarrow> mWorkers (sysM s) < workers \<Longrightarrow>
     step reg srt (Task i) s
       \<lparr>sysM = (sysM s)\<lparr>mWorkers := mWorkers (sysM s) + 1\<rparr>, sysTasks = (sysTasks s)(i \<mapsto> TRunning d key)\<rparr>"
| abandon: "sysTasks s i = Some (TQueued d key) \<Longrightarrow>
     step reg srt (Task i) s
       \<lparr>sysM = (sysM s)\<lparr>mFlights := mFlights (sysM s) - {key}\<rparr>,
        sysTasks = (wakeFollowers key (Inl cancelled) (sysTasks s))(i \<mapsto> TRan d (Inl cancelled))\<rparr>"
| finish: "sysTasks s i = Some (TRunning d key) \<Longrightarrow>
     step reg srt (Task i) s
       \<lparr>sysM = (sysM s)\<lparr>mFlights := mFlights (sysM s) - {key}, mWorkers := mWorkers (sysM s) - 1\<rparr>,
        sysTasks = (wakeFollowers key result (sysTasks s))(i \<mapsto> TRan d result)\<rparr>"
| giveUp: "sysTasks s i = Some (TWaiting d key) \<Longrightarrow>
     step reg srt (Task i) s \<lparr>sysM = sysM s, sysTasks = (sysTasks s)(i \<mapsto> TRan d (Inl cancelled))\<rparr>"
| ran: "sysTasks s i = Some (TRan d result) \<Longrightarrow> 0 \<le> now \<Longrightarrow>
     step reg srt (Task i) s \<lparr>sysM = sysM s, sysTasks = (sysTasks s)(i \<mapsto> afterRun reg srt rd now (sysM s) d result)\<rparr>"
| reset: "sysTasks s i = Some (TReset d cs history) \<Longrightarrow>
     step reg srt (Task i) s
       \<lparr>sysM = resetBreaker d (sysM s), sysTasks = (sysTasks s)(i \<mapsto> TCommit d cs history)\<rparr>"
| failed: "sysTasks s i = Some (TFailed d err) \<Longrightarrow> countFailure (sysM s) d err = (m, t) \<Longrightarrow>
     step reg srt (Task i) s \<lparr>sysM = m, sysTasks = (sysTasks s)(i \<mapsto> t)\<rparr>"
| failing: "sysTasks s i = Some (TFailing d failures previous err) \<Longrightarrow> 0 \<le> now \<Longrightarrow>
     step reg srt (Task i) s
       \<lparr>sysM = openCircuit now d failures (sysM s),
        sysTasks = (sysTasks s)(i \<mapsto> TCommit d (failureState now d failures previous err) [])\<rparr>"
| commit: "sysTasks s i = Some (TCommit d cs history) \<Longrightarrow> commitWithHistory db d cs history (sysM s) = (err, m) \<Longrightarrow>
     step reg srt (Task i) s \<lparr>sysM = m, sysTasks = (sysTasks s)(i \<mapsto> TDone err)\<rparr>"
| config: "Apply reg now db defs (sysM s) = (err, m) \<Longrightarrow> 0 \<le> now \<Longrightarrow>
     step reg srt Config s \<lparr>sysM = m, sysTasks = sysTasks s\<rparr>"
| subscribe: "mSubs (sysM s) ch = None \<Longrightarrow> step reg srt (Stream ch) s \<lparr>sysM = Subscribe ch buffer (sysM s), sysTasks = sysTasks s\<rparr>"
| closeAll: "step reg srt Config s \<lparr>sysM = CloseManager (sysM s), sysTasks = sysTasks s\<rparr>"
| unsubscribe: "step reg srt (Stream ch) s \<lparr>sysM = Unsubscribe ch (sysM s), sysTasks = sysTasks s\<rparr>"
| receive: "mSubs (sysM s) ch = Some sub \<Longrightarrow> subQueue sub = ev # rest \<Longrightarrow>
     step reg srt (Stream ch) s
       \<lparr>sysM = (sysM s)\<lparr>mSubs := (mSubs (sysM s))(ch \<mapsto> sub\<lparr>subQueue := rest\<rparr>)\<rparr>, sysTasks = sysTasks s\<rparr>"

definition initial :: "store option \<Rightarrow> sys" where
  "initial store = \<lparr>sysM = NewManager store, sysTasks = Map.empty\<rparr>"

text \<open>
  The registry of secrets is shared by the process and grows at any moment: a reload resolves and tracks its
  secrets before it calls \<open>Apply\<close>, and a reload that is refused later has tracked them all the same.  So
  every step uses the registry of its moment.  \<open>applied\<close> is a history variable: the registry when the
  configuration in force was applied.
\<close>

definition appliedWith :: "Registry \<Rightarrow> Registry \<Rightarrow> sys \<Rightarrow> sys \<Rightarrow> Registry" where
  "appliedWith reg applied s s' = (if mGeneration (sysM s') = mGeneration (sysM s) then applied else reg)"

inductive reachable ::
    "(Sample list \<Rightarrow> Sample list) \<Rightarrow> store option \<Rightarrow> Registry \<Rightarrow> Registry \<Rightarrow> sys \<Rightarrow> bool"
  for srt store where
  init: "reachable srt store reg reg (initial store)"
| track: "reachable srt store reg applied s \<Longrightarrow> reachable srt store (Track secret reg) applied s"
| more: "reachable srt store reg applied s \<Longrightarrow> step reg srt l s s' \<Longrightarrow>
     reachable srt store reg (appliedWith reg applied s s') s'"

section \<open>Invariants of reachable states\<close>

text \<open>
  The interface between the step relation and the properties: a predicate that holds initially and
  that every step and every new secret keeps holds in every reachable state.
\<close>

locale system_invariant =
  fixes srt :: "Sample list \<Rightarrow> Sample list" and store :: "store option"
    and I :: "Registry \<Rightarrow> Registry \<Rightarrow> sys \<Rightarrow> bool"
  assumes initially: "I reg reg (initial store)"
    and grown: "I reg applied s \<Longrightarrow> I (Track secret reg) applied s"
    and kept: "I reg applied s \<Longrightarrow> step reg srt l s s' \<Longrightarrow> I reg (appliedWith reg applied s s') s'"
begin

lemma always: "reachable srt store reg applied s \<Longrightarrow> I reg applied s"
  by (induction rule: reachable.induct) (auto intro: initially grown kept)

end

definition storeKeyed :: "store option \<Rightarrow> bool" where
  "storeKeyed store \<longleftrightarrow>
     (\<forall>s ident row. store = Some s \<longrightarrow> cardRows s ident = Some row \<longrightarrow> csCardID (crState row) = ident)"

definition servedOK :: "Registry \<Rightarrow> string \<Rightarrow> CardState \<Rightarrow> bool" where
  "servedOK reg ident cs \<longleftrightarrow>
     csCardID cs = ident \<and> Validate cs = Inr () \<and> \<not> documentLeaksSecret reg (csDocument cs)"

definition defsKeyed :: "(string \<rightharpoonup> Definition) \<Rightarrow> bool" where
  "defsKeyed defs \<longleftrightarrow> (\<forall>ident d. defs ident = Some d \<longrightarrow> dID d = ident)"

definition ofGeneration :: "nat \<Rightarrow> (string \<rightharpoonup> Definition) \<Rightarrow> bool" where
  "ofGeneration g defs \<longleftrightarrow> (\<forall>ident d. defs ident = Some d \<longrightarrow> dGeneration d = g)"

definition allServed :: "Registry \<Rightarrow> (string \<rightharpoonup> CardState) \<Rightarrow> bool" where
  "allServed reg states \<longleftrightarrow> (\<forall>ident cs. states ident = Some cs \<longrightarrow> servedOK reg ident cs)"

definition managerInv :: "Registry \<Rightarrow> Manager \<Rightarrow> bool" where
  "managerInv reg m \<longleftrightarrow>
     dom (mStates m) = dom (mDefs m) \<and> defsKeyed (mDefs m) \<and> ofGeneration (mGeneration m) (mDefs m) \<and>
     allServed reg (mStates m) \<and> storeKeyed (mStore m)"

definition pred_map :: "('v \<Rightarrow> bool) \<Rightarrow> ('k \<rightharpoonup> 'v) \<Rightarrow> bool" where
  "pred_map P f \<longleftrightarrow> (\<forall>k v. f k = Some v \<longrightarrow> P v)"

definition taskInv :: "Registry \<Rightarrow> task \<Rightarrow> bool" where
  "taskInv reg t =
     (case t of
        TReset d cs history \<Rightarrow> csCardID cs = dID d \<and> \<not> documentLeaksSecret reg (csDocument cs)
      | TCommit d cs history \<Rightarrow> csCardID cs = dID d \<and> \<not> documentLeaksSecret reg (csDocument cs)
      | TFailing d failures previous err \<Rightarrow> \<not> documentLeaksSecret reg (csDocument previous)
      | _ \<Rightarrow> True)"

text \<open>The definition a task works for.\<close>

fun taskDef :: "task \<Rightarrow> Definition option" where
  "taskDef (TStart d) = Some d"
| "taskDef (TJoin d) = Some d"
| "taskDef (TQueued d key) = Some d"
| "taskDef (TRunning d key) = Some d"
| "taskDef (TWaiting d key) = Some d"
| "taskDef (TRan d result) = Some d"
| "taskDef (TReset d cs history) = Some d"
| "taskDef (TFailed d err) = Some d"
| "taskDef (TFailing d failures previous err) = Some d"
| "taskDef (TCommit d cs history) = Some d"
| "taskDef (TDone err) = None"

text \<open>Only a task of the generation in force can commit; what it carries was scanned for the secrets of that generation.\<close>

definition taskOK :: "nat \<Rightarrow> Registry \<Rightarrow> task \<Rightarrow> bool" where
  "taskOK g reg t \<longleftrightarrow>
     (\<forall>d. taskDef t = Some d \<longrightarrow> dGeneration d \<le> g \<and> (dGeneration d = g \<longrightarrow> taskInv reg t))"

definition statesInv :: "Registry \<Rightarrow> Registry \<Rightarrow> sys \<Rightarrow> bool" where
  "statesInv reg applied s \<longleftrightarrow>
     set applied \<subseteq> set reg \<and> managerInv applied (sysM s) \<and>
     pred_map (taskOK (mGeneration (sysM s)) applied) (sysTasks s)"

lemma managerInv_cong:
  "managerInv reg m \<Longrightarrow> mDefs m' = mDefs m \<Longrightarrow> mStates m' = mStates m \<Longrightarrow> mStore m' = mStore m \<Longrightarrow>
   mGeneration m' = mGeneration m \<Longrightarrow> managerInv reg m'"
  by (simp add: managerInv_def)

lemma leak_None [simp]: "\<not> documentLeaksSecret reg None"
  by (simp add: documentLeaksSecret_def)

lemma csCardID_constructors [simp]:
  "csCardID (Pending i) = i" "csCardID (OK now i doc src ttl dur) = i"
  "csCardID (Stale i doc src g st n t) = i" "csCardID (StaleAfterError now i doc src g st n t e) = i"
  "csCardID (StaleAfterErrorWithOpenCircuit now i doc src g st n t e) = i"
  "csCardID (Error now i src e) = i" "csCardID (ErrorWithOpenCircuit now i src e t) = i"
  "csCardID (Disabled i retained reason) = i" "csCardID (setExecution f cs) = csCardID cs"
  by (simp_all add: constructor_defs)

lemma csDocument_constructors [simp]:
  "csDocument (Pending i) = None" "csDocument (OK now i doc src ttl dur) = Some doc"
  "csDocument (Stale i doc src g st n t) = Some doc"
  "csDocument (StaleAfterError now i doc src g st n t e) = Some doc"
  "csDocument (StaleAfterErrorWithOpenCircuit now i doc src g st n t e) = Some doc"
  "csDocument (Error now i src e) = None" "csDocument (ErrorWithOpenCircuit now i src e t) = None"
  "csDocument (Disabled i retained reason) = retained" "csDocument (setExecution f cs) = csDocument cs"
  by (simp_all add: constructor_defs)

lemma restored_served: "servedOK reg ident cs \<Longrightarrow> servedOK reg ident (restored now cs src)"
  by (auto simp: servedOK_def restored_def Let_def Validate_Stale split: option.splits)

lemma Pending_served: "servedOK reg ident (Pending ident)"
  by (simp add: servedOK_def Validate_Pending)

definition preparedInv :: "Registry \<Rightarrow> prepared \<Rightarrow> bool" where
  "preparedInv reg p \<longleftrightarrow>
     dom (pStates p) = dom (pDefs p) \<and> defsKeyed (pDefs p) \<and> allServed reg (pStates p)"

lemma allServed_upd: "allServed reg states \<Longrightarrow> servedOK reg i cs \<Longrightarrow> allServed reg (states(i \<mapsto> cs))"
  by (simp add: allServed_def)

lemma defsKeyed_upd: "defsKeyed defs \<Longrightarrow> defsKeyed (defs(dID d \<mapsto> d))"
  by (simp add: defsKeyed_def)

lemma empty_keyed [simp]: "defsKeyed Map.empty" "ofGeneration g Map.empty" "allServed reg Map.empty"
  by (simp_all add: defsKeyed_def ofGeneration_def allServed_def)

lemma defs_of_generation:
  assumes "defsKeyed defs"
  shows "defsKeyed (\<lambda>i. map_option (\<lambda>d. d\<lparr>dGeneration := g\<rparr>) (defs i)) \<and>
         ofGeneration g (\<lambda>i. map_option (\<lambda>d. d\<lparr>dGeneration := g\<rparr>) (defs i))"
proof -
  have "dID d = i \<and> dGeneration d = g" if d: "map_option (\<lambda>d. d\<lparr>dGeneration := g\<rparr>) (defs i) = Some d" for i d
  proof -
    obtain e where e: "defs i = Some e" "d = e\<lparr>dGeneration := g\<rparr>" using d by (cases "defs i") auto
    then show ?thesis using assms unfolding defsKeyed_def by simp
  qed
  then show ?thesis unfolding defsKeyed_def ofGeneration_def by blast
qed

lemma storeKeyed_delete:
  assumes "storeKeyed (Some s)" and "cardRows s' = cardRows s \<or> cardRows s' = (cardRows s)(i := None)"
  shows "storeKeyed (Some s')"
  using assms(2)
proof
  assume "cardRows s' = (cardRows s)(i := None)"
  then show ?thesis using assms(1) by (simp add: storeKeyed_def)
qed (use assms(1) in \<open>simp add: storeKeyed_def\<close>)

lemma preparedInv_restore:
  assumes "preparedInv reg p" and "pDefs p i \<noteq> None" and "servedOK reg i cs"
  shows "preparedInv reg (p\<lparr>pStates := (pStates p)(i \<mapsto> cs), pFailures := f, pOpen := t\<rparr>)"
proof -
  have "i \<in> dom (pDefs p)" using assms(2) by blast
  then show ?thesis using assms(1,3) unfolding preparedInv_def by (simp add: insert_absorb allServed_upd)
qed

lemma restoreCard_inv:
  assumes "restoreCard reg now db d store p = (r, store')" and "storeKeyed store"
    and "preparedInv reg p" and "pDefs p (dID d) = Some d"
  shows "storeKeyed store' \<and> (\<forall>p'. r = Inr p' \<longrightarrow> preparedInv reg p')"
proof (cases store)
  case None
  then show ?thesis using assms by (auto simp: restoreCard_def)
next
  case (Some s)
  obtain q s' where get: "GetCardFor db (dID d) (expectedRecord d) s = (q, s')" by fastforce
  have keyed: "storeKeyed (Some s')"
    using storeKeyed_delete GetCardFor_cardRows[OF get] assms(2) Some by blast
  consider err where "q = Inl err" | "q = Inr None" | old where "q = Inr (Some old)"
    by (metis old.sum.exhaust option.exhaust)
  then show ?thesis
  proof cases
    case (3 old)
    note row = GetCardFor_Some[OF get[unfolded 3]]
    then have "csCardID old = dID d" using assms(2) Some unfolding storeKeyed_def by blast
    then have ok: "servedOK reg (dID d) (restored now old (dSource d))" if "\<not> documentLeaksSecret reg (csDocument old)"
      using row that by (intro restored_served) (simp add: servedOK_def)
    show ?thesis
    proof (cases "documentLeaksSecret reg (csDocument old)")
      case True
      then show ?thesis using assms(1,3) keyed by (auto simp: restoreCard_def Some get 3)
    next
      case False
      have "preparedInv reg (p\<lparr>pStates := (pStates p)(dID d \<mapsto> restored now old (dSource d)),
          pFailures := f, pOpen := t\<rparr>)" for f t
        using assms(3,4) ok[OF False] by (intro preparedInv_restore) simp_all
      then show ?thesis using assms(1) keyed False by (auto simp: restoreCard_def Some get 3)
    qed
  qed (use assms(1,3) keyed in \<open>auto simp: restoreCard_def Some get\<close>)
qed

lemma prepare_inv:
  assumes "prepare reg now db defs store p = (r, store')" and "storeKeyed store" and "preparedInv reg p"
  shows "storeKeyed store' \<and> (\<forall>p'. r = Inr p' \<longrightarrow> preparedInv reg p')"
  using assms
proof (induction defs arbitrary: store p)
  case (Cons d defs)
  define d' where "d' = withDefaults d"
  define p1 where "p1 = p\<lparr>pDefs := (pDefs p)(dID d' \<mapsto> d'), pStates := (pStates p)(dID d' \<mapsto> Pending (dID d'))\<rparr>"
  have p1: "preparedInv reg p1" "pDefs p1 (dID d') = Some d'"
    using Cons.prems(3) by (simp_all add: preparedInv_def p1_def Pending_served allServed_upd defsKeyed_upd)
  obtain q st where rc: "restoreCard reg now (db (dID d')) d' store p1 = (q, st)" by fastforce
  have "storeKeyed st \<and> (\<forall>p'. q = Inr p' \<longrightarrow> preparedInv reg p')"
    using restoreCard_inv[OF rc Cons.prems(2) p1] .
  then show ?case using Cons.IH[of st] Cons.prems rc
    by (cases q) (auto simp: Let_def d'_def[symmetric] p1_def[symmetric] split: if_splits)
qed auto

lemma dom_map_option: "dom (\<lambda>x. map_option f (g x)) = dom g"
  by (auto simp: dom_def)

lemma Apply_inv:
  assumes "Apply reg now db defs m = (err, m')" and "managerInv applied m"
  shows "mGeneration m' = mGeneration m \<and> managerInv applied m' \<or>
    mGeneration m' = mGeneration m + 1 \<and> managerInv reg m'"
proof -
  obtain r store where pr: "prepare reg now db defs (mStore m) emptyPrepared = (r, store)" by fastforce
  have inv: "storeKeyed store \<and> (\<forall>p'. r = Inr p' \<longrightarrow> preparedInv reg p')"
    using assms(2) by (intro prepare_inv[OF pr]) (auto simp: managerInv_def preparedInv_def emptyPrepared_def)
  show ?thesis
  proof (cases r)
    case (Inl e)
    then have m': "m' = m\<lparr>mStore := store\<rparr>" using assms(1) pr by (simp add: Apply_def)
    show ?thesis using assms(2) inv unfolding m' by (simp add: managerInv_def)
  next
    case (Inr p)
    then have m': "m' = m\<lparr>mStore := store, mGeneration := mGeneration m + 1,
        mDefs := (\<lambda>ident. map_option (\<lambda>d. d\<lparr>dGeneration := mGeneration m + 1\<rparr>) (pDefs p ident)),
        mStates := pStates p, mFailures := pFailures p, mOpenUntil := pOpen p, mManualAt := Map.empty\<rparr>"
      using assms(1) pr by (simp add: Apply_def Let_def)
    have "preparedInv reg p" "storeKeyed store" using inv Inr by auto
    then show ?thesis unfolding m' managerInv_def preparedInv_def
      by (simp add: dom_map_option defs_of_generation)
  qed
qed

lemma putCard_keyed:
  assumes "putCard db d cs history store = Inr store'" and "storeKeyed store"
  shows "storeKeyed store'"
proof (cases store)
  case (Some s)
  then obtain s' where "PutCardWithSignals db ((expectedRecord d)\<lparr>crState := cs\<rparr>) history s = (None, s')" "store' = Some s'"
    using assms(1) by (auto simp: putCard_def split: prod.splits option.splits)
  then show ?thesis using PutCardWithSignals_ok assms(2) Some by (fastforce simp: storeKeyed_def split: if_splits)
qed (use assms in \<open>auto simp: putCard_def\<close>)

lemma commit_inv:
  assumes "commitWithHistory db d cs history m = (err, m')" and "managerInv reg m"
    and "isCurrent m d \<Longrightarrow> csCardID cs = dID d \<and> \<not> documentLeaksSecret reg (csDocument cs)"
  shows "managerInv reg m' \<and> mGeneration m' = mGeneration m"
proof -
  consider "m' = m" | store where "Validate cs = Inr ()" "isCurrent m d"
      "putCard db d cs history (mStore m) = Inr store" "mStates m' = (mStates m)(dID d \<mapsto> cs)"
      "mDefs m' = mDefs m" "mStore m' = store" "mGeneration m' = mGeneration m"
    using assms(1) by (auto simp: commitWithHistory_def Let_def split: sum.splits if_splits)
  then show ?thesis
  proof cases
    case 2
    then have "dID d \<in> dom (mDefs m)" by (auto simp: isCurrent_def split: option.splits)
    moreover have "storeKeyed store" using putCard_keyed[OF 2(3)] assms(2) by (simp add: managerInv_def)
    ultimately show ?thesis using 2 assms(2) assms(3)[OF 2(2)]
      unfolding managerInv_def by (simp add: servedOK_def insert_absorb allServed_upd)
  qed (use assms(2) in simp)
qed

lemma pred_map_upd: "pred_map P f \<Longrightarrow> P v \<Longrightarrow> pred_map P (f(k \<mapsto> v))"
  by (simp add: pred_map_def)

lemma pred_mapD: "pred_map P f \<Longrightarrow> f k = Some v \<Longrightarrow> P v"
  by (simp add: pred_map_def)

lemma taskInv_start: "taskInv reg (TStart d)" "taskInv reg (TRunning d k)" "taskInv reg (TRan d r)"
    "taskInv reg (TDone e)" "taskInv reg (TQueued d k)" "taskInv reg (TWaiting d k)"
  by (simp_all add: taskInv_def)

lemma taskOK_wake: "taskOK g reg t \<Longrightarrow> taskOK g reg (wakeTask key result t)"
  by (cases t) (simp_all add: wakeTask_def taskOK_def taskInv_def)

lemma pred_map_wake: "pred_map (taskOK g reg) f \<Longrightarrow> pred_map (taskOK g reg) (wakeFollowers key result f)"
  using taskOK_wake by (auto simp: pred_map_def wakeFollowers_def)

lemma taskInv_refreshStart: "taskInv reg (refreshStart now m d)"
  by (simp add: refreshStart_def taskInv_def Let_def)

lemma taskInv_joinFlight: "joinFlight m d = (m', t) \<Longrightarrow> taskInv reg t"
  by (auto simp: joinFlight_def Let_def taskInv_def split: if_splits)

lemma leak_mono: "set applied \<subseteq> set reg \<Longrightarrow> documentLeaksSecret applied doc \<Longrightarrow> documentLeaksSecret reg doc"
  using ContainsSecretInDocument_mono by (auto simp: documentLeaksSecret_def split: option.splits)

lemma checkDocument_no_leak:
  "checkDocument reg d result = Inr (doc, dur, history) \<Longrightarrow> \<not> documentLeaksSecret reg (Some doc)"
  by (auto simp: checkDocument_def split: sum.splits prod.splits option.splits if_splits)

lemma taskInv_afterRun: "set applied \<subseteq> set reg \<Longrightarrow> taskInv applied (afterRun reg srt rd now m d result)"
  using leak_mono by (fastforce simp: afterRun_def taskInv_def dest: checkDocument_no_leak split: sum.splits prod.splits)

text \<open>A step of a task keeps the definition the task works for.\<close>

lemma taskDef_steps:
  "taskDef (refreshStart now m d) \<in> {None, Some d}" "joinFlight m d = (m', t) \<Longrightarrow> taskDef t = Some d"
  "taskDef (afterRun reg srt rd now m d result) \<in> {None, Some d}"
  by (auto simp: refreshStart_def joinFlight_def afterRun_def Let_def split: if_splits sum.splits prod.splits)

lemma taskOK_next:
  assumes "taskOK g reg t" "taskDef t = Some d" "taskDef t' \<in> {None, Some d}" "dGeneration d = g \<Longrightarrow> taskInv reg t'"
  shows "taskOK g reg t'"
  using assms by (auto simp: taskOK_def)

lemma failureState_document: "csDocument (failureState now d failures previous err) = csDocument previous"
  by (simp add: failureState_def Let_def split: option.splits)

lemma failureState_id: "csCardID (failureState now d failures previous err) = dID d"
  by (simp add: failureState_def Let_def split: option.splits)

lemma stateOf_no_leak: "managerInv reg m \<Longrightarrow> \<not> documentLeaksSecret reg (csDocument (stateOf m ident))"
  by (auto simp: stateOf_def managerInv_def allServed_def servedOK_def split: option.splits)

lemma countFailure_frame:
  "countFailure m d err = (m', t) \<Longrightarrow>
   mDefs m' = mDefs m \<and> mStates m' = mStates m \<and> mStore m' = mStore m \<and> mGeneration m' = mGeneration m \<and>
   mSubs m' = mSubs m \<and> mNextID m' = mNextID m \<and> mFlights m' = mFlights m \<and> mWorkers m' = mWorkers m \<and>
   t = TFailing d (failuresOf m (dID d) + 1) (stateOf m (dID d)) err"
  by (auto simp: countFailure_def Let_def)

lemma managerInv_openCircuit: "managerInv reg m \<Longrightarrow> managerInv reg (openCircuit now d n m)"
  by (simp add: openCircuit_def managerInv_def)

lemma managerInv_simps [simp]:
  "managerInv reg (m\<lparr>mFlights := fl\<rparr>) = managerInv reg m" "managerInv reg (m\<lparr>mWorkers := w\<rparr>) = managerInv reg m"
  "managerInv reg (m\<lparr>mSubs := su\<rparr>) = managerInv reg m" "managerInv reg (m\<lparr>mManualAt := ma\<rparr>) = managerInv reg m"
  "managerInv reg (resetBreaker d m) = managerInv reg m" "managerInv reg (Subscribe ch buffer m) = managerInv reg m"
  "managerInv reg (Unsubscribe ch m) = managerInv reg m" "managerInv reg (CloseManager m) = managerInv reg m"
  by (simp_all add: managerInv_def resetBreaker_def Subscribe_def Unsubscribe_def CloseManager_def)

lemma managerInv_joinFlight: "joinFlight m d = (m', t) \<Longrightarrow> managerInv reg m \<Longrightarrow> managerInv reg m'"
  by (auto simp: joinFlight_def Let_def split: if_splits)

lemma managerInv_admitManual: "admitManual now ident m = (r, m') \<Longrightarrow> managerInv reg m \<Longrightarrow> managerInv reg m'"
  by (auto simp: admitManual_def Let_def split: option.splits if_splits)

lemma current_generation: "managerInv reg m \<Longrightarrow> isCurrent m d \<Longrightarrow> dGeneration d = mGeneration m"
  by (auto simp: isCurrent_def managerInv_def ofGeneration_def split: option.splits)

lemma generation_frame [simp]:
  "mGeneration (resetBreaker d m) = mGeneration m" "mGeneration (openCircuit now d n m) = mGeneration m"
  "mGeneration (Subscribe ch buffer m) = mGeneration m" "mGeneration (Unsubscribe ch m) = mGeneration m"
  "mGeneration (CloseManager m) = mGeneration m"
  by (simp_all add: resetBreaker_def openCircuit_def Subscribe_def Unsubscribe_def CloseManager_def)

text \<open>A step that changes one task and leaves the generation.\<close>

lemma statesInv_task:
  assumes "statesInv reg applied s" "mGeneration m = mGeneration (sysM s)" "managerInv applied m"
    and "pred_map (taskOK (mGeneration (sysM s)) applied) tasks" "taskOK (mGeneration (sysM s)) applied t"
  shows "statesInv reg (appliedWith reg applied s \<lparr>sysM = m, sysTasks = tasks(i \<mapsto> t)\<rparr>) \<lparr>sysM = m, sysTasks = tasks(i \<mapsto> t)\<rparr>"
  using assms by (simp add: statesInv_def appliedWith_def pred_map_upd)

lemma statesInv_taskOK: "statesInv reg applied s \<Longrightarrow> sysTasks s i = Some t \<Longrightarrow> taskOK (mGeneration (sysM s)) applied t"
  by (auto simp: statesInv_def dest: pred_mapD)

lemma taskOK_phase:
  assumes "pred_map (taskOK g reg) tasks" "tasks i = Some t" "t \<in> {TQueued d key, TRunning d key, TWaiting d key}"
  shows "taskOK g reg (TRunning d key) \<and> taskOK g reg (TRan d result)"
  using pred_mapD[OF assms(1,2)] assms(3) by (auto simp: taskOK_def taskInv_def)

lemma statesInv_step: "step reg srt l s s' \<Longrightarrow> statesInv reg applied s \<Longrightarrow> statesInv reg (appliedWith reg applied s s') s'"
proof (induction rule: step.induct)
  case (spawn s i d)
  then have "dGeneration d \<le> mGeneration (sysM s)" by (auto simp: statesInv_def managerInv_def ofGeneration_def)
  then show ?case using spawn by (intro statesInv_task) (simp_all add: statesInv_def taskOK_def taskInv_def)
next
  case (manual s i now ident d m)
  then have "dGeneration d = mGeneration (sysM s)" "mGeneration m = mGeneration (sysM s)"
    by (auto simp: admitManual_def Let_def statesInv_def managerInv_def ofGeneration_def split: option.splits if_splits)
  then show ?case using manual
    by (intro statesInv_task) (simp_all add: statesInv_def taskOK_def taskInv_def managerInv_admitManual)
next
  case (start s i d now)
  have "taskOK (mGeneration (sysM s)) applied (refreshStart now (sysM s) d)"
    by (rule taskOK_next[OF statesInv_taskOK[OF start(3,1)]]) (use taskDef_steps(1)[of now "sysM s" d] in \<open>simp_all add: taskInv_refreshStart\<close>)
  then show ?case using start by (intro statesInv_task) (simp_all add: statesInv_def)
next
  case (join s i d m t)
  have "taskOK (mGeneration (sysM s)) applied t"
    by (rule taskOK_next[OF statesInv_taskOK[OF join(3,1)]])
      (use taskDef_steps(2)[OF join(2)] taskInv_joinFlight[OF join(2)] in simp_all)
  moreover have "mGeneration m = mGeneration (sysM s)" using join(2) by (auto simp: joinFlight_def Let_def split: if_splits)
  ultimately show ?case using join by (intro statesInv_task) (simp_all add: statesInv_def managerInv_joinFlight)
next
  case (ran s i d result now rd)
  have "taskOK (mGeneration (sysM s)) applied (afterRun reg srt rd now (sysM s) d result)"
    by (rule taskOK_next[OF statesInv_taskOK[OF ran(3,1)]])
      (use taskDef_steps(3)[of reg srt rd now "sysM s" d result] ran(3) in
        \<open>simp_all add: statesInv_def taskInv_afterRun\<close>)
  then show ?case using ran by (intro statesInv_task) (simp_all add: statesInv_def)
next
  case (failed s i d err m t)
  note f = countFailure_frame[OF failed(2)]
  have inv: "managerInv applied (sysM s)" using failed(3) by (simp add: statesInv_def)
  have "taskOK (mGeneration (sysM s)) applied t"
    by (rule taskOK_next[OF statesInv_taskOK[OF failed(3,1)]]) (use f stateOf_no_leak[OF inv] in \<open>simp_all add: taskInv_def\<close>)
  moreover have "managerInv applied m" using inv f by (auto intro: managerInv_cong)
  ultimately show ?case using failed(3) f by (intro statesInv_task) (simp_all add: statesInv_def)
next
  case (failing s i d failures previous err now)
  note ok = statesInv_taskOK[OF failing(3,1)]
  have "taskOK (mGeneration (sysM s)) applied (TCommit d (failureState now d failures previous err) [])"
    by (rule taskOK_next[OF ok]) (use ok in \<open>auto simp: taskOK_def taskInv_def failureState_document failureState_id\<close>)
  then show ?case using failing by (intro statesInv_task) (simp_all add: statesInv_def managerInv_openCircuit)
next
  case (reset s i d cs history)
  note ok = statesInv_taskOK[OF reset(2,1)]
  have "taskOK (mGeneration (sysM s)) applied (TCommit d cs history)"
    by (rule taskOK_next[OF ok]) (use ok in \<open>auto simp: taskOK_def taskInv_def\<close>)
  then show ?case using reset by (intro statesInv_task) (simp_all add: statesInv_def)
next
  case (commit s i d cs history db err m)
  note ok = statesInv_taskOK[OF commit(3,1)]
  have inv: "managerInv applied (sysM s)" using commit(3) by (simp add: statesInv_def)
  have "managerInv applied m \<and> mGeneration m = mGeneration (sysM s)"
    by (rule commit_inv[OF commit(2) inv]) (use ok current_generation[OF inv] in \<open>auto simp: taskOK_def taskInv_def\<close>)
  then show ?case using commit(3) by (intro statesInv_task) (simp_all add: statesInv_def taskOK_def)
next
  case (config now db defs s err m)
  have inv: "managerInv applied (sysM s)" "set applied \<subseteq> set reg" using config(3) by (simp_all add: statesInv_def)
  show ?case using Apply_inv[OF config(1) inv(1)]
  proof
    assume "mGeneration m = mGeneration (sysM s) \<and> managerInv applied m"
    then show ?thesis using config(3) by (simp add: statesInv_def appliedWith_def)
  next
    assume m: "mGeneration m = mGeneration (sysM s) + 1 \<and> managerInv reg m"
    have "pred_map (taskOK (mGeneration (sysM s) + 1) reg) (sysTasks s)"
      using config(3) by (fastforce simp: statesInv_def pred_map_def taskOK_def)
    then show ?thesis using m by (simp add: statesInv_def appliedWith_def)
  qed
qed (auto simp: statesInv_def appliedWith_def intro!: pred_map_upd pred_map_wake dest: taskOK_phase)

interpretation states: system_invariant srt store "\<lambda>reg applied s. storeKeyed store \<longrightarrow> statesInv reg applied s"
  for srt store
proof
  show "storeKeyed store \<longrightarrow> statesInv reg reg (initial store)" for reg
    by (simp add: statesInv_def initial_def managerInv_def NewManager_def pred_map_def)
  show "storeKeyed store \<longrightarrow> statesInv (Track secret reg) applied s"
    if "storeKeyed store \<longrightarrow> statesInv reg applied s" for reg applied s secret
    using that Track_grows[of reg secret] by (auto simp: statesInv_def)
qed (auto intro: statesInv_step)

subsection \<open>Shared flights and workers\<close>

definition leaderKey :: "task \<Rightarrow> string option" where
  "leaderKey t = (case t of TQueued d key \<Rightarrow> Some key | TRunning d key \<Rightarrow> Some key | _ \<Rightarrow> None)"

definition isRunning :: "task \<Rightarrow> bool" where
  "isRunning t = (case t of TRunning d key \<Rightarrow> True | _ \<Rightarrow> False)"

definition waitsFor :: "task \<Rightarrow> string option" where
  "waitsFor t = (case t of TWaiting d key \<Rightarrow> Some key | _ \<Rightarrow> None)"

definition leaders :: "(nat \<rightharpoonup> task) \<Rightarrow> string \<Rightarrow> nat set" where
  "leaders tasks key = {i. \<exists>t. tasks i = Some t \<and> leaderKey t = Some key}"

definition running :: "(nat \<rightharpoonup> task) \<Rightarrow> nat set" where
  "running tasks = {i. \<exists>t. tasks i = Some t \<and> isRunning t}"

definition followed :: "string set \<Rightarrow> (nat \<rightharpoonup> task) \<Rightarrow> bool" where
  "followed flights tasks \<longleftrightarrow> (\<forall>i t key. tasks i = Some t \<longrightarrow> waitsFor t = Some key \<longrightarrow> key \<in> flights)"

definition oneLeader :: "string set \<Rightarrow> (nat \<rightharpoonup> task) \<Rightarrow> bool" where
  "oneLeader flights tasks \<longleftrightarrow>
     (\<forall>key. if key \<in> flights then \<exists>i. leaders tasks key = {i} else leaders tasks key = {})"

definition flightInv :: "sys \<Rightarrow> bool" where
  "flightInv s \<longleftrightarrow>
     finite (dom (sysTasks s)) \<and> oneLeader (mFlights (sysM s)) (sysTasks s) \<and>
     followed (mFlights (sysM s)) (sysTasks s) \<and>
     mWorkers (sysM s) = card (running (sysTasks s)) \<and> mWorkers (sysM s) \<le> workers"

lemma leaderKey_iff: "leaderKey t = Some key \<longleftrightarrow> (\<exists>e. t = TQueued e key \<or> t = TRunning e key)"
  by (cases t) (auto simp: leaderKey_def)

lemma isRunning_iff: "isRunning t \<longleftrightarrow> (\<exists>d key. t = TRunning d key)"
  by (cases t) (auto simp: isRunning_def)

lemma leaders_upd:
  "leaders (tasks(i \<mapsto> t)) key = (if leaderKey t = Some key then insert i (leaders tasks key) else leaders tasks key - {i})"
  by (auto simp: leaders_def split: if_splits)

lemma running_upd:
  "running (tasks(i \<mapsto> t)) = (if isRunning t then insert i (running tasks) else running tasks - {i})"
  by (auto simp: running_def split: if_splits)

lemma plain_leader: "leaderKey t = None \<Longrightarrow> \<not> isRunning t"
  by (cases t) (auto simp: leaderKey_def isRunning_def)

lemma finite_running: "finite (dom tasks) \<Longrightarrow> finite (running tasks)"
  by (rule finite_subset[of _ "dom tasks"]) (auto simp: running_def)

text \<open>A task that leads no flight before and after a step and does not start to wait changes nothing.\<close>

definition plain :: "(nat \<rightharpoonup> task) \<Rightarrow> nat \<Rightarrow> bool" where
  "plain tasks i \<longleftrightarrow> (\<forall>t. tasks i = Some t \<longrightarrow> leaderKey t = None)"

lemma plain_outside: "plain tasks i \<Longrightarrow> i \<notin> leaders tasks key \<and> i \<notin> running tasks"
  by (auto simp: plain_def leaders_def running_def dest: plain_leader)

lemma flightInv_plain:
  assumes "flightInv s" and "plain (sysTasks s) i" and "leaderKey t = None" and "waitsFor t = None"
    and "mFlights m = mFlights (sysM s)" and "mWorkers m = mWorkers (sysM s)"
  shows "flightInv \<lparr>sysM = m, sysTasks = (sysTasks s)(i \<mapsto> t)\<rparr>"
proof -
  have "leaders ((sysTasks s)(i \<mapsto> t)) key = leaders (sysTasks s) key" for key
    using plain_outside[OF assms(2)] assms(3) by (simp add: leaders_upd)
  moreover have "running ((sysTasks s)(i \<mapsto> t)) = running (sysTasks s)"
    using plain_outside[OF assms(2)] plain_leader[OF assms(3)] by (simp add: running_upd)
  moreover have "followed (mFlights (sysM s)) ((sysTasks s)(i \<mapsto> t))"
    using assms(1,4) by (auto simp: flightInv_def followed_def)
  ultimately show ?thesis using assms(1,5,6) by (simp add: flightInv_def oneLeader_def)
qed

lemma wakeTask_frame:
  "leaderKey (wakeTask key result t) = leaderKey t" "isRunning (wakeTask key result t) = isRunning t"
  "waitsFor (wakeTask key result t) = (if waitsFor t = Some key then None else waitsFor t)"
  by (cases t; simp add: wakeTask_def leaderKey_def isRunning_def waitsFor_def)+

lemma wake_frame:
  "leaders (wakeFollowers key result tasks) k = leaders tasks k"
  "running (wakeFollowers key result tasks) = running tasks"
  "dom (wakeFollowers key result tasks) = dom tasks"
  by (auto simp: leaders_def running_def dom_def wakeFollowers_def wakeTask_frame)

lemma followed_wake: "followed flights tasks \<Longrightarrow> followed (flights - {key}) (wakeFollowers key result tasks)"
  unfolding followed_def wakeFollowers_def by (auto simp: wakeTask_frame split: if_splits)

lemma followed_upd: "followed flights tasks \<Longrightarrow> waitsFor t = None \<Longrightarrow> followed flights (tasks(i \<mapsto> t))"
  by (simp add: followed_def)

lemma flightInv_land:
  assumes inv: "flightInv s" and i: "sysTasks s i = Some t" "leaderKey t = Some key"
    and w: "mWorkers m = card (running (sysTasks s) - {i})" and f: "mFlights m = mFlights (sysM s) - {key}"
  shows "flightInv \<lparr>sysM = m, sysTasks = (wakeFollowers key result (sysTasks s))(i \<mapsto> TRan d result)\<rparr>"
proof -
  let ?tasks = "(wakeFollowers key result (sysTasks s))(i \<mapsto> TRan d result)"
  have fin: "finite (dom (sysTasks s))" using inv by (simp add: flightInv_def)
  have lead: "leaders ?tasks k = leaders (sysTasks s) k - {i}" for k
    by (simp add: leaders_upd wake_frame) (simp add: leaderKey_def)
  have "i \<in> leaders (sysTasks s) key" using i by (simp add: leaders_def)
  then have mine: "leaders (sysTasks s) key = {i}"
    using inv by (auto simp: flightInv_def oneLeader_def dest!: spec[of _ key] split: if_splits)
  have one: "oneLeader (mFlights m) ?tasks"
    unfolding oneLeader_def
  proof
    fix k
    have "k \<noteq> key \<Longrightarrow> i \<notin> leaders (sysTasks s) k" using i by (auto simp: leaders_def)
    then show "if k \<in> mFlights m then \<exists>j. leaders ?tasks k = {j} else leaders ?tasks k = {}"
      using inv mine unfolding lead f flightInv_def oneLeader_def by (cases "k = key") (auto split: if_splits)
  qed
  have "followed (mFlights m) ?tasks"
    using inv unfolding f flightInv_def by (intro followed_upd followed_wake) (simp_all add: waitsFor_def)
  moreover have "running ?tasks = running (sysTasks s) - {i}"
    by (simp add: running_upd wake_frame) (simp add: isRunning_def)
  moreover have "card (running (sysTasks s) - {i}) \<le> workers"
    using inv finite_running[OF fin] card_Diff1_le[of "running (sysTasks s)" i] by (simp add: flightInv_def)
  ultimately show ?thesis using one fin w by (simp add: flightInv_def wake_frame)
qed

lemma flightInv_join:
  assumes inv: "flightInv s" and i: "sysTasks s i = Some (TJoin d)" and j: "joinFlight (sysM s) d = (m, t)"
  shows "flightInv \<lparr>sysM = m, sysTasks = (sysTasks s)(i \<mapsto> t)\<rparr>"
proof -
  have pl: "plain (sysTasks s) i" using i by (simp add: plain_def leaderKey_def)
  note out = plain_outside[OF pl]
  have run: "running ((sysTasks s)(i \<mapsto> t)) = running (sysTasks s)"
    using j out by (auto simp: joinFlight_def Let_def running_upd isRunning_def split: if_splits)
  show ?thesis
  proof (cases "flightKey d \<in> mFlights (sysM s)")
    case True
    then have mt: "m = sysM s" "t = TWaiting d (flightKey d)" using j by (auto simp: joinFlight_def)
    have "leaders ((sysTasks s)(i \<mapsto> t)) k = leaders (sysTasks s) k" for k
      using out mt by (simp add: leaders_upd leaderKey_def)
    moreover have "followed (mFlights (sysM s)) ((sysTasks s)(i \<mapsto> t))"
      using inv True mt by (auto simp: flightInv_def followed_def waitsFor_def)
    ultimately show ?thesis using inv run mt by (simp add: flightInv_def oneLeader_def)
  next
    case False
    then have mt: "m = (sysM s)\<lparr>mFlights := insert (flightKey d) (mFlights (sysM s))\<rparr>" "t = TQueued d (flightKey d)"
      using j by (auto simp: joinFlight_def Let_def)
    have "leaders ((sysTasks s)(i \<mapsto> t)) k = (if k = flightKey d then {i} else leaders (sysTasks s) k)" for k
      using out mt inv False by (auto simp: leaders_upd leaderKey_def flightInv_def oneLeader_def)
    then have "oneLeader (mFlights m) ((sysTasks s)(i \<mapsto> t))"
      using inv mt by (simp add: flightInv_def oneLeader_def)
    moreover have "followed (mFlights m) ((sysTasks s)(i \<mapsto> t))"
      using inv mt by (auto simp: flightInv_def followed_def waitsFor_def)
    ultimately show ?thesis using inv run mt by (simp add: flightInv_def)
  qed
qed

lemma flightInv_acquire:
  assumes inv: "flightInv s" and i: "sysTasks s i = Some (TQueued d key)" and w: "mWorkers (sysM s) < workers"
  shows "flightInv \<lparr>sysM = (sysM s)\<lparr>mWorkers := mWorkers (sysM s) + 1\<rparr>, sysTasks = (sysTasks s)(i \<mapsto> TRunning d key)\<rparr>"
proof -
  have "i \<notin> running (sysTasks s)" using i by (simp add: running_def isRunning_def)
  moreover have "finite (running (sysTasks s))" using inv by (simp add: flightInv_def finite_running)
  moreover have "leaders ((sysTasks s)(i \<mapsto> TRunning d key)) k = leaders (sysTasks s) k" for k
    using i by (auto simp: leaders_upd) (auto simp: leaderKey_def leaders_def)
  ultimately show ?thesis using inv w
    by (simp add: flightInv_def oneLeader_def running_upd isRunning_def followed_upd waitsFor_def)
qed

lemma flightInv_frame:
  "flightInv s \<Longrightarrow> mFlights m = mFlights (sysM s) \<Longrightarrow> mWorkers m = mWorkers (sysM s) \<Longrightarrow> flightInv \<lparr>sysM = m, sysTasks = sysTasks s\<rparr>"
  by (simp add: flightInv_def)

lemma result_plain:
  "leaderKey (refreshStart now m d) = None \<and> waitsFor (refreshStart now m d) = None"
  "leaderKey (afterRun reg srt rd now m d r) = None \<and> waitsFor (afterRun reg srt rd now m d r) = None"
  by (auto simp: refreshStart_def afterRun_def Let_def leaderKey_def waitsFor_def split: sum.splits prod.splits)

lemma manager_frames:
  "admitManual now ident m = (r, m') \<Longrightarrow> mFlights m' = mFlights m \<and> mWorkers m' = mWorkers m"
  "commitWithHistory db d cs history m = (err, m') \<Longrightarrow> mFlights m' = mFlights m \<and> mWorkers m' = mWorkers m"
  "Apply reg now dbs defs m = (err, m') \<Longrightarrow> mFlights m' = mFlights m \<and> mWorkers m' = mWorkers m"
  by (auto simp: admitManual_def commitWithHistory_def Apply_def Let_def split: option.splits sum.splits prod.splits if_splits)

lemma plain_task:
  "tasks i = None \<Longrightarrow> plain tasks i" "tasks i = Some t \<Longrightarrow> leaderKey t = None \<Longrightarrow> plain tasks i"
  by (simp_all add: plain_def)

lemma flightInv_step: "step reg srt l s s' \<Longrightarrow> flightInv s \<Longrightarrow> flightInv s'"
proof (induction rule: step.induct)
  case (abandon s i d key)
  then have "i \<notin> running (sysTasks s)" by (simp add: running_def isRunning_def)
  then show ?case using abandon flightInv_land[of s i "TQueued d key" key]
    by (simp add: leaderKey_def flightInv_def[of s])
next
  case (finish s i d key result)
  have "i \<in> running (sysTasks s)" using finish by (simp add: running_def isRunning_def)
  moreover have "finite (running (sysTasks s))" using finish by (simp add: flightInv_def finite_running)
  ultimately show ?case using finish flightInv_land[of s i "TRunning d key" key]
    by (simp add: leaderKey_def flightInv_def[of s])
next
  case (spawn s i d)
  then show ?case using flightInv_plain[of s i "TStart d" "sysM s"]
    by (simp add: plain_task leaderKey_def waitsFor_def)
next
  case (start s i d now)
  then show ?case using flightInv_plain[of s i _ "sysM s"] result_plain(1)
    by (simp add: plain_task leaderKey_def)
next
  case (giveUp s i d key)
  then show ?case using flightInv_plain[of s i "TRan d (Inl cancelled)" "sysM s"]
    by (simp add: plain_task leaderKey_def waitsFor_def)
next
  case (ran s i d result now rd)
  then show ?case using flightInv_plain[of s i _ "sysM s"] result_plain(2)
    by (simp add: plain_task leaderKey_def)
next
  case (failed s i d err m t)
  then show ?case using countFailure_frame[OF failed(2)]
    by (intro flightInv_plain) (auto simp: plain_def leaderKey_def waitsFor_def)
next
  case (join s i d m t)
  then show ?case by (intro flightInv_join)
next
  case (acquire s i d key)
  then show ?case by (intro flightInv_acquire)
next
  case (manual s i now ident d m)
  then show ?case using manager_frames(1)[OF manual(2)]
    by (intro flightInv_plain) (auto simp: plain_def leaderKey_def waitsFor_def)
next
  case (commit s i d cs history db err m)
  then show ?case using manager_frames(2)[OF commit(2)]
    by (intro flightInv_plain) (auto simp: plain_def leaderKey_def waitsFor_def)
next
  case (config now db defs s err m)
  then show ?case using manager_frames(3)[OF config(1)] by (intro flightInv_frame) auto
next
  case (reset s i d cs history)
  then show ?case by (intro flightInv_plain) (auto simp: plain_def leaderKey_def waitsFor_def resetBreaker_def)
next
  case (failing s i d failures previous err now)
  then show ?case by (intro flightInv_plain) (auto simp: plain_def leaderKey_def waitsFor_def openCircuit_def)
qed (auto intro!: flightInv_frame simp: Subscribe_def Unsubscribe_def CloseManager_def)

interpretation flights: system_invariant srt store "\<lambda>reg applied. flightInv" for srt store
proof
  show "flightInv (initial store)"
    by (simp add: flightInv_def initial_def NewManager_def oneLeader_def followed_def leaders_def running_def)
qed (auto intro: flightInv_step)

subsection \<open>Event streams\<close>

definition streamOK :: "nat \<Rightarrow> subscriber \<Rightarrow> bool" where
  "streamOK nextID sub \<longleftrightarrow>
     length (subQueue sub) \<le> subBuffer sub \<and> length (subQueue sub) \<le> nextID \<and>
     map evID (subQueue sub) = [Suc nextID - length (subQueue sub)..<Suc nextID]"

definition streamInv :: "sys \<Rightarrow> bool" where
  "streamInv s \<longleftrightarrow> pred_map (streamOK (mNextID (sysM s))) (mSubs (sysM s))"

lemma streamOK_publish:
  assumes "streamOK n sub" and "publish \<lparr>evID = Suc n, evState = cs\<rparr> (Some sub) = Some sub'"
  shows "streamOK (Suc n) sub'"
  using assms by (auto simp: streamOK_def publish_def Suc_diff_le split: if_splits)

lemma streamOK_receive:
  assumes "streamOK n sub" and "subQueue sub = ev # rest"
  shows "streamOK n (sub\<lparr>subQueue := rest\<rparr>)"
proof -
  have "map evID (ev # rest) = [Suc n - length (ev # rest)..<Suc n]" using assms by (simp add: streamOK_def)
  then have "map evID rest = tl [Suc n - length (ev # rest)..<Suc n]" by (metis list.map(2) list.sel(3))
  moreover have "length (ev # rest) \<le> n" using assms by (simp add: streamOK_def)
  ultimately show ?thesis using assms by (simp add: streamOK_def Suc_diff_Suc Suc_diff_le del: upt_Suc)
qed

lemma commit_streams:
  assumes "commitWithHistory db d cs history m = (err, m')" and "pred_map (streamOK (mNextID m)) (mSubs m)"
  shows "pred_map (streamOK (mNextID m')) (mSubs m')"
proof -
  consider "m' = m" | "mNextID m' = Suc (mNextID m)"
      "mSubs m' = (\<lambda>ch. publish \<lparr>evID = Suc (mNextID m), evState = cs\<rparr> (mSubs m ch))"
    using assms(1) by (auto simp: commitWithHistory_def Let_def split: sum.splits if_splits)
  then show ?thesis
  proof cases
    case 2
    show ?thesis unfolding pred_map_def 2
    proof (intro allI impI)
      fix ch sub'
      assume p: "publish \<lparr>evID = Suc (mNextID m), evState = cs\<rparr> (mSubs m ch) = Some sub'"
      then obtain sub where "mSubs m ch = Some sub" by (auto simp: publish_def split: option.splits)
      then show "streamOK (Suc (mNextID m)) sub'"
        using streamOK_publish[of "mNextID m" sub cs sub'] p assms(2) by (simp add: pred_map_def)
    qed
  qed (use assms(2) in simp)
qed

lemma stream_frames:
  "admitManual now ident m = (r, m') \<Longrightarrow> mSubs m' = mSubs m \<and> mNextID m' = mNextID m"
  "Apply reg now dbs defs m = (err, m') \<Longrightarrow> mSubs m' = mSubs m \<and> mNextID m' = mNextID m"
  "joinFlight m d = (m', t) \<Longrightarrow> mSubs m' = mSubs m \<and> mNextID m' = mNextID m"
  by (auto simp: admitManual_def Apply_def joinFlight_def Let_def split: option.splits sum.splits prod.splits if_splits)

lemma streamInv_step: "step reg srt l s s' \<Longrightarrow> streamInv s \<Longrightarrow> streamInv s'"
proof (induction rule: step.induct)
  case (commit s i d cs history db err m)
  then show ?case using commit_streams[OF commit(2)] by (simp add: streamInv_def)
next
  case (failed s i d err m t)
  then show ?case using countFailure_frame[OF failed(2)] by (simp add: streamInv_def)
next
  case (manual s i now ident d m)
  then show ?case using stream_frames(1)[OF manual(2)] by (simp add: streamInv_def)
next
  case (config now db defs s err m)
  then show ?case using stream_frames(2)[OF config(1)] by (simp add: streamInv_def)
next
  case (join s i d m t)
  then show ?case using stream_frames(3)[OF join(2)] by (simp add: streamInv_def)
next
  case (subscribe s ch buffer)
  then show ?case by (simp add: streamInv_def Subscribe_def pred_map_upd streamOK_def)
next
  case (receive s ch sub ev rest)
  then have "streamOK (mNextID (sysM s)) sub" by (simp add: streamInv_def pred_map_def)
  then show ?case using receive streamOK_receive[of _ sub ev rest] by (simp add: streamInv_def pred_map_upd)
next
  case (unsubscribe ch s)
  then show ?case by (simp add: streamInv_def Unsubscribe_def pred_map_def)
qed (simp_all add: streamInv_def resetBreaker_def openCircuit_def CloseManager_def pred_map_def)

interpretation streams: system_invariant srt store "\<lambda>reg applied. streamInv" for srt store
proof
  show "streamInv (initial store)" by (simp add: streamInv_def initial_def NewManager_def pred_map_def)
qed (auto intro: streamInv_step)

section \<open>Lemmas on durations\<close>

lemma backoffLoop_min: "0 < base \<Longrightarrow> min (backoffLoop k base) Hour = min (base * 2 ^ k) Hour"
proof (induction k arbitrary: base)
  case (Suc k)
  show ?case
  proof (cases "base < Hour")
    case True
    then show ?thesis using Suc.IH[of "base * 2"] Suc.prems by (simp add: mult.assoc)
  next
    case False
    have "base * 1 \<le> base * 2 ^ Suc k"
      using Suc.prems one_le_power[of "2 :: int" "Suc k"] by (intro mult_left_mono) simp_all
    then show ?thesis using False by simp
  qed
qed simp

lemma minDuration_min: "minDuration a b = min a b"
  by (simp add: minDuration_def min_def)

lemma backoff_min: "0 < base \<Longrightarrow> backoff n base = min (base * 2 ^ nat (n - 1)) Hour"
  by (simp add: backoff_def minDuration_min backoffLoop_min)

lemma backoff_pos: "0 < backoff n base"
proof -
  have "0 < Hour" "0 < Second" by (simp_all add: Hour_def Minute_def Second_def)
  then have "0 < min ((if base \<le> 0 then Second else base) * 2 ^ nat (n - 1)) Hour" by simp
  moreover have "backoff n base = min ((if base \<le> 0 then Second else base) * 2 ^ nat (n - 1)) Hour"
    using backoffLoop_min[of "if base \<le> 0 then Second else base"] \<open>0 < Second\<close>
    by (simp add: backoff_def minDuration_min Let_def)
  ultimately show ?thesis by simp
qed

lemma sdiv_percent:
  fixes base percent :: int
  assumes "0 < base" and "- 5 \<le> percent" and "percent \<le> 5"
  shows "\<bar>(base * percent) sdiv 100\<bar> * 20 \<le> base"
proof -
  have "(base * percent) sdiv 100 = sgn percent * ((base * \<bar>percent\<bar>) div 100)"
    using assms by (simp add: signed_divide_int_def sgn_mult abs_mult)
  moreover have "0 \<le> (base * \<bar>percent\<bar>) div 100" using assms by (simp add: pos_imp_zdiv_nonneg_iff)
  ultimately have "\<bar>(base * percent) sdiv 100\<bar> \<le> (base * \<bar>percent\<bar>) div 100"
    by (simp add: abs_mult sgn_if)
  moreover have "base * \<bar>percent\<bar> \<le> base * 5" using assms by (intro mult_left_mono) auto
  ultimately show ?thesis by linarith
qed

section \<open>Properties\<close>

definition exampleDefinition :: "int \<Rightarrow> Definition" where
  "exampleDefinition interval = \<lparr>dID = ''cpu'', dHash = ''h'', dKey = [], dManifestDigest = ''m'',
     dApprovalRevision = ''a'', dSlotRevisions = ''s'', dRefresh = interval, dTimeout = 10 * Second,
     dSource = exampleSource, dRun = True, dDisabled = [], dHistorySignals = [], dSignalTypes = [],
     dGeneration = 0\<rparr>"

definition exampleManager :: Manager where
  "exampleManager = snd (Apply [] 0 (\<lambda>_. None) [exampleDefinition Minute] (NewManager (Some emptyStore)))"

subsection \<open>An example run\<close>

definition currentExample :: Definition where
  "currentExample = (exampleDefinition Minute)\<lparr>dGeneration := 1\<rparr>"

definition servedExample :: Document where
  "servedExample = exampleList ''row'' ''load 3.25''"

definition servedState :: CardState where
  "servedState = OK 5 ''cpu'' servedExample exampleSource Minute 1"

lemma reachable_same:
  "reachable srt store reg applied s \<Longrightarrow> step reg srt l s s' \<Longrightarrow> mGeneration (sysM s') = mGeneration (sysM s) \<Longrightarrow>
   reachable srt store reg applied s'"
  using reachable.more[of srt store reg applied s l s'] by (simp add: appliedWith_def)

lemma reachable_untracked: "reachable srt store [] [] s \<Longrightarrow> step [] srt l s s' \<Longrightarrow> reachable srt store [] [] s'"
  using reachable.more[of srt store "[]" "[]" s l s'] by (simp add: appliedWith_def)

lemma Apply_example:
  "Apply reg 0 (\<lambda>_. None) [exampleDefinition Minute] (NewManager (Some emptyStore)) = (None, exampleManager)"
  by (simp add: exampleManager_def Apply_def exampleDefinition_def NewManager_def emptyPrepared_def
        withDefaults_def restoreCard_def GetCardFor_def emptyStore_def Let_def)

lemma exampleManager_simps:
  "mDefs exampleManager ''cpu'' = Some currentExample" "mStates exampleManager ''cpu'' = Some (Pending ''cpu'')"
  "mGeneration exampleManager = 1" "mFlights exampleManager = {}" "mWorkers exampleManager = 0"
  "mStore exampleManager = Some emptyStore" "mOpenUntil exampleManager = Map.empty" "mSubs exampleManager = Map.empty"
  "mNextID exampleManager = 0"
  by (simp_all add: exampleManager_def currentExample_def Apply_def exampleDefinition_def NewManager_def emptyPrepared_def
        withDefaults_def restoreCard_def GetCardFor_def emptyStore_def Let_def Minute_def Second_def)

lemma exampleManager_reachable:
  "reachable srt (Some emptyStore) reg reg \<lparr>sysM = exampleManager, sysTasks = Map.empty\<rparr>"
proof -
  have "step reg srt Config (initial (Some emptyStore)) \<lparr>sysM = exampleManager, sysTasks = Map.empty\<rparr>"
    using step.config[of reg 0 "\<lambda>_. None" "[exampleDefinition Minute]" "initial (Some emptyStore)"]
    by (simp add: initial_def Apply_example)
  from reachable.more[OF reachable.init this] show ?thesis
    by (simp add: appliedWith_def initial_def exampleManager_simps NewManager_def)
qed

lemma currentExample_simps:
  "dID currentExample = ''cpu''" "dDisabled currentExample = []" "dRun currentExample" "dGeneration currentExample = 1"
  "dHistorySignals currentExample = []" "dSource currentExample = exampleSource" "dRefresh currentExample = Minute"
  by (simp_all add: currentExample_def exampleDefinition_def)

text \<open>A manager that differs from the example only in its streams.\<close>

definition streamsOnly :: "Manager \<Rightarrow> bool" where
  "streamsOnly m \<longleftrightarrow> (\<exists>subs. m = exampleManager\<lparr>mSubs := subs\<rparr>)"

abbreviation exampleKey :: string where
  "exampleKey \<equiv> flightKey currentExample"

definition runningExample :: "Manager \<Rightarrow> Manager" where
  "runningExample m = m\<lparr>mFlights := {exampleKey}, mWorkers := 1\<rparr>"

lemma streamsOnly_example: "streamsOnly exampleManager"
  by (auto simp: streamsOnly_def intro: exI[of _ "mSubs exampleManager"])

lemma streamsOnly_start: "streamsOnly m \<Longrightarrow> refreshStart now m currentExample = (if now < zeroTime then TDone None else TJoin currentExample)"
  by (auto simp: streamsOnly_def refreshStart_def Let_def isCurrent_def exampleManager_simps currentExample_simps)

lemma running_reachable:
  assumes m: "streamsOnly m" and r: "reachable srt store reg applied \<lparr>sysM = m, sysTasks = Map.empty\<rparr>"
  shows "reachable srt store reg applied \<lparr>sysM = runningExample m, sysTasks = [0 \<mapsto> TRunning currentExample exampleKey]\<rparr>"
proof -
  let ?s = "\<lambda>m t. \<lparr>sysM = m, sysTasks = [0 \<mapsto> t]\<rparr>" and ?d = currentExample and ?k = exampleKey
  let ?m1 = "m\<lparr>mFlights := {?k}\<rparr>"
  have f: "mDefs m ''cpu'' = Some ?d" "mFlights m = {}" "mWorkers m = 0" "mGeneration m = 1"
    using m by (auto simp: streamsOnly_def exampleManager_simps)
  have "step reg srt (Spawn 0) \<lparr>sysM = m, sysTasks = Map.empty\<rparr> (?s m (TStart ?d))"
    using step.spawn[of "\<lparr>sysM = m, sysTasks = Map.empty\<rparr>" 0 ?d] f currentExample_simps by simp
  note r1 = reachable_same[OF r this]
  have "step reg srt (Task 0) (?s m (TStart ?d)) (?s m (TJoin ?d))"
    using step.start[of "?s m (TStart ?d)" 0 ?d 0] streamsOnly_start[OF m, of 0] by (simp add: zeroTime_def Second_def)
  note r2 = reachable_same[OF r1[simplified] this]
  have "step reg srt (Task 0) (?s m (TJoin ?d)) (?s ?m1 (TQueued ?d ?k))"
    using step.join[of "?s m (TJoin ?d)" 0 ?d] f by (simp add: joinFlight_def Let_def)
  note r3 = reachable_same[OF r2[simplified] this]
  have "step reg srt (Task 0) (?s ?m1 (TQueued ?d ?k)) (?s (runningExample m) (TRunning ?d ?k))"
    using step.acquire[of "?s ?m1 (TQueued ?d ?k)" 0 ?d ?k] f by (simp add: workers_def runningExample_def)
  from reachable_same[OF r3[simplified] this] show ?thesis by (simp add: runningExample_def)
qed

lemma served_valid: "Validate servedState = Inr ()"
  by code_simp

lemma served_checked: "checkDocument [exampleSecret] currentExample (Inr (servedExample, 1)) = Inr (servedExample, 1, [])"
  by code_simp

lemma served_bindings: "HistoryBindings servedExample = []" "effectiveTTL currentExample servedExample = Minute"
  by code_simp+

lemma served_reachable:
  assumes m: "streamsOnly m" and r: "reachable srt store [exampleSecret] applied \<lparr>sysM = m, sysTasks = Map.empty\<rparr>"
  obtains m' where "reachable srt store [exampleSecret] applied \<lparr>sysM = m', sysTasks = [0 \<mapsto> TDone None]\<rparr>"
    "mStates m' ''cpu'' = Some servedState" "mSubs m' = (\<lambda>ch. publish \<lparr>evID = 1, evState = servedState\<rparr> (mSubs m ch))" "mNextID m' = 1"
proof -
  let ?s = "\<lambda>m t. \<lparr>sysM = m, sysTasks = [0 \<mapsto> t]\<rparr>" and ?d = currentExample and ?k = exampleKey and ?reg = "[exampleSecret]"
  let ?res = "Inr (servedExample, 1) :: runResult" and ?m2 = "m\<lparr>mFlights := {}, mWorkers := 0\<rparr>"
  have f: "mDefs m ''cpu'' = Some ?d" "mStore m = Some emptyStore" "mGeneration m = 1" "mNextID m = 0"
    using m by (auto simp: streamsOnly_def exampleManager_simps)
  have "step ?reg srt (Task 0) (?s (runningExample m) (TRunning ?d ?k)) (?s ?m2 (TRan ?d ?res))"
    using step.finish[of "?s (runningExample m) (TRunning ?d ?k)" 0 ?d ?k ?reg srt ?res]
    by (simp add: runningExample_def wakeFollowers_def wakeTask_def fun_upd_def if_distrib[of "map_option _"] cong: if_cong)
  note r1 = reachable_same[OF running_reachable[OF m r] this]
  have "afterRun ?reg srt (\<lambda>_ _ _. Inr []) 5 ?m2 ?d ?res = TReset ?d servedState []"
    by (simp add: afterRun_def served_checked boundHistory_def served_bindings servedState_def currentExample_simps OK_def)
  then have "step ?reg srt (Task 0) (?s ?m2 (TRan ?d ?res)) (?s ?m2 (TReset ?d servedState []))"
    using step.ran[of "?s ?m2 (TRan ?d ?res)" 0 ?d ?res 5 ?reg srt "\<lambda>_ _ _. Inr []"] by simp
  note r2 = reachable_same[OF r1[simplified runningExample_def, simplified] this]
  have "step ?reg srt (Task 0) (?s ?m2 (TReset ?d servedState [])) (?s (resetBreaker ?d ?m2) (TCommit ?d servedState []))"
    using step.reset[of "?s ?m2 (TReset ?d servedState [])" 0 ?d servedState "[]" ?reg srt] by simp
  note r3 = reachable_same[OF r2[simplified] this]
  obtain m' where m': "commitWithHistory None ?d servedState [] (resetBreaker ?d ?m2) = (None, m')"
      "mStates m' ''cpu'' = Some servedState" "mSubs m' = (\<lambda>ch. publish \<lparr>evID = 1, evState = servedState\<rparr> (mSubs m ch))"
      "mNextID m' = 1" "mGeneration m' = 1"
    using f by (simp add: commitWithHistory_def served_valid resetBreaker_def isCurrent_def currentExample_simps
        putCard_def PutCardWithSignals_def Let_def)
  then have "step ?reg srt (Task 0) (?s (resetBreaker ?d ?m2) (TCommit ?d servedState [])) (?s m' (TDone None))"
    using step.commit[of "?s (resetBreaker ?d ?m2) (TCommit ?d servedState [])" 0 ?d servedState "[]" None None m' ?reg srt] by simp
  from reachable_same[OF r3[simplified] this] show ?thesis using that m' f by simp
qed

text \<open>
  C1. Whatever refreshes, configuration changes, stream readers and newly tracked secrets interleave, every
  card has a state, and every state served belongs to its card, passes \<open>Validate\<close>, and carries a document
  in which the walker finds no secret that was tracked when the configuration in force was applied.  The
  secrets of a configuration are tracked before it is applied, so these are at least its own.  The rows of the
  store at the start are keyed by their card.
\<close>

theorem served_states_sound:
  assumes "reachable srt store reg applied s" and "storeKeyed store"
  shows "set applied \<subseteq> set reg \<and> dom (mStates (sysM s)) = dom (mDefs (sysM s)) \<and>
         (\<forall>ident cs. mStates (sysM s) ident = Some cs \<longrightarrow>
            csCardID cs = ident \<and> Validate cs = Inr () \<and>
            (\<forall>doc. csDocument cs = Some doc \<longrightarrow> \<not> ContainsSecretInDocument applied doc))"
proof -
  have inv: "statesInv reg applied s" using states.always[OF assms(1)] assms(2) by simp
  moreover have "\<not> documentLeaksSecret applied (csDocument cs) \<longleftrightarrow>
      (\<forall>doc. csDocument cs = Some doc \<longrightarrow> \<not> ContainsSecretInDocument applied doc)" for cs
    by (simp add: documentLeaksSecret_def split: option.splits)
  ultimately show ?thesis unfolding statesInv_def managerInv_def allServed_def servedOK_def by blast
qed

theorem served_states_sound_witness:
  "\<exists>s :: sys. mStates (sysM s) ''cpu'' = Some servedState \<and> csDocument servedState = Some servedExample \<and>
       Validate servedState = Inr () \<and> \<not> ContainsSecretInDocument [exampleSecret] servedExample"
proof -
  obtain m' where m': "reachable id (Some emptyStore) [exampleSecret] [exampleSecret] \<lparr>sysM = m', sysTasks = [0 \<mapsto> TDone None]\<rparr>"
      "mStates m' ''cpu'' = Some servedState"
    by (rule served_reachable[OF streamsOnly_example exampleManager_reachable])
  have "storeKeyed (Some emptyStore)" by (simp add: storeKeyed_def emptyStore_def)
  from served_states_sound[OF m'(1) this] m'(2) show ?thesis
    by (intro exI[of _ "\<lparr>sysM = m', sysTasks = [0 \<mapsto> TDone None]\<rparr>"]) (simp add: servedState_def)
qed

text \<open>
  Only the secrets tracked at the time are looked for.  A document is not scanned again when a secret is
  tracked later, as a reload that is then refused does: the state served goes on carrying it.
\<close>

theorem late_secret_served:
  "\<exists>reg applied (s :: sys). reachable id (Some emptyStore) reg applied s \<and>
     mStates (sysM s) ''cpu'' = Some servedState \<and> ContainsSecretInDocument reg servedExample"
proof -
  obtain m' where m': "reachable id (Some emptyStore) [exampleSecret] [exampleSecret] \<lparr>sysM = m', sysTasks = [0 \<mapsto> TDone None]\<rparr>"
      "mStates m' ''cpu'' = Some servedState"
    by (rule served_reachable[OF streamsOnly_example exampleManager_reachable])
  have "ContainsSecretInDocument (Track ''load 3.25'' [exampleSecret]) servedExample" by code_simp
  with reachable.track[OF m'(1), of "''load 3.25''"] m'(2) show ?thesis
    by (intro exI[of _ "Track ''load 3.25'' [exampleSecret]"] exI[of _ "[exampleSecret]"]
        exI[of _ "\<lparr>sysM = m', sysTasks = [0 \<mapsto> TDone None]\<rparr>"]) simp
qed

text \<open>
  C9. Runs are shared and bounded: in every reachable state at most one task runs for a flight key,
  at most eight tasks run at all, and a task that waits for a flight has a leader that is queued or
  running, so that it is not left waiting for a flight nobody will close.
\<close>

theorem single_flight:
  assumes "reachable srt store reg applied s"
  shows "(\<forall>i j d e key. sysTasks s i = Some (TRunning d key) \<and> sysTasks s j = Some (TRunning e key) \<longrightarrow> i = j) \<and>
         card {i. \<exists>d key. sysTasks s i = Some (TRunning d key)} \<le> workers \<and>
         (\<forall>i d key. sysTasks s i = Some (TWaiting d key) \<longrightarrow>
            (\<exists>j e. sysTasks s j = Some (TQueued e key) \<or> sysTasks s j = Some (TRunning e key)))"
proof -
  have inv: "flightInv s" by (rule flights.always[OF assms])
  have lead: "i \<in> leaders (sysTasks s) key \<longleftrightarrow>
      (\<exists>e. sysTasks s i = Some (TQueued e key) \<or> sysTasks s i = Some (TRunning e key))" for i key
    by (auto simp: leaders_def leaderKey_iff)
  have one: "\<exists>i. leaders (sysTasks s) key = {i}" if "key \<in> mFlights (sysM s)" for key
    using inv that by (auto simp: flightInv_def oneLeader_def dest: spec[of _ key])
  have none: "leaders (sysTasks s) key = {}" if "key \<notin> mFlights (sysM s)" for key
    using inv that by (auto simp: flightInv_def oneLeader_def dest: spec[of _ key])
  have "i = j" if "i \<in> leaders (sysTasks s) key" "j \<in> leaders (sysTasks s) key" for i j key
    using one[of key] none[of key] that by (cases "key \<in> mFlights (sysM s)") auto
  then have "\<forall>i j d e key. sysTasks s i = Some (TRunning d key) \<and> sysTasks s j = Some (TRunning e key) \<longrightarrow> i = j"
    using lead by blast
  moreover have "running (sysTasks s) = {i. \<exists>d key. sysTasks s i = Some (TRunning d key)}"
    by (auto simp: running_def isRunning_iff)
  then have "card {i. \<exists>d key. sysTasks s i = Some (TRunning d key)} \<le> workers"
    using inv by (simp add: flightInv_def)
  moreover have "\<exists>j e. sysTasks s j = Some (TQueued e key) \<or> sysTasks s j = Some (TRunning e key)"
    if "sysTasks s i = Some (TWaiting d key)" for i d key
  proof -
    have "key \<in> mFlights (sysM s)" using inv that by (auto simp: flightInv_def followed_def waitsFor_def)
    then obtain j where "j \<in> leaders (sysTasks s) key" using one by blast
    then show ?thesis using lead by blast
  qed
  ultimately show ?thesis by blast
qed

lemma shared_flight_reachable:
  "reachable id (Some emptyStore) [] [] \<lparr>sysM = runningExample exampleManager,
     sysTasks = [0 \<mapsto> TRunning currentExample exampleKey, 2 \<mapsto> TWaiting currentExample exampleKey]\<rparr>"
proof -
  let ?m = "runningExample exampleManager" and ?d = currentExample
  let ?s = "\<lambda>t. \<lparr>sysM = ?m, sysTasks = [0 \<mapsto> TRunning currentExample exampleKey, 2 \<mapsto> t]\<rparr>"
  have f: "mDefs ?m ''cpu'' = Some ?d" "mFlights ?m = {exampleKey}" "refreshStart 0 ?m ?d = TJoin ?d"
    by (simp_all add: runningExample_def exampleManager_simps refreshStart_def Let_def isCurrent_def currentExample_simps zeroTime_def Second_def)
  have "step [] id (Spawn 2) \<lparr>sysM = ?m, sysTasks = [0 \<mapsto> TRunning ?d exampleKey]\<rparr> (?s (TStart ?d))"
    using step.spawn[of "\<lparr>sysM = ?m, sysTasks = [0 \<mapsto> TRunning ?d exampleKey]\<rparr>" 2 ?d] f currentExample_simps by simp
  note r1 = reachable_same[OF running_reachable[OF streamsOnly_example exampleManager_reachable] this, simplified]
  have "step [] id (Task 2) (?s (TStart ?d)) (?s (TJoin ?d))"
    using step.start[of "?s (TStart ?d)" 2 ?d 0] f by (simp add: fun_upd_twist)
  note r2 = reachable_same[OF r1 this, simplified]
  have "step [] id (Task 2) (?s (TJoin ?d)) (?s (TWaiting ?d exampleKey))"
    using step.join[of "?s (TJoin ?d)" 2 ?d] f by (simp add: joinFlight_def Let_def)
  from reachable_same[OF r2 this, simplified] show ?thesis .
qed

definition sharedExample :: "nat \<rightharpoonup> task" where
  "sharedExample = [0 \<mapsto> TRunning currentExample exampleKey, 2 \<mapsto> TWaiting currentExample exampleKey]"

theorem single_flight_witness:
  "sharedExample 2 = Some (TWaiting currentExample exampleKey) \<and>
   (\<exists>j e. sharedExample j = Some (TQueued e exampleKey) \<or> sharedExample j = Some (TRunning e exampleKey))"
proof -
  note all = single_flight[OF shared_flight_reachable[folded sharedExample_def], unfolded sys.select_convs]
  have waits: "sharedExample 2 = Some (TWaiting currentExample exampleKey)" by (simp add: sharedExample_def)
  show ?thesis by (rule conjI[OF waits all[THEN conjunct2, THEN conjunct2, rule_format, OF waits]])
qed

text \<open>
  C13. A commit is fenced by its generation: a step of a task whose definition is no longer the
  current one changes no card state, no row of the store, no stream and no event number.
\<close>

theorem superseded_task_publishes_nothing:
  assumes "step reg srt (Task i) s s'" and "sysTasks s i = Some t" and "taskDef t = Some d"
    and "\<not> isCurrent (sysM s) d"
  shows "mStates (sysM s') = mStates (sysM s) \<and> mStore (sysM s') = mStore (sysM s) \<and>
         mSubs (sysM s') = mSubs (sysM s) \<and> mNextID (sysM s') = mNextID (sysM s)"
  using assms
proof (cases rule: step.cases)
  case (failed d' err m t')
  then show ?thesis using countFailure_frame[OF failed(3)] by simp
next
  case (commit d' cs history db err m)
  then have "d' = d" using assms(2,3) by simp
  then show ?thesis using commit assms(4) by (auto simp: commitWithHistory_def split: sum.splits)
qed (auto simp: joinFlight_def Let_def resetBreaker_def openCircuit_def split: if_splits)

definition exampleStale :: sys where
  "exampleStale = \<lparr>sysM = exampleManager,
     sysTasks = [0 \<mapsto> TCommit (exampleDefinition Minute) (Pending ''cpu'') []]\<rparr>"

theorem superseded_task_publishes_nothing_witness:
  "\<exists>s'. step [] id (Task 0) exampleStale s' \<and> mStates (sysM s') ''cpu'' = Some (Pending ''cpu'') \<and>
        sysTasks s' 0 = Some (TDone (Some ErrSuperseded))"
proof -
  have stale: "\<not> isCurrent exampleManager (exampleDefinition Minute)"
    by (simp add: isCurrent_def exampleManager_simps currentExample_simps exampleDefinition_def)
  then have "commitWithHistory None (exampleDefinition Minute) (Pending ''cpu'') [] exampleManager =
      (Some ErrSuperseded, exampleManager)"
    by (simp add: commitWithHistory_def Validate_Pending)
  then have st: "step [] id (Task 0) exampleStale
      \<lparr>sysM = exampleManager, sysTasks = (sysTasks exampleStale)(0 \<mapsto> TDone (Some ErrSuperseded))\<rparr>"
    by (intro step.commit) (simp_all add: exampleStale_def)
  then show ?thesis
    using superseded_task_publishes_nothing[OF st, of _ "exampleDefinition Minute"] stale exampleManager_simps(2)
    by (intro exI[of _ "\<lparr>sysM = exampleManager, sysTasks = (sysTasks exampleStale)(0 \<mapsto> TDone (Some ErrSuperseded))\<rparr>"])
       (simp add: exampleStale_def)
qed

text \<open>
  C39. Streams lose no event while they are open: what is buffered for a subscriber is the run of
  the most recent consecutive event numbers, it never exceeds the buffer, and a subscriber whose
  buffer is full is disconnected by the next commit rather than skipped.
\<close>

theorem stream_events_consecutive:
  assumes "reachable srt store reg applied s" and "mSubs (sysM s) ch = Some sub"
  shows "map evID (subQueue sub) = [Suc (mNextID (sysM s)) - length (subQueue sub)..<Suc (mNextID (sysM s))] \<and>
         length (subQueue sub) \<le> subBuffer sub \<and>
         (\<forall>db d cs history m. commitWithHistory db d cs history (sysM s) = (None, m) \<longrightarrow>
            (if length (subQueue sub) = subBuffer sub then mSubs m ch = None
             else \<exists>sub'. mSubs m ch = Some sub' \<and>
                    subQueue sub' = subQueue sub @ [\<lparr>evID = mNextID (sysM s) + 1, evState = cs\<rparr>]))"
proof -
  have ok: "streamOK (mNextID (sysM s)) sub"
    using streams.always[OF assms(1)] assms(2) by (auto simp: streamInv_def elim: pred_mapD)
  moreover have "if length (subQueue sub) = subBuffer sub then mSubs m ch = None
      else \<exists>sub'. mSubs m ch = Some sub' \<and> subQueue sub' = subQueue sub @ [\<lparr>evID = mNextID (sysM s) + 1, evState = cs\<rparr>]"
    if "commitWithHistory db d cs history (sysM s) = (None, m)" for db d cs history m
    using that ok assms(2)
    by (auto simp: commitWithHistory_def Let_def publish_def streamOK_def split: sum.splits if_splits)
  ultimately show ?thesis unfolding streamOK_def by blast
qed

theorem stream_events_consecutive_witness:
  "\<exists>(s :: sys) sub. mSubs (sysM s) 7 = Some sub \<and> subQueue sub = [\<lparr>evID = 1, evState = servedState\<rparr>] \<and>
     map evID (subQueue sub) = [Suc (mNextID (sysM s)) - 1..<Suc (mNextID (sysM s))]"
proof -
  have "step [exampleSecret] id (Stream 7) \<lparr>sysM = exampleManager, sysTasks = Map.empty\<rparr>
      \<lparr>sysM = Subscribe 7 4 exampleManager, sysTasks = Map.empty\<rparr>"
    using step.subscribe[of "\<lparr>sysM = exampleManager, sysTasks = Map.empty\<rparr>" 7 "[exampleSecret]" id 4]
    by (simp add: exampleManager_simps)
  note r = reachable_same[OF exampleManager_reachable this, simplified]
  have only: "streamsOnly (Subscribe 7 4 exampleManager)" by (auto simp: streamsOnly_def Subscribe_def)
  obtain m' where m': "reachable id (Some emptyStore) [exampleSecret] [exampleSecret] \<lparr>sysM = m', sysTasks = [0 \<mapsto> TDone None]\<rparr>"
      "mSubs m' = (\<lambda>ch. publish \<lparr>evID = 1, evState = servedState\<rparr> (mSubs (Subscribe 7 4 exampleManager) ch))"
    by (rule served_reachable[OF only r])
  let ?sub = "\<lparr>subBuffer = 4, subQueue = [\<lparr>evID = 1, evState = servedState\<rparr>]\<rparr>"
  have sub: "mSubs m' 7 = Some ?sub" by (simp add: m'(2) Subscribe_def publish_def)
  from stream_events_consecutive[OF m'(1), of 7 ?sub] sub show ?thesis
    by (intro exI[of _ "\<lparr>sysM = m', sysTasks = [0 \<mapsto> TDone None]\<rparr>"] exI[of _ ?sub]) simp
qed

lemma failureState_valid:
  assumes "0 \<le> now" and "validateHistory (csHistory previous) = Inr ()"
  shows "Validate (failureState now d failures previous err) = Inr ()"
proof -
  have "now + minDuration (5 * Minute) (backoff failures (dRefresh d)) \<noteq> zeroTime"
    using assms(1) backoff_pos[of failures "dRefresh d"]
    by (simp add: zeroTime_def minDuration_def Minute_def Second_def)
  moreover have "Validate (setExecution (\<lambda>e. e\<lparr>exConsecutiveFailures := failures, exNextRunAt := Some t\<rparr>)
      (Error now i src e)) = Inr ()" for i src e t
    by (simp add: Validate_split validateState_def constructor_defs)
  ultimately show ?thesis using assms(2)
    by (cases "csDocument previous"; cases "failures \<ge> 3")
       (simp_all add: failureState_def Let_def Validate_history_irrelevant Validate_constructors)
qed

lemma failureState_fields:
  "exState (csExecution (failureState now d n previous err)) =
     (if csDocument previous = None then StateError else StateStale)"
  "map_option reCode (exError (csExecution (failureState now d n previous err))) = Some (classify err)"
  "csDocument previous \<noteq> None \<Longrightarrow> csHistory (failureState now d n previous err) = csHistory previous"
  "exCircuitOpenUntil (csExecution (failureState now d n previous err)) =
     (if n \<ge> 3 then Some (now + minDuration (5 * Minute) (backoff n (dRefresh d))) else None)"
  by (auto simp: failureState_def Let_def constructor_defs stampError_def split: option.splits)

lemma commit_current:
  assumes "Validate cs = Inr ()" and "isCurrent m d" and "db = None"
  obtains m' where "commitWithHistory db d cs history m = (None, m')" "mStates m' = (mStates m)(dID d \<mapsto> cs)"
    "mFailures m' = mFailures m" "mOpenUntil m' = mOpenUntil m"
proof -
  have "\<exists>store. putCard db d cs history (mStore m) = Inr store"
    using assms(1,3) by (cases "mStore m") (simp_all add: putCard_def PutCardWithSignals_def Let_def)
  then obtain store where "putCard db d cs history (mStore m) = Inr store" by blast
  then show thesis using assms that by (simp add: commitWithHistory_def Let_def)
qed

text \<open>
  C40. A failed run of a current card, with a working store, is committed as follows: the last good
  document and its history are kept (the card is stale) or there was none (the card is in error), the
  error carries the class of the cause, the failure count grows by one, and from the third consecutive
  failure on, the circuit is open, in the manager and in the state alike, for at most five minutes.
\<close>

theorem refresh_after_failure:
  assumes inv: "managerInv reg m" and cur: "isCurrent m d" "dDisabled d = []" "dRun d"
    and closed: "\<forall>t. mOpenUntil m (dID d) = Some t \<longrightarrow> t \<le> now" and now: "0 \<le> now"
    and fails: "checkDocument reg d result = Inl err"
  shows "\<exists>m' cs. refresh reg srt rd None now result d m = (None, m') \<and> mStates m' (dID d) = Some cs \<and>
           (let n = failuresOf m (dID d) + 1; previous = stateOf m (dID d) in
            csDocument cs = csDocument previous \<and>
            exState (csExecution cs) = (if csDocument previous = None then StateError else StateStale) \<and>
            (csDocument previous \<noteq> None \<longrightarrow> csHistory cs = csHistory previous) \<and>
            map_option reCode (exError (csExecution cs)) = Some (classify err) \<and>
            failuresOf m' (dID d) = n \<and>
            (if n \<ge> 3
             then \<exists>t. mOpenUntil m' (dID d) = Some t \<and> exCircuitOpenUntil (csExecution cs) = Some t \<and>
                      now < t \<and> t \<le> now + 5 * Minute
             else exCircuitOpenUntil (csExecution cs) = None))"
proof -
  define n where "n = failuresOf m (dID d) + 1"
  define previous where "previous = stateOf m (dID d)"
  define cs where "cs = failureState now d n previous err"
  define m1 where "m1 = openCircuit now d n (m\<lparr>mFailures := (mFailures m)(dID d \<mapsto> n)\<rparr>)"
  have "validateHistory (csHistory previous) = Inr ()"
    using inv by (auto simp: previous_def stateOf_def managerInv_def allServed_def servedOK_def Validate_split
        split: option.splits)
  then have "Validate cs = Inr ()" unfolding cs_def using now by (rule failureState_valid[rotated])
  moreover have "isCurrent m1 d" using cur(1) by (simp add: m1_def openCircuit_def isCurrent_def)
  ultimately obtain m' where m': "commitWithHistory None d cs [] m1 = (None, m')"
      "mStates m' = (mStates m1)(dID d \<mapsto> cs)" "mFailures m' = mFailures m1" "mOpenUntil m' = mOpenUntil m1"
    by (rule commit_current) simp
  have zero: "\<not> now < zeroTime" using now by (simp add: zeroTime_def Second_def)
  have "refreshStart now m d = TJoin d"
    using cur closed zero by (cases "mOpenUntil m (dID d)") (auto simp: refreshStart_def Let_def)
  then have ref: "refresh reg srt rd None now result d m = (None, m')"
    using m' fails by (simp add: refresh_def afterRun_def countFailure_def Let_def n_def previous_def cs_def m1_def)
  have t: "0 < minDuration (5 * Minute) (backoff n (dRefresh d))" "minDuration (5 * Minute) (backoff n (dRefresh d)) \<le> 5 * Minute"
    using backoff_pos[of n "dRefresh d"] by (simp_all add: minDuration_def Minute_def Second_def)
  show ?thesis
    using ref m' t unfolding n_def[symmetric] previous_def[symmetric] Let_def
    by (intro exI[of _ m'] exI[of _ cs])
       (simp add: cs_def failureState_document failureState_fields m1_def openCircuit_def failuresOf_def)
qed

definition exampleTimeout :: runErr where
  "exampleTimeout = RunErr DeadlineExceeded ''context deadline exceeded''"

lemma exampleManager_inv: "managerInv [] exampleManager"
  using states.always[OF exampleManager_reachable[where srt = id and reg = "[]"]]
  by (simp add: storeKeyed_def emptyStore_def statesInv_def)

lemma currentExample_current: "isCurrent exampleManager currentExample"
  by (simp add: isCurrent_def currentExample_def exampleManager_simps exampleDefinition_def)

theorem refresh_after_failure_witness:
  "\<exists>m' cs. refresh [] id (\<lambda>_ _ _. Inr []) None 5 (Inl exampleTimeout) currentExample exampleManager = (None, m') \<and>
     mStates m' ''cpu'' = Some cs \<and> exState (csExecution cs) = StateError \<and> failuresOf m' ''cpu'' = 1"
proof -
  have f: "failuresOf exampleManager ''cpu'' = 0" "mOpenUntil exampleManager ''cpu'' = None"
    "csDocument (stateOf exampleManager ''cpu'') = None"
    by code_simp+
  have "dID currentExample = ''cpu''" "dDisabled currentExample = []" "dRun currentExample"
    by (simp_all add: currentExample_def exampleDefinition_def)
  moreover have "checkDocument [] currentExample (Inl exampleTimeout) = Inl exampleTimeout"
    by (simp add: checkDocument_def)
  ultimately show ?thesis
    using refresh_after_failure[OF exampleManager_inv currentExample_current, of 5 "Inl exampleTimeout" exampleTimeout id
        "\<lambda>_ _ _. Inr []"] f by (auto simp: Let_def)
qed

text \<open>
  Retry times are bounded and grow as they should: the back-off after the n-th failure is the
  interval doubled n - 1 times but at most an hour, the jitter of a card moves its interval by at most
  five per cent, and a refresh loop never sleeps a negative time nor longer than the jittered interval.
\<close>

theorem retry_times_bounded:
  assumes "0 < base"
  shows "backoff n base = min (base * 2 ^ nat (n - 1)) Hour \<and>
         \<bar>jitter ident base - base\<bar> * 20 \<le> base \<and>
         (dRefresh d = base \<longrightarrow> 0 \<le> loopWait now m d err \<and> loopWait now m d err \<le> jitter (dID d) base)"
proof -
  have "unat (fnv32a i) mod 11 < 11" for i by simp
  then have small: "\<bar>jitter i base - base\<bar> * 20 \<le> base" for i
    using sdiv_percent[OF assms, of "int (unat (fnv32a i) mod 11) - 5"] assms
    by (simp add: jitter_def Let_def)
  have "0 \<le> j" if "a * 20 \<le> b" "0 \<le> a" "- (j - b) \<le> a" for a b j :: int using that by linarith
  from this[OF small abs_ge_zero abs_ge_minus_self] have "0 \<le> jitter i base" for i .
  then show ?thesis using small[of ident] backoff_min[OF assms]
    by (auto simp: loopWait_def Let_def)
qed

theorem retry_times_bounded_witness:
  "backoff 4 Minute = 8 * Minute \<and> \<bar>jitter ''cpu'' Minute - Minute\<bar> * 20 \<le> Minute"
  using retry_times_bounded[of Minute 4 "''cpu''"] by (simp add: Minute_def Hour_def Second_def)

definition exampleURLError :: runErr where
  "exampleURLError = RunErr OtherKind (''Get http://nas/api?key='' @ exampleSecret @ '': connection refused'')"

definition servedError :: "string \<Rightarrow> Manager \<Rightarrow> string option" where
  "servedError ident m = map_option reMessage (exError (csExecution (stateOf m ident)))"

text \<open>
  The text of a run error is not scanned: an error whose text holds a tracked secret, as the
  error of a request whose query carries the credential does, is stored and served in the card's
  state verbatim, while the same text in a document would have been refused.
\<close>

theorem run_error_text_not_scanned:
  "servedError ''cpu'' (snd (refresh [exampleSecret] id (\<lambda>_ _ _. Inr []) None 5 (Inl exampleURLError)
       currentExample exampleManager)) = Some (errText exampleURLError) \<and>
   ContainsSecret [exampleSecret] (errText exampleURLError)"
  by code_simp

definition threeFailures :: Manager where
  "threeFailures =
     (let fail = (\<lambda>now m. snd (refresh [] id (\<lambda>_ _ _. Inr []) None now (Inl exampleTimeout) currentExample m))
      in fail (2 * Hour) (fail Hour (fail 5 exampleManager)))"

text \<open>
  A restart forgets the failures of a card that never had a document: after three failures the
  manager counts three and the circuit is open, but the state that is stored with the open circuit
  carries no count, so applying the configuration again restores the open circuit with a count of 0.
\<close>

theorem open_circuit_loses_failure_count:
  "let m = snd (Apply [] (2 * Hour) (\<lambda>_. None) [exampleDefinition Minute] threeFailures) in
   failuresOf threeFailures ''cpu'' = 3 \<and> mOpenUntil threeFailures ''cpu'' = Some (2 * Hour + 4 * Minute) \<and>
   failuresOf m ''cpu'' = 0 \<and> mOpenUntil m ''cpu'' = Some (2 * Hour + 4 * Minute)"
  by code_simp

lemma pointsLoop_nonempty: "points \<noteq> [] \<Longrightarrow> pointsLoop gap prev points xs \<noteq> []"
proof (induction xs arbitrary: prev points)
  case (Cons x xs)
  then show ?case by (simp add: pointsLoop_Cons Let_def del: pointsLoop.simps)
qed simp

lemma Downsample_nonempty:
  assumes "sorts srt" and "x \<in> set samples" and "from \<le> sT x" and "sT x \<le> to"
  shows "Downsample srt samples from to \<noteq> []"
proof -
  have "\<forall>s\<in>set samples. from \<le> sT s \<and> sT s \<le> to \<longrightarrow>
      Min (sV ` set samples) \<le> sV s \<and> sV s \<le> Max (sV ` set samples)" by simp
  with assms(1) show ?thesis
  proof (cases rule: Downsample_cases)
    case empty
    then show ?thesis using inWindow_Nil[OF assms(1)] assms(2-4) by auto
  next
    case (points xs)
    obtain y ys where "xs = y # ys" using points(2) by (cases xs) simp_all
    then show ?thesis unfolding points(5)
      by (simp add: pointsLoop_Cons gapMark_def pointsLoop_nonempty del: pointsLoop.simps)
  qed
qed

lemma bindHistory_all:
  assumes "sorts srt" and "\<forall>b\<in>set bindings. 0 \<le> snd b \<and> map_of current (fst b) \<noteq> None"
    and "\<forall>signal from to. \<exists>samples. rd signal from to = Inr samples"
  shows "\<exists>out. bindHistory srt rd to current bindings = Inr out \<and> length out = length bindings"
  using assms(2)
proof (induction bindings)
  case (Cons b bindings)
  obtain signal window where b: "b = (signal, window)" by fastforce
  obtain samples where rd: "rd signal (to - window) to = Inr samples" using assms(3) by blast
  obtain v where v: "map_of current signal = Some v" using Cons.prems b by auto
  have "Downsample srt (samples @ [\<lparr>sT = to, sV = v\<rparr>]) (to - window) to \<noteq> []"
    using Cons.prems b by (intro Downsample_nonempty[OF assms(1), of "\<lparr>sT = to, sV = v\<rparr>"]) auto
  moreover obtain out where "bindHistory srt rd to current bindings = Inr out" "length out = length bindings"
    using Cons by auto
  ultimately show ?case by (simp add: b rd v Let_def)
qed simp

definition manyNames :: "string list" where
  "manyNames = map (\<lambda>n. [char_of (97 + n)]) [0..<17]"

definition boundBlock :: "string list \<Rightarrow> Block" where
  "boundBlock names = Series \<lparr>seTitle = [], seEmphasis = [], seFormat = [], seUnit = [], seMin = None, seMax = None,
     seSeries = [], seHistory = Some \<lparr>shWindow = ''1h'',
       shLines = map (\<lambda>name. \<lparr>hlSignal = name, hlLabel = name, hlLevel = []\<rparr>) names\<rparr>\<rparr>"

definition manySignals :: Document where
  "manySignals = emptyDocument
     \<lparr>docSignals := map (\<lambda>name. (name, \<lparr>sigValue = SNumber 1, sigUnit = [], sigLevel = []\<rparr>)) manyNames,
      docBlocks := map (\<lambda>k. boundBlock (take 4 (drop (4 * k) manyNames))) [0..<5]\<rparr>"

definition manyExample :: Definition where
  "manyExample = currentExample\<lparr>dHistorySignals := manyNames\<rparr>"

text \<open>
  A document that binds more than sixteen retained signals is never shown: the checks on a
  produced document accept it, but the state built from it fails \<open>Validate\<close>, so the refresh returns
  that error, the card keeps its old state without any error, and its breaker has been reset.
\<close>

theorem many_bound_signals_stuck:
  assumes cur: "isCurrent m d" "dDisabled d = []" "dRun d" "mStore m \<noteq> None"
    and closed: "mOpenUntil m (dID d) = None" and now: "0 \<le> now" and srt: "sorts srt"
    and rd: "\<forall>signal from to. \<exists>samples. rd signal from to = Inr samples"
    and doc: "checkDocument reg d (Inr (doc, dur)) = Inr (doc, dur, history)"
    and many: "maxHistorySignals < length (HistoryBindings doc)"
    and bound: "\<forall>b\<in>set (HistoryBindings doc). 0 \<le> snd b \<and> map_of history (fst b) \<noteq> None"
  shows "\<exists>m'. refresh reg srt rd None now (Inr (doc, dur)) d m = (Some (InvalidCard HistorySignals), m') \<and>
           mStates m' = mStates m \<and> failuresOf m' (dID d) = 0"
proof -
  obtain out where out: "bindHistory srt rd now history (HistoryBindings doc) = Inr out"
      "length out = length (HistoryBindings doc)"
    using bindHistory_all[OF srt bound rd] by blast
  have "boundHistory srt rd m doc now history = Inr out"
    using out(1) many cur(4) by (auto simp: boundHistory_def Let_def maxHistorySignals_def)
  then have after: "afterRun reg srt rd now m d (Inr (doc, dur)) =
      TReset d ((OK now (dID d) doc (dSource d) (effectiveTTL d doc) dur)\<lparr>csHistory := out\<rparr>) history"
    using doc by (simp add: afterRun_def)
  have "Second \<le> effectiveTTL d doc" by (simp add: effectiveTTL_def Let_def)
  then have "1 \<le> effectiveTTL d doc div Second" "0 \<le> effectiveTTL d doc"
    using zdiv_mono1[of Second "effectiveTTL d doc" Second] by (simp_all add: Second_def)
  then have "effectiveTTL d doc sdiv Second \<noteq> 0" by (simp add: sdiv_pos Second_def)
  then have "Validate ((OK now (dID d) doc (dSource d) (effectiveTTL d doc) dur)\<lparr>csHistory := out\<rparr>) = Inl HistorySignals"
    using many out(2) by (simp add: Validate_def validateState_def constructor_defs validateHistory_def)
  moreover have "refreshStart now m d = TJoin d"
    using cur closed now by (simp add: refreshStart_def Let_def zeroTime_def Second_def)
  ultimately show ?thesis using after
    by (simp add: refresh_def commitWithHistory_def resetBreaker_def failuresOf_def)
qed

theorem many_bound_signals_stuck_witness:
  "\<exists>m'. refresh [] (sort_key sT) (\<lambda>_ _ _. Inr []) None 5 (Inr (manySignals, 1)) manyExample exampleManager =
          (Some (InvalidCard HistorySignals), m') \<and>
        mStates m' ''cpu'' = Some (Pending ''cpu'') \<and> failuresOf m' ''cpu'' = 0"
proof -
  have cur: "isCurrent exampleManager manyExample" "dDisabled manyExample = []" "dRun manyExample" "dID manyExample = ''cpu''"
    by (simp_all add: manyExample_def currentExample_def isCurrent_def exampleManager_simps exampleDefinition_def)
  have m: "mStore exampleManager \<noteq> None" "mOpenUntil exampleManager ''cpu'' = None"
    by (simp_all add: exampleManager_def Apply_def exampleDefinition_def NewManager_def emptyPrepared_def
        withDefaults_def restoreCard_def GetCardFor_def emptyStore_def Let_def)
  have hv: "historicalValues manyNames manySignals = Inr (map (\<lambda>name. (name, 1)) manyNames)" by code_simp
  have "\<not> documentLeaksSecret [] (Some manySignals)" "unretained manyExample manySignals = None" by code_simp+
  then have c: "checkDocument [] manyExample (Inr (manySignals, 1)) = Inr (manySignals, 1, map (\<lambda>name. (name, 1)) manyNames)"
    using hv by (simp add: checkDocument_def manyExample_def)
  have b: "HistoryBindings manySignals = map (\<lambda>name. (name, Hour)) manyNames" by code_simp
  have "map_of (map (\<lambda>name. (name, 1 :: rat)) manyNames) name \<noteq> None" if "name \<in> set manyNames" for name
    using that by (simp add: map_of_eq_None_iff image_image)
  then have all: "\<forall>b\<in>set (HistoryBindings manySignals). 0 \<le> snd b \<and> map_of (map (\<lambda>name. (name, 1 :: rat)) manyNames) (fst b) \<noteq> None"
    unfolding b by (simp add: Hour_def Minute_def Second_def)
  have "maxHistorySignals < length (HistoryBindings manySignals)"
    unfolding b by (simp add: manyNames_def maxHistorySignals_def)
  then show ?thesis
    using many_bound_signals_stuck[OF cur(1-3) m(1) m(2)[folded cur(4)] _ sorts_sort_key _ c _ all, of 5 "\<lambda>_ _ _. Inr []"]
    by (auto simp: cur exampleManager_simps)
qed

lemma reapply_example:
  assumes "mStore m = Some emptyStore"
  obtains m' where "Apply [] 0 (\<lambda>_. None) [exampleDefinition Minute] m = (None, m')"
    "mDefs m' ''cpu'' = Some ((exampleDefinition Minute)\<lparr>dGeneration := mGeneration m + 1\<rparr>)"
    "mFailures m' = Map.empty" "mWorkers m' = mWorkers m" "mFlights m' = mFlights m"
  using that assms
  by (simp add: Apply_def exampleDefinition_def emptyPrepared_def withDefaults_def restoreCard_def GetCardFor_def
        emptyStore_def Let_def Minute_def Second_def)

text \<open>
  The failure count is not fenced by the generation: there is a run in which the configuration
  is applied again while a card runs, the old run is cancelled by that, and its failure is counted
  against the new generation, in which nothing has failed and nothing has run.
\<close>

theorem superseded_failure_counts:
  "\<exists>s s' d. reachable id (Some emptyStore) [] [] s \<and> step [] id (Task 0) s s' \<and>
     sysTasks s 0 = Some (TFailed d cancelled) \<and> \<not> isCurrent (sysM s) d \<and>
     mFailures (sysM s) = Map.empty \<and> failuresOf (sysM s') (dID d) = 1"
proof -
  let ?d = currentExample and ?k = "flightKey currentExample"
  let ?m2 = "exampleManager\<lparr>mFlights := {?k}, mWorkers := 1\<rparr>"
  let ?s = "\<lambda>m t. \<lparr>sysM = m, sysTasks = [0 \<mapsto> t]\<rparr>"
  have m: "mStore exampleManager = Some emptyStore" "mGeneration exampleManager = 1"
    by (simp_all add: exampleManager_def Apply_def exampleDefinition_def NewManager_def emptyPrepared_def
        withDefaults_def restoreCard_def GetCardFor_def emptyStore_def Let_def)
  have d: "dID ?d = ''cpu''" "dGeneration ?d = 1" by (simp_all add: currentExample_def exampleDefinition_def)
  note r = reachable_untracked[where srt = id and store = "Some emptyStore"]
  obtain m3 where m3: "Apply [] 0 (\<lambda>_. None) [exampleDefinition Minute] ?m2 = (None, m3)"
      "mDefs m3 ''cpu'' = Some ((exampleDefinition Minute)\<lparr>dGeneration := mGeneration ?m2 + 1\<rparr>)" "mFailures m3 = Map.empty"
    by (rule reapply_example[of ?m2]) (use m in simp)
  have "step [] id Config (?s ?m2 (TRunning ?d ?k)) (?s m3 (TRunning ?d ?k))"
    using step.config[of "[]" 0 _ _ "?s ?m2 (TRunning ?d ?k)"] m3(1) by simp
  note r5 = r[OF running_reachable[OF streamsOnly_example exampleManager_reachable, unfolded runningExample_def] this]
  let ?m4 = "m3\<lparr>mFlights := mFlights m3 - {?k}, mWorkers := mWorkers m3 - 1\<rparr>"
  have "wakeFollowers ?k (Inl cancelled) [0 \<mapsto> TRunning ?d ?k] = [0 \<mapsto> TRunning ?d ?k]"
    by (auto simp: wakeFollowers_def wakeTask_def)
  then have "step [] id (Task 0) (?s m3 (TRunning ?d ?k)) (?s ?m4 (TRan ?d (Inl cancelled)))"
    using step.finish[of "?s m3 (TRunning ?d ?k)" 0 ?d ?k "[]" id "Inl cancelled"] by simp
  note r6 = r[OF r5 this]
  have "step [] id (Task 0) (?s ?m4 (TRan ?d (Inl cancelled))) (?s ?m4 (TFailed ?d cancelled))"
    using step.ran[of "?s ?m4 (TRan ?d (Inl cancelled))" 0 ?d "Inl cancelled" 0 "[]" id]
    by (simp add: afterRun_def checkDocument_def)
  note r7 = r[OF r6 this]
  obtain m5 t where m5: "countFailure ?m4 ?d cancelled = (m5, t)" by fastforce
  then have "step [] id (Task 0) (?s ?m4 (TFailed ?d cancelled)) (?s m5 t)"
    using step.failed[of "?s ?m4 (TFailed ?d cancelled)" 0 ?d cancelled m5 t] by simp
  moreover have "\<not> isCurrent ?m4 ?d" using m3(2) m d by (simp add: isCurrent_def)
  moreover have "failuresOf m5 ''cpu'' = 1" using m5 m3(3) d by (auto simp: countFailure_def Let_def failuresOf_def)
  ultimately show ?thesis using r7 m3(3) d(1)
    by (intro exI[of _ "?s ?m4 (TFailed ?d cancelled)"] exI[of _ "?s m5 t"] exI[of _ ?d]) simp
qed

end
