(* ===== verification/Integrations.thy ===== *)
theory Integrations
  imports Capabilities "HOL-Library.List_Lexorder"
begin

text \<open>
  Package \<open>internal/integrations\<close>: resource limits (\<open>limits.go\<close>), the authority tuple of a route
  (\<open>route.go\<close>), the permission diff (\<open>diff.go\<close>), approval (\<open>approve.go\<close>) and the status of an
  integration (\<open>status.go\<close>).  A nil slice is \<open>None\<close> where the code tells it from an empty one.
  Package \<open>mime\<close> is the argument it is in \<open>Capabilities\<close>.
\<close>

section \<open>Limits\<close>

definition limitBounds :: "(string \<times> (int \<times> int)) list" where
  "limitBounds =
     [(''memoryMB'', (64, 256)),
      (''timeoutMs'', (3000, 30000)),
      (''outputKB'', (64, 256)),
      (''httpRequests'', (8, 32)),
      (''responseMB'', (4, 16)),
      (''cacheEntries'', (64, 512)),
      (''inputMB'', (4, 16)),
      (''jsonDepth'', (32, 64)),
      (''jsonNodes'', (200000, 1000000)),
      (''exprNodes'', (512, 4096)),
      (''iterations'', (20000, 100000)),
      (''requestBodyKB'', (64, 1024)),
      (''hostCalls'', (256, 2048)),
      (''cacheBytesKB'', (256, 4096))]"

definition limitFieldOrder :: "string list" where
  "limitFieldOrder =
     [''cacheBytesKB'', ''cacheEntries'', ''exprNodes'', ''hostCalls'', ''httpRequests'',
      ''inputMB'', ''iterations'', ''jsonDepth'', ''jsonNodes'', ''memoryMB'',
      ''outputKB'', ''requestBodyKB'', ''responseMB'', ''timeoutMs'']"

text \<open>\<open>integrations.Limits\<close>: a field that is not set is \<open>None\<close>.\<close>

record ManifestLimits =
  lmMemoryMB :: "int option"
  lmTimeoutMs :: "int option"
  lmOutputKB :: "int option"
  lmHTTPRequests :: "int option"
  lmResponseMB :: "int option"
  lmCacheEntries :: "int option"
  lmInputMB :: "int option"
  lmJSONDepth :: "int option"
  lmJSONNodes :: "int option"
  lmExprNodes :: "int option"
  lmIterations :: "int option"
  lmRequestBodyKB :: "int option"
  lmHostCalls :: "int option"
  lmCacheBytesKB :: "int option"

definition limitField :: "ManifestLimits \<Rightarrow> string \<Rightarrow> int option" where
  "limitField l name =
     (if name = ''memoryMB'' then lmMemoryMB l
      else if name = ''timeoutMs'' then lmTimeoutMs l
      else if name = ''outputKB'' then lmOutputKB l
      else if name = ''httpRequests'' then lmHTTPRequests l
      else if name = ''responseMB'' then lmResponseMB l
      else if name = ''cacheEntries'' then lmCacheEntries l
      else if name = ''inputMB'' then lmInputMB l
      else if name = ''jsonDepth'' then lmJSONDepth l
      else if name = ''jsonNodes'' then lmJSONNodes l
      else if name = ''exprNodes'' then lmExprNodes l
      else if name = ''iterations'' then lmIterations l
      else if name = ''requestBodyKB'' then lmRequestBodyKB l
      else if name = ''hostCalls'' then lmHostCalls l
      else if name = ''cacheBytesKB'' then lmCacheBytesKB l
      else None)"

definition limitBound :: "string \<Rightarrow> int \<times> int" where
  "limitBound name = (case map_of limitBounds name of None \<Rightarrow> (0, 0) | Some b \<Rightarrow> b)"

definition requested :: "string \<Rightarrow> ManifestLimits \<Rightarrow> int" where
  "requested name m =
     (let b = limitBound name;
          v = (case limitField m name of None \<Rightarrow> fst b | Some v \<Rightarrow> v)
      in if v > snd b then snd b else v)"

definition isZero :: "ManifestLimits \<Rightarrow> bool" where
  "isZero l \<longleftrightarrow> lmMemoryMB l = None \<and> lmTimeoutMs l = None \<and> lmOutputKB l = None \<and> lmHTTPRequests l = None \<and> lmResponseMB l = None \<and> lmCacheEntries l = None \<and> lmInputMB l = None \<and> lmJSONDepth l = None \<and> lmJSONNodes l = None \<and> lmExprNodes l = None \<and> lmIterations l = None \<and> lmRequestBodyKB l = None \<and> lmHostCalls l = None \<and> lmCacheBytesKB l = None"

definition noLimits :: ManifestLimits where
  "noLimits = \<lparr>lmMemoryMB = None, lmTimeoutMs = None, lmOutputKB = None, lmHTTPRequests = None, lmResponseMB = None, lmCacheEntries = None, lmInputMB = None, lmJSONDepth = None, lmJSONNodes = None, lmExprNodes = None, lmIterations = None, lmRequestBodyKB = None, lmHostCalls = None, lmCacheBytesKB = None\<rparr>"

definition effectiveLimit :: "string \<Rightarrow> ManifestLimits \<Rightarrow> ManifestLimits \<Rightarrow> int" where
  "effectiveLimit name manifest approved =
     (let m = requested name manifest; a = requested name approved in if a < m then a else m)"

record EffectiveLimits =
  efMemoryMB :: int
  efTimeoutMs :: int
  efOutputKB :: int
  efHTTPRequests :: int
  efResponseMB :: int
  efCacheEntries :: int
  efInputMB :: int
  efJSONDepth :: int
  efJSONNodes :: int
  efExprNodes :: int
  efIterations :: int
  efRequestBodyKB :: int
  efHostCalls :: int
  efCacheBytesKB :: int

definition zeroLimits :: EffectiveLimits where
  "zeroLimits = \<lparr>efMemoryMB = 0, efTimeoutMs = 0, efOutputKB = 0, efHTTPRequests = 0, efResponseMB = 0, efCacheEntries = 0, efInputMB = 0, efJSONDepth = 0, efJSONNodes = 0, efExprNodes = 0, efIterations = 0, efRequestBodyKB = 0, efHostCalls = 0, efCacheBytesKB = 0\<rparr>"

definition effectiveField :: "EffectiveLimits \<Rightarrow> string \<Rightarrow> int" where
  "effectiveField e name =
     (if name = ''memoryMB'' then efMemoryMB e
      else if name = ''timeoutMs'' then efTimeoutMs e
      else if name = ''outputKB'' then efOutputKB e
      else if name = ''httpRequests'' then efHTTPRequests e
      else if name = ''responseMB'' then efResponseMB e
      else if name = ''cacheEntries'' then efCacheEntries e
      else if name = ''inputMB'' then efInputMB e
      else if name = ''jsonDepth'' then efJSONDepth e
      else if name = ''jsonNodes'' then efJSONNodes e
      else if name = ''exprNodes'' then efExprNodes e
      else if name = ''iterations'' then efIterations e
      else if name = ''requestBodyKB'' then efRequestBodyKB e
      else if name = ''hostCalls'' then efHostCalls e
      else if name = ''cacheBytesKB'' then efCacheBytesKB e
      else 0)"

definition setField :: "string \<Rightarrow> int \<Rightarrow> EffectiveLimits \<Rightarrow> EffectiveLimits" where
  "setField name v e =
     (if name = ''memoryMB'' then e\<lparr>efMemoryMB := v\<rparr>
      else if name = ''timeoutMs'' then e\<lparr>efTimeoutMs := v\<rparr>
      else if name = ''outputKB'' then e\<lparr>efOutputKB := v\<rparr>
      else if name = ''httpRequests'' then e\<lparr>efHTTPRequests := v\<rparr>
      else if name = ''responseMB'' then e\<lparr>efResponseMB := v\<rparr>
      else if name = ''cacheEntries'' then e\<lparr>efCacheEntries := v\<rparr>
      else if name = ''inputMB'' then e\<lparr>efInputMB := v\<rparr>
      else if name = ''jsonDepth'' then e\<lparr>efJSONDepth := v\<rparr>
      else if name = ''jsonNodes'' then e\<lparr>efJSONNodes := v\<rparr>
      else if name = ''exprNodes'' then e\<lparr>efExprNodes := v\<rparr>
      else if name = ''iterations'' then e\<lparr>efIterations := v\<rparr>
      else if name = ''requestBodyKB'' then e\<lparr>efRequestBodyKB := v\<rparr>
      else if name = ''hostCalls'' then e\<lparr>efHostCalls := v\<rparr>
      else if name = ''cacheBytesKB'' then e\<lparr>efCacheBytesKB := v\<rparr>
      else e)"

definition ReconcileAtApproval :: "ManifestLimits \<Rightarrow> ManifestLimits \<Rightarrow> EffectiveLimits" where
  "ReconcileAtApproval manifest approved =
     foldl (\<lambda>out name. setField name (effectiveLimit name manifest approved) out) zeroLimits limitFieldOrder"

section \<open>Routes\<close>

text \<open>\<open>integrations.Route\<close>.\<close>

record ManifestRoute =
  mrSlot :: string
  mrMethod :: string
  mrPath :: string
  mrUse :: string
  mrReason :: string
  mrQueryKeys :: "string list option"
  mrContentType :: string
  mrMaxBodyKB :: int

record identity =
  idSlot :: string
  idMethod :: string
  idPath :: string
  idUse :: string
  idQueryKeys :: string
  idContentType :: string
  idMaxBodyKB :: int

datatype routeError = BadPath routepath_error | BadContentType string

definition canonicalQueryKeys :: "string list option \<Rightarrow> string" where
  "canonicalQueryKeys keys =
     (case keys of
        None \<Rightarrow> ''*''
      | Some ks \<Rightarrow> CHR 0x00 # Join [CHR 0x00] (remdups_adj (sort ks)))"

definition effectiveMaxBodyKB :: "int \<Rightarrow> int \<Rightarrow> int" where
  "effectiveMaxBodyKB routeMaxKB requestBodyKB =
     (if routeMaxKB > 0 then routeMaxKB else if requestBodyKB > 0 then requestBodyKB else coreDefaultBodyKB)"

definition normaliseContentType :: "mimeLib \<Rightarrow> string \<Rightarrow> string option" where
  "normaliseContentType mime v = (if v = [] then Some [] else normaliseMediaType mime v)"

definition routeIdentity :: "mimeLib \<Rightarrow> int \<Rightarrow> ManifestRoute \<Rightarrow> (routeError, identity) result" where
  "routeIdentity mime requestBodyKB r =
     (case Canonicalise (mrPath r) of
        Inl e \<Rightarrow> Inl (BadPath e)
      | Inr path \<Rightarrow>
          (case normaliseContentType mime (mrContentType r) of
             None \<Rightarrow> Inl (BadContentType (mrContentType r))
           | Some ct \<Rightarrow>
               Inr \<lparr>idSlot = mrSlot r, idMethod = mrMethod r, idPath = path,
                    idUse = (if mrUse r = [] then ''data'' else mrUse r),
                    idQueryKeys = canonicalQueryKeys (mrQueryKeys r), idContentType = ct,
                    idMaxBodyKB = effectiveMaxBodyKB (mrMaxBodyKB r) requestBodyKB\<rparr>))"

fun dedupeRoutesLoop :: "ManifestRoute list \<Rightarrow> ManifestRoute list \<Rightarrow> ManifestRoute list" where
  "dedupeRoutesLoop seen [] = []"
| "dedupeRoutesLoop seen (r # routes) =
     (let k = r\<lparr>mrReason := [], mrQueryKeys := Some [canonicalQueryKeys (mrQueryKeys r)]\<rparr> in
      if k \<in> set seen then dedupeRoutesLoop seen routes
      else r # dedupeRoutesLoop (k # seen) routes)"

definition dedupeRoutes :: "ManifestRoute list \<Rightarrow> ManifestRoute list" where
  "dedupeRoutes routes = dedupeRoutesLoop [] routes"

definition bodyBearing :: "string \<Rightarrow> bool" where
  "bodyBearing method \<longleftrightarrow> method \<in> {''POST'', ''PUT'', ''PATCH''}"

section \<open>Manifests, the lock and the permission diff\<close>

record Manifest =
  mfID :: string
  mfName :: string
  mfVersion :: string
  mfRuntime :: string
  mfCapabilities :: "string list"
  mfLimits :: ManifestLimits
  mfRoutes :: "ManifestRoute list"
  mfModuleSHA256 :: string
  mfDigest :: string

record LockEntry =
  leManifestSHA256 :: string
  leModuleSHA256 :: string
  leVersion :: string
  leRuntime :: string
  leApprovedAt :: int
  leApprovedBy :: string
  leCapabilities :: "string list"
  leRoutes :: "ManifestRoute list"
  leLimits :: "ManifestLimits option"
  leEffectiveLimits :: EffectiveLimits

datatype Status = StatusBuiltin | StatusApproved | StatusUnapproved | StatusChanged

definition Evaluate :: "Manifest \<Rightarrow> LockEntry option \<Rightarrow> Status" where
  "Evaluate manifest entry =
     (case entry of
        None \<Rightarrow> StatusUnapproved
      | Some e \<Rightarrow> if leManifestSHA256 e \<noteq> mfDigest manifest then StatusChanged else StatusApproved)"

record LimitDiff =
  ldField :: string
  ldCurrent :: int
  ldRequested :: int

record Diff =
  AddedRoutes :: "ManifestRoute list"
  RemovedRoutes :: "ManifestRoute list"
  AddedCapabilities :: "string list"
  RaisedLimits :: "LimitDiff list"
  BodyBearingRoutes :: "ManifestRoute list"

definition Empty :: "Diff \<Rightarrow> bool" where
  "Empty d \<longleftrightarrow> AddedRoutes d = [] \<and> RemovedRoutes d = [] \<and> AddedCapabilities d = [] \<and> RaisedLimits d = []"

definition identitySet :: "mimeLib \<Rightarrow> int \<Rightarrow> ManifestRoute list \<Rightarrow> (routeError, identity list) result" where
  "identitySet mime requestBodyKB routes = map_result (routeIdentity mime requestBodyKB) routes"

text \<open>The routes of a list whose identity is not in a set; the loop returns the first error.\<close>

fun routesOutside :: "mimeLib \<Rightarrow> int \<Rightarrow> identity list \<Rightarrow> ManifestRoute list \<Rightarrow> (routeError, ManifestRoute list) result" where
  "routesOutside mime kb known [] = Inr []"
| "routesOutside mime kb known (r # routes) =
     (case routeIdentity mime kb r of
        Inl e \<Rightarrow> Inl e
      | Inr i \<Rightarrow> map_sum id (\<lambda>out. if i \<in> set known then out else r # out) (routesOutside mime kb known routes))"

definition ComputeDiff :: "mimeLib \<Rightarrow> Manifest \<Rightarrow> LockEntry option \<Rightarrow> (routeError, Diff) result" where
  "ComputeDiff mime m entry =
     (let manifestReqBodyKB = requested ''requestBodyKB'' (mfLimits m);
          lockRoutes = (case entry of None \<Rightarrow> [] | Some e \<Rightarrow> leRoutes e);
          lockCaps = (case entry of None \<Rightarrow> [] | Some e \<Rightarrow> leCapabilities e);
          effective = (case entry of None \<Rightarrow> zeroLimits | Some e \<Rightarrow> leEffectiveLimits e);
          lockReqBodyKB = efRequestBodyKB effective in
      case identitySet mime manifestReqBodyKB (mfRoutes m) of
        Inl e \<Rightarrow> Inl e
      | Inr manifestSet \<Rightarrow>
          (case identitySet mime lockReqBodyKB lockRoutes of
             Inl e \<Rightarrow> Inl e
           | Inr lockSet \<Rightarrow>
               (case routesOutside mime manifestReqBodyKB lockSet (mfRoutes m) of
                  Inl e \<Rightarrow> Inl e
                | Inr added \<Rightarrow>
                    (case routesOutside mime lockReqBodyKB manifestSet lockRoutes of
                       Inl e \<Rightarrow> Inl e
                     | Inr removed \<Rightarrow>
                         Inr \<lparr>AddedRoutes = added, RemovedRoutes = removed,
                              AddedCapabilities = filter (\<lambda>c. c \<notin> set lockCaps) (mfCapabilities m),
                              RaisedLimits =
                                map (\<lambda>name. \<lparr>ldField = name, ldCurrent = effectiveField effective name,
                                              ldRequested = requested name (mfLimits m)\<rparr>)
                                  (filter (\<lambda>name. requested name (mfLimits m) > effectiveField effective name)
                                     limitFieldOrder),
                              BodyBearingRoutes = filter (\<lambda>r. bodyBearing (mrMethod r)) (mfRoutes m)\<rparr>))))"

section \<open>Approval\<close>

record Grants =
  grCapabilities :: "string list"
  grRoutes :: "ManifestRoute list"
  grLimits :: ManifestLimits

datatype approveError =
    ErrDigestChanged
  | ExceedsCapability string
  | ExceedsRoute string string
  | ExceedsLimit string
  | GrantRoute routeError
  | ManifestRouteError routeError

fun checkRoutes :: "mimeLib \<Rightarrow> int \<Rightarrow> identity list \<Rightarrow> ManifestRoute list \<Rightarrow> approveError option" where
  "checkRoutes mime kb known [] = None"
| "checkRoutes mime kb known (r # routes) =
     (case routeIdentity mime kb r of
        Inl e \<Rightarrow> Some (GrantRoute e)
      | Inr i \<Rightarrow> if i \<notin> set known then Some (ExceedsRoute (mrMethod r) (mrPath r))
                 else checkRoutes mime kb known routes)"

definition limitExceeds :: "Manifest \<Rightarrow> ManifestLimits \<Rightarrow> string \<Rightarrow> bool" where
  "limitExceeds m granted name =
     (case limitField granted name of None \<Rightarrow> False | Some v \<Rightarrow> v > requested name (mfLimits m))"

definition Approve ::
  "mimeLib \<Rightarrow> Manifest \<Rightarrow> string \<Rightarrow> Grants \<Rightarrow> string \<Rightarrow> int \<Rightarrow> (approveError, LockEntry) result" where
  "Approve mime m expectedManifestSHA256 grants approvedBy now =
     (if mfDigest m \<noteq> expectedManifestSHA256 then Inl ErrDigestChanged
      else (case find (\<lambda>c. c \<notin> set (mfCapabilities m)) (grCapabilities grants) of
        Some c \<Rightarrow> Inl (ExceedsCapability c)
      | None \<Rightarrow>
          (let manifestReqBodyKB = requested ''requestBodyKB'' (mfLimits m) in
           case identitySet mime manifestReqBodyKB (mfRoutes m) of
             Inl e \<Rightarrow> Inl (ManifestRouteError e)
           | Inr manifestRoutes \<Rightarrow>
               (case checkRoutes mime manifestReqBodyKB manifestRoutes (grRoutes grants) of
                  Some e \<Rightarrow> Inl e
                | None \<Rightarrow>
                    (case find (limitExceeds m (grLimits grants)) limitFieldOrder of
                       Some name \<Rightarrow> Inl (ExceedsLimit name)
                     | None \<Rightarrow>
                         Inr \<lparr>leManifestSHA256 = mfDigest m, leModuleSHA256 = mfModuleSHA256 m,
                              leVersion = mfVersion m, leRuntime = mfRuntime m, leApprovedAt = now,
                              leApprovedBy = approvedBy, leCapabilities = grCapabilities grants,
                              leRoutes = map (\<lambda>r. r\<lparr>mrReason := []\<rparr>) (grRoutes grants),
                              leLimits = (if isZero (grLimits grants) then None else Some (grLimits grants)),
                              leEffectiveLimits = ReconcileAtApproval (mfLimits m) (grLimits grants)\<rparr>)))))"

section \<open>Lemmas\<close>

lemma requested_min:
  "requested name m = min (case limitField m name of None \<Rightarrow> fst (limitBound name) | Some v \<Rightarrow> v) (snd (limitBound name))"
  by (simp add: requested_def Let_def)

lemma effectiveLimit_min: "effectiveLimit name m a = min (requested name m) (requested name a)"
  by (simp add: effectiveLimit_def Let_def)

lemma effectiveLimit_same: "effectiveLimit name m m = requested name m"
  by (simp add: effectiveLimit_min)

lemma effectiveField_Reconcile:
  assumes "name \<in> set limitFieldOrder"
  shows "effectiveField (ReconcileAtApproval m a) name = effectiveLimit name m a"
proof -
  define v where "v = (\<lambda>name. effectiveLimit name m a)"
  have r: "ReconcileAtApproval m a = foldl (\<lambda>out name. setField name (v name) out) zeroLimits limitFieldOrder"
    by (simp add: ReconcileAtApproval_def v_def)
  have "effectiveField (ReconcileAtApproval m a) name = v name"
    using assms unfolding r limitFieldOrder_def
    by (simp add: setField_def zeroLimits_def) (elim disjE; simp add: effectiveField_def)
  then show ?thesis by (simp add: v_def)
qed

lemma efRequestBodyKB_field: "efRequestBodyKB e = effectiveField e ''requestBodyKB''"
  by (simp add: effectiveField_def)

lemma requestBodyKB_listed: "''requestBodyKB'' \<in> set limitFieldOrder"
  by (simp add: limitFieldOrder_def)

definition plainKeys :: "string list option \<Rightarrow> bool" where
  "plainKeys keys \<longleftrightarrow> (\<forall>ks. keys = Some ks \<longrightarrow> list_all (\<lambda>k. k \<noteq> [] \<and> CHR 0x00 \<notin> set k) ks)"

lemma Split_Join_plain:
  assumes "list_all (\<lambda>k. k \<noteq> [] \<and> CHR 0x00 \<notin> set k) ks"
  shows "Split (CHR 0x00) (Join [CHR 0x00] ks) = (if ks = [] then [[]] else ks)"
  using assms by (auto simp: list_all_iff intro!: Split_Join)

lemma Join_plain_inject:
  assumes "list_all (\<lambda>k. k \<noteq> [] \<and> CHR 0x00 \<notin> set k) ks" and "list_all (\<lambda>k. k \<noteq> [] \<and> CHR 0x00 \<notin> set k) ls"
    and "Join [CHR 0x00] ks = Join [CHR 0x00] ls"
  shows "ks = ls"
proof -
  have "(if ks = [] then [[]] else ks) = (if ls = [] then [[]] else ls)"
    using Split_Join_plain[OF assms(1)] Split_Join_plain[OF assms(2)] assms(3) by simp
  then show ?thesis using assms(1,2) by (auto split: if_splits)
qed

lemma canonicalQueryKeys_set:
  assumes "plainKeys k" and "plainKeys l" and "canonicalQueryKeys k = canonicalQueryKeys l"
  shows "map_option set k = map_option set l"
proof (cases k; cases l)
  fix ks ls
  assume kl: "k = Some ks" "l = Some ls"
  have "remdups_adj (sort ks) = remdups_adj (sort ls)"
    using assms kl by (intro Join_plain_inject) (auto simp: plainKeys_def list_all_iff canonicalQueryKeys_def)
  then have "set (remdups_adj (sort ks)) = set (remdups_adj (sort ls))" by simp
  then show ?thesis using kl by simp
qed (use assms(3) in \<open>auto simp: canonicalQueryKeys_def\<close>)

lemma queryKeysAllowed_set:
  "map_option set k = map_option set l \<Longrightarrow> queryKeysAllowed k q = queryKeysAllowed l q"
  by (cases k; cases l) (auto simp: queryKeysAllowed_def)

text \<open>How \<open>internal/app\<close> turns a manifest's or a lock's route into a route of the broker.\<close>

definition runtimeUse :: "string \<Rightarrow> UseKind" where
  "runtimeUse v = (if v = [] \<or> v = ''data'' then UseData else if v = ''asset'' then UseAsset else UseOther v)"

definition brokerRoute :: "ManifestRoute \<Rightarrow> Route" where
  "brokerRoute r = \<lparr>roSlot = mrSlot r, roMethod = mrMethod r, roPath = mrPath r, roUse = runtimeUse (mrUse r),
     roQueryKeys = mrQueryKeys r, roContentType = mrContentType r, roMaxBodyKB = mrMaxBodyKB r\<rparr>"

lemma normaliseMediaType_nonempty: "normaliseMediaType mime v \<noteq> Some []"
  by (auto simp: normaliseMediaType_def Let_def split: option.splits prod.splits if_splits)

lemma contentTypeAllowed_normalised:
  assumes "normaliseContentType mime c = Some n" and "normaliseContentType mime d = Some n"
  shows "contentTypeAllowed mime c h = contentTypeAllowed mime d h"
  using assms normaliseMediaType_nonempty[of mime]
  by (cases "c = []"; cases "d = []") (auto simp: normaliseContentType_def contentTypeAllowed_def cong: option.case_cong)

lemma bodySizeAllowed_effective:
  assumes "0 < kb" and "effectiveMaxBodyKB a kb = effectiveMaxBodyKB b kb"
  shows "bodySizeAllowed a kb len = bodySizeAllowed b kb len"
  using assms by (auto simp: effectiveMaxBodyKB_def bodySizeAllowed_def Let_def split: if_splits)

lemma routeIdentity_Inr:
  assumes "routeIdentity mime kb r = Inr i"
  obtains path ct where "Canonicalise (mrPath r) = Inr path" "normaliseContentType mime (mrContentType r) = Some ct"
    "i = \<lparr>idSlot = mrSlot r, idMethod = mrMethod r, idPath = path,
          idUse = (if mrUse r = [] then ''data'' else mrUse r), idQueryKeys = canonicalQueryKeys (mrQueryKeys r),
          idContentType = ct, idMaxBodyKB = effectiveMaxBodyKB (mrMaxBodyKB r) kb\<rparr>"
  using assms by (auto simp: routeIdentity_def split: sum.splits option.splits)

lemma routeIdentity_reason [simp]: "routeIdentity mime kb (r\<lparr>mrReason := x\<rparr>) = routeIdentity mime kb r"
  by (simp add: routeIdentity_def cong: sum.case_cong option.case_cong)

lemma list_all2_members:
  "list_all2 P xs ys \<Longrightarrow> (\<forall>x\<in>set xs. \<exists>y\<in>set ys. P x y) \<and> (\<forall>y\<in>set ys. \<exists>x\<in>set xs. P x y)"
  by (induction rule: list_all2_induct) auto

lemma identitySet_Inr: "identitySet mime kb rs = Inr ids \<Longrightarrow> r \<in> set rs \<Longrightarrow> \<exists>i\<in>set ids. routeIdentity mime kb r = Inr i"
  unfolding identitySet_def map_result_Inr_iff by (drule list_all2_members) blast

lemma identitySet_rev: "identitySet mime kb rs = Inr ids \<Longrightarrow> i \<in> set ids \<Longrightarrow> \<exists>r\<in>set rs. routeIdentity mime kb r = Inr i"
  unfolding identitySet_def map_result_Inr_iff by (drule list_all2_members) blast

lemma identitySet_reason:
  "identitySet mime kb (map (\<lambda>r. r\<lparr>mrReason := []\<rparr>) rs) = identitySet mime kb rs"
  unfolding identitySet_def by (induction rs) (auto cong: sum.case_cong)

lemma checkRoutes_None:
  "checkRoutes mime kb known rs = None \<longleftrightarrow> (\<forall>r\<in>set rs. \<exists>i\<in>set known. routeIdentity mime kb r = Inr i)"
  by (induction rs) (auto split: sum.splits)

lemma routesOutside_none:
  "\<forall>r\<in>set rs. \<exists>i\<in>set known. routeIdentity mime kb r = Inr i \<Longrightarrow> routesOutside mime kb known rs = Inr []"
  by (induction rs) auto

lemma Approve_Inr:
  assumes "Approve mime m sha grants by now = Inr entry"
  obtains ids where "mfDigest m = sha" "set (grCapabilities grants) \<subseteq> set (mfCapabilities m)"
    "identitySet mime (requested ''requestBodyKB'' (mfLimits m)) (mfRoutes m) = Inr ids"
    "checkRoutes mime (requested ''requestBodyKB'' (mfLimits m)) ids (grRoutes grants) = None"
    "leManifestSHA256 entry = sha" "leCapabilities entry = grCapabilities grants"
    "leRoutes entry = map (\<lambda>r. r\<lparr>mrReason := []\<rparr>) (grRoutes grants)"
    "leEffectiveLimits entry = ReconcileAtApproval (mfLimits m) (grLimits grants)"
  using assms
  by (auto simp: Approve_def Let_def find_None_iff subset_iff split: if_splits option.splits sum.splits)

section \<open>Properties\<close>

text \<open>
  Equal authority tuples mean equal authority: when two routes have the same identity, replacing
  one by the other in a grant changes the broker's verdict on no request.  The query keys are non-empty
  and free of the separator byte, and the uses are those of the schema.
\<close>

theorem identity_is_authority:
  assumes "routeIdentity mime kb r = Inr i" and "routeIdentity mime kb r' = Inr i" and "0 < kb"
    and "plainKeys (mrQueryKeys r)" and "plainKeys (mrQueryKeys r')"
    and "mrUse r \<in> {[], ''data'', ''asset''}" and "mrUse r' \<in> {[], ''data'', ''asset''}"
  shows "anyRouteAllows mime (brokerRoute r # rs) req path use kb =
         anyRouteAllows mime (brokerRoute r' # rs) req path use kb"
proof -
  obtain p ct where r: "Canonicalise (mrPath r) = Inr p" "normaliseContentType mime (mrContentType r) = Some ct"
      "i = \<lparr>idSlot = mrSlot r, idMethod = mrMethod r, idPath = p,
          idUse = (if mrUse r = [] then ''data'' else mrUse r), idQueryKeys = canonicalQueryKeys (mrQueryKeys r),
          idContentType = ct, idMaxBodyKB = effectiveMaxBodyKB (mrMaxBodyKB r) kb\<rparr>"
    using assms(1) by (rule routeIdentity_Inr)
  obtain p' ct' where r': "Canonicalise (mrPath r') = Inr p'" "normaliseContentType mime (mrContentType r') = Some ct'"
      "i = \<lparr>idSlot = mrSlot r', idMethod = mrMethod r', idPath = p',
          idUse = (if mrUse r' = [] then ''data'' else mrUse r'), idQueryKeys = canonicalQueryKeys (mrQueryKeys r'),
          idContentType = ct', idMaxBodyKB = effectiveMaxBodyKB (mrMaxBodyKB r') kb\<rparr>"
    using assms(2) by (rule routeIdentity_Inr)
  have eq: "mrSlot r = mrSlot r'" "mrMethod r = mrMethod r'" "p = p'" "ct = ct'"
      "(if mrUse r = [] then ''data'' else mrUse r) = (if mrUse r' = [] then ''data'' else mrUse r')"
      "canonicalQueryKeys (mrQueryKeys r) = canonicalQueryKeys (mrQueryKeys r')"
      "effectiveMaxBodyKB (mrMaxBodyKB r) kb = effectiveMaxBodyKB (mrMaxBodyKB r') kb"
    using r(3) r'(3) by simp_all
  have use: "runtimeUse (mrUse r) = runtimeUse (mrUse r')"
    using eq(5) assms(6,7) by (auto simp: runtimeUse_def)
  have q: "queryKeysAllowed (mrQueryKeys r) (qQuery req) = queryKeysAllowed (mrQueryKeys r') (qQuery req)"
    using canonicalQueryKeys_set[OF assms(4,5) eq(6)] by (rule queryKeysAllowed_set)
  have c: "contentTypeAllowed mime (mrContentType r) (qHeader req) = contentTypeAllowed mime (mrContentType r') (qHeader req)"
    using r(2) r'(2) eq(4) by (intro contentTypeAllowed_normalised) simp_all
  have b: "bodySizeAllowed (mrMaxBodyKB r) kb (bodyLen req) = bodySizeAllowed (mrMaxBodyKB r') kb (bodyLen req)"
    using assms(3) eq(7) by (rule bodySizeAllowed_effective)
  show ?thesis using use q c b eq(1-3) r(1) r'(1)
    by (simp add: brokerRoute_def routeMatchesSlotMethodAndPath_def)
qed

definition exampleMime :: mimeLib where
  "exampleMime = \<lparr>ParseMediaType = (\<lambda>v. Some (v, [])), FormatMediaType = (\<lambda>t ps. t)\<rparr>"

definition exampleRoute :: "string list option \<Rightarrow> int \<Rightarrow> ManifestRoute" where
  "exampleRoute keys maxKB = \<lparr>mrSlot = ''server'', mrMethod = ''POST'', mrPath = ''/api/items'', mrUse = ''data'',
     mrReason = ''list items'', mrQueryKeys = keys, mrContentType = ''application/json'', mrMaxBodyKB = maxKB\<rparr>"

definition exampleManifest :: Manifest where
  "exampleManifest = \<lparr>mfID = ''demo'', mfName = ''Demo'', mfVersion = ''1.0.0'', mfRuntime = ''declarative'',
     mfCapabilities = [''http''], mfLimits = noLimits\<lparr>lmHTTPRequests := Some 16\<rparr>,
     mfRoutes = [exampleRoute (Some [''a'', ''b'']) 0], mfModuleSHA256 = [], mfDigest = ''d1''\<rparr>"

definition fullGrants :: "Manifest \<Rightarrow> Grants" where
  "fullGrants m = \<lparr>grCapabilities = mfCapabilities m, grRoutes = mfRoutes m, grLimits = mfLimits m\<rparr>"

theorem identity_is_authority_witness:
  "\<forall>req path use.
     anyRouteAllows exampleMime [brokerRoute (exampleRoute (Some [''a'', ''b'']) 0)] req path use 64 =
     anyRouteAllows exampleMime [brokerRoute (exampleRoute (Some [''b'', ''a'', ''b'']) 64)] req path use 64"
proof -
  obtain i where i: "routeIdentity exampleMime 64 (exampleRoute (Some [''a'', ''b'']) 0) = Inr i"
      "routeIdentity exampleMime 64 (exampleRoute (Some [''b'', ''a'', ''b'']) 64) = Inr i"
  proof
    show "routeIdentity exampleMime 64 (exampleRoute (Some [''a'', ''b'']) 0) =
        Inr \<lparr>idSlot = ''server'', idMethod = ''POST'', idPath = ''/api/items'', idUse = ''data'',
             idQueryKeys = [CHR 0x00, CHR ''a'', CHR 0x00, CHR ''b''], idContentType = ''application/json'', idMaxBodyKB = 64\<rparr>"
      by code_simp
    show "routeIdentity exampleMime 64 (exampleRoute (Some [''b'', ''a'', ''b'']) 64) =
        Inr \<lparr>idSlot = ''server'', idMethod = ''POST'', idPath = ''/api/items'', idUse = ''data'',
             idQueryKeys = [CHR 0x00, CHR ''a'', CHR 0x00, CHR ''b''], idContentType = ''application/json'', idMaxBodyKB = 64\<rparr>"
      by code_simp
  qed
  show ?thesis by (intro allI identity_is_authority[OF i]) (simp_all add: plainKeys_def exampleRoute_def)
qed

text \<open>
  C19. An approval never exceeds the request: when \<open>Approve\<close> returns an entry, the digest is the one that
  was reviewed, every capability and every route (by its authority tuple) is one the manifest asks for,
  and every one of the fourteen effective limits is the least of the core maximum, the manifest's request
  and the granted value, where a value that is not set counts as the default.
\<close>

theorem Approve_within_request:
  assumes "Approve mime m sha grants by now = Inr entry"
  shows "mfDigest m = sha \<and> Evaluate m (Some entry) = StatusApproved \<and>
         set (leCapabilities entry) \<subseteq> set (mfCapabilities m) \<and>
         (\<forall>r\<in>set (leRoutes entry). \<exists>r'\<in>set (mfRoutes m). \<exists>i.
            routeIdentity mime (requested ''requestBodyKB'' (mfLimits m)) r = Inr i \<and>
            routeIdentity mime (requested ''requestBodyKB'' (mfLimits m)) r' = Inr i) \<and>
         (\<forall>name\<in>set limitFieldOrder. effectiveField (leEffectiveLimits entry) name =
            Min {snd (limitBound name),
                 (case limitField (mfLimits m) name of None \<Rightarrow> fst (limitBound name) | Some v \<Rightarrow> v),
                 (case limitField (grLimits grants) name of None \<Rightarrow> fst (limitBound name) | Some v \<Rightarrow> v)})"
proof -
  let ?kb = "requested ''requestBodyKB'' (mfLimits m)"
  obtain ids where a: "mfDigest m = sha" "set (grCapabilities grants) \<subseteq> set (mfCapabilities m)"
      "identitySet mime ?kb (mfRoutes m) = Inr ids" "checkRoutes mime ?kb ids (grRoutes grants) = None"
      "leManifestSHA256 entry = sha" "leCapabilities entry = grCapabilities grants"
      "leRoutes entry = map (\<lambda>r. r\<lparr>mrReason := []\<rparr>) (grRoutes grants)"
      "leEffectiveLimits entry = ReconcileAtApproval (mfLimits m) (grLimits grants)"
    using assms by (rule Approve_Inr)
  have "\<exists>r'\<in>set (mfRoutes m). \<exists>i. routeIdentity mime ?kb r = Inr i \<and> routeIdentity mime ?kb r' = Inr i"
    if "r \<in> set (leRoutes entry)" for r
  proof -
    obtain g where g: "g \<in> set (grRoutes grants)" "r = g\<lparr>mrReason := []\<rparr>" using \<open>r \<in> set (leRoutes entry)\<close> a(7) by auto
    then obtain i where "i \<in> set ids" "routeIdentity mime ?kb g = Inr i" using a(4) by (auto simp: checkRoutes_None)
    then show ?thesis using identitySet_rev[OF a(3)] g(2) by auto
  qed
  moreover have "effectiveField (leEffectiveLimits entry) name =
      Min {snd (limitBound name),
           (case limitField (mfLimits m) name of None \<Rightarrow> fst (limitBound name) | Some v \<Rightarrow> v),
           (case limitField (grLimits grants) name of None \<Rightarrow> fst (limitBound name) | Some v \<Rightarrow> v)}"
    if "name \<in> set limitFieldOrder" for name
    using effectiveField_Reconcile[OF that] a(8) by (simp add: effectiveLimit_min requested_min min.assoc min.left_commute min.commute)
  ultimately show ?thesis using a(1,2,5,6) by (simp add: Evaluate_def)
qed

text \<open>
  Approving everything a manifest asks for settles it: the permission diff against the resulting
  lock entry is empty.
\<close>

theorem Approve_all_empties_diff:
  assumes "Approve mime m sha (fullGrants m) by now = Inr entry"
  shows "\<exists>d. ComputeDiff mime m (Some entry) = Inr d \<and> Empty d"
proof -
  let ?kb = "requested ''requestBodyKB'' (mfLimits m)"
  obtain ids where a: "identitySet mime ?kb (mfRoutes m) = Inr ids"
      "leCapabilities entry = mfCapabilities m" "leRoutes entry = map (\<lambda>r. r\<lparr>mrReason := []\<rparr>) (mfRoutes m)"
      "leEffectiveLimits entry = ReconcileAtApproval (mfLimits m) (mfLimits m)"
    using assms by (elim Approve_Inr) (simp add: fullGrants_def)
  have kb: "efRequestBodyKB (leEffectiveLimits entry) = ?kb"
    using effectiveField_Reconcile[OF requestBodyKB_listed] a(4) by (simp add: efRequestBodyKB_field effectiveLimit_same)
  have known: "\<forall>r\<in>set (mfRoutes m). \<exists>i\<in>set ids. routeIdentity mime ?kb r = Inr i" using identitySet_Inr[OF a(1)] by blast
  have "identitySet mime ?kb (leRoutes entry) = Inr ids" using a(1,3) by (simp add: identitySet_reason)
  moreover have "routesOutside mime ?kb ids (mfRoutes m) = Inr []" using known by (rule routesOutside_none)
  moreover have "routesOutside mime ?kb ids (leRoutes entry) = Inr []"
    using known a(3) by (intro routesOutside_none) auto
  moreover have "effectiveField (leEffectiveLimits entry) name = requested name (mfLimits m)" if "name \<in> set limitFieldOrder" for name
    using effectiveField_Reconcile[OF that] a(4) by (simp add: effectiveLimit_same)
  ultimately show ?thesis using a(1,2) kb
    by (simp add: ComputeDiff_def Let_def Empty_def filter_empty_conv)
qed

definition exampleEntry :: LockEntry where
  "exampleEntry = projr (Approve exampleMime exampleManifest ''d1'' (fullGrants exampleManifest) ''admin'' 0)"

lemma exampleEntry_approved:
  "Approve exampleMime exampleManifest ''d1'' (fullGrants exampleManifest) ''admin'' 0 = Inr exampleEntry"
proof -
  have "isl (Approve exampleMime exampleManifest ''d1'' (fullGrants exampleManifest) ''admin'' 0) = False" by code_simp
  then show ?thesis unfolding exampleEntry_def by simp
qed

theorem Approve_within_request_witness:
  "effectiveField (leEffectiveLimits exampleEntry) ''httpRequests'' = 16 \<and>
   effectiveField (leEffectiveLimits exampleEntry) ''hostCalls'' = 256"
proof -
  have b: "limitBound ''httpRequests'' = (8, 32)" "limitBound ''hostCalls'' = (256, 2048)" by code_simp+
  have f: "limitField (mfLimits exampleManifest) ''httpRequests'' = Some 16"
    "limitField (mfLimits exampleManifest) ''hostCalls'' = None" by code_simp+
  have "''httpRequests'' \<in> set limitFieldOrder" "''hostCalls'' \<in> set limitFieldOrder" by (simp_all add: limitFieldOrder_def)
  then show ?thesis using Approve_within_request[OF exampleEntry_approved] b f by (simp add: fullGrants_def)
qed

theorem Approve_all_empties_diff_witness:
  "\<exists>d. ComputeDiff exampleMime exampleManifest (Some exampleEntry) = Inr d \<and> Empty d"
  using Approve_all_empties_diff[OF exampleEntry_approved] .

text \<open>
  The authority tuple is not injective on what the schema admits: a query key may contain the byte
  that separates keys in the tuple, so a route for the two keys \<open>a\<close> and \<open>b\<close> and a route for one odd key
  have the same identity, and the diff between them is empty, although only the first permits a request
  with the key \<open>a\<close>.
\<close>

theorem query_key_separator_collides:
  "let wide = Some [''a'', ''b'']; odd = Some [[CHR ''a'', CHR 0x00, CHR ''b'']] in
   routeIdentity exampleMime 64 (exampleRoute wide 0) = routeIdentity exampleMime 64 (exampleRoute odd 0) \<and>
   queryKeysAllowed wide [(''a'', ''1'')] \<and> \<not> queryKeysAllowed odd [(''a'', ''1'')]"
  by code_simp

end
