(* ===== verification/SecretRefs.thy ===== *)
theory SecretRefs
  imports Secrets
begin

text \<open>
  References to secrets in configuration values: \<open>internal/config/secretref.go\<close> (recognising
  \<open>${secret:NAME}\<close>), \<open>internal/secrets\<close> (\<open>value.go\<close>, \<open>provider.go\<close>, \<open>resolver.go\<close>: looking the names up)
  and the two functions \<open>resolveRef\<close> of \<open>internal/connections\<close> and \<open>internal/notify\<close> that put the values
  into a composed credential.  The file system and the environment are arguments.
\<close>

section \<open>Recognising a reference\<close>

definition nameByte :: "char \<Rightarrow> bool" where
  "nameByte c \<longleftrightarrow> CHR ''A'' \<le> c \<and> c \<le> CHR ''Z'' \<or> CHR ''a'' \<le> c \<and> c \<le> CHR ''z'' \<or>
     CHR ''0'' \<le> c \<and> c \<le> CHR ''9'' \<or> c = CHR ''_''"

definition refOpen :: string where
  "refOpen = ''${secret:''"

definition refText :: "string \<Rightarrow> string" where
  "refText name = refOpen @ name @ ''}''"

text \<open>A match of the pattern at the head of a text: the name and what follows the reference.\<close>

definition matchRef :: "string \<Rightarrow> (string \<times> string) option" where
  "matchRef s =
     (if \<not> HasPrefix s refOpen then None
      else let rest = drop (length refOpen) s;
               name = takeWhile nameByte rest;
               rest' = dropWhile nameByte rest
           in if name \<noteq> [] \<and> rest' \<noteq> [] \<and> hd rest' = CHR ''}'' then Some (name, tl rest') else None)"

datatype segment = Lit char | Ref string

lemma matchRef_shorter [termination_simp]: "matchRef (c # s) = Some (name, rest) \<Longrightarrow> length rest \<le> length s"
proof -
  assume a: "matchRef (c # s) = Some (name, rest)"
  define r where "r = dropWhile nameByte (drop (length refOpen) (c # s))"
  have "length r \<le> length s"
    unfolding r_def by (rule le_trans[OF length_dropWhile_le]) (simp add: refOpen_def)
  moreover have "rest = tl r" using a by (auto simp: matchRef_def Let_def r_def split: if_splits)
  ultimately show ?thesis by simp
qed

text \<open>\<open>FindAllStringSubmatch\<close>: the leftmost matches, none overlapping another.\<close>

fun segments :: "string \<Rightarrow> segment list" where
  "segments [] = []"
| "segments (c # s) =
     (case matchRef (c # s) of
        Some (name, rest) \<Rightarrow> Ref name # segments rest
      | None \<Rightarrow> Lit c # segments s)"

fun segmentName :: "segment \<Rightarrow> string list" where
  "segmentName (Lit c) = []"
| "segmentName (Ref name) = [name]"

definition refNames :: "string \<Rightarrow> string list" where
  "refNames s = concat (map segmentName (segments s))"

record SecretRef =
  refLiteral :: string
  refName :: string
  refTemplate :: string
  refList :: "string list"

definition IsSecret :: "SecretRef \<Rightarrow> bool" where
  "IsSecret r \<longleftrightarrow> refName r \<noteq> [] \<or> refList r \<noteq> []"

text \<open>\<open>UnmarshalYAML\<close> on a scalar; a node of another kind is refused before.\<close>

definition UnmarshalYAML :: "string \<Rightarrow> SecretRef" where
  "UnmarshalYAML s =
     (case matchRef s of
        Some (name, []) \<Rightarrow> \<lparr>refLiteral = [], refName = name, refTemplate = [], refList = []\<rparr>
      | _ \<Rightarrow>
          if refNames s \<noteq> []
          then \<lparr>refLiteral = [], refName = [], refTemplate = s, refList = refNames s\<rparr>
          else \<lparr>refLiteral = s, refName = [], refTemplate = [], refList = []\<rparr>)"

section \<open>Resolving names\<close>

text \<open>A provider's answer: an error, nothing, or the value.\<close>

type_synonym Provider = "string \<Rightarrow> (string, string option) result"

definition isSpace :: "char \<Rightarrow> bool" where
  "isSpace c \<longleftrightarrow> c \<in> {CHR 0x09, CHR 0x0A, CHR 0x0B, CHR 0x0C, CHR 0x0D, CHR 0x20}"

definition TrimSpace :: "string \<Rightarrow> string" where
  "TrimSpace s = rev (dropWhile isSpace (rev (dropWhile isSpace s)))"

definition EnvProvider :: "(string \<rightharpoonup> string) \<Rightarrow> Provider" where
  "EnvProvider env name = Inr (env name)"

text \<open>The argument \<open>files\<close> is \<open>os.ReadFile\<close> on a path below the directory.\<close>

definition FileProvider :: "(string \<Rightarrow> (string, string option) result) \<Rightarrow> string \<Rightarrow> Provider" where
  "FileProvider files dir name =
     (if name = [] \<or> \<not> list_all nameByte name then Inl ''unsafe secret name''
      else map_sum id (map_option TrimSpace) (files (dir @ ''/'' @ name)))"

fun Resolve :: "Provider list \<Rightarrow> Provider" where
  "Resolve [] name = Inr None"
| "Resolve (p # ps) name =
     (case p name of
        Inl err \<Rightarrow> Inl err
      | Inr (Some v) \<Rightarrow> Inr (Some v)
      | Inr None \<Rightarrow> Resolve ps name)"

record SecretLocation =
  slName :: string
  slFile :: string
  slLine :: int
  slColumn :: int

datatype outcome = Resolved string | Failed "string option"

definition tryOutcome :: "Provider \<Rightarrow> string \<Rightarrow> outcome" where
  "tryOutcome resolve name =
     (case resolve name of
        Inl err \<Rightarrow> Failed (Some err)
      | Inr (Some v) \<Rightarrow> Resolved v
      | Inr None \<Rightarrow> Failed None)"

text \<open>The first loop of \<open>ResolveAll\<close>: \<open>tried\<close> with the outcome of each name.\<close>

fun resolveLoop :: "Provider \<Rightarrow> SecretLocation list \<Rightarrow> (string \<rightharpoonup> outcome) \<Rightarrow> (string \<rightharpoonup> outcome)" where
  "resolveLoop resolve [] tried = tried"
| "resolveLoop resolve (r # refs) tried =
     (if tried (slName r) \<noteq> None then resolveLoop resolve refs tried
      else resolveLoop resolve refs (tried(slName r \<mapsto> tryOutcome resolve (slName r))))"

text \<open>A diagnostic: the location and the provider's error, if it had one.\<close>

definition ResolveAll ::
  "SecretLocation list \<Rightarrow> Provider \<Rightarrow> (string \<rightharpoonup> string) \<times> (SecretLocation \<times> string option) list" where
  "ResolveAll refs resolve =
     (let tried = resolveLoop resolve refs Map.empty in
      (\<lambda>name. case tried name of Some (Resolved v) \<Rightarrow> Some v | _ \<Rightarrow> None,
       concat (map (\<lambda>r. case tried (slName r) of Some (Failed err) \<Rightarrow> [(r, err)] | _ \<Rightarrow> []) refs)))"

section \<open>Composing a credential\<close>

text \<open>\<open>strings.Replace(s, old, new, 1)\<close>.\<close>

definition ReplaceFirst :: "string \<Rightarrow> string \<Rightarrow> string \<Rightarrow> string" where
  "ReplaceFirst s old new =
     (case Index s old of None \<Rightarrow> s | Some i \<Rightarrow> take i s @ new @ drop (i + length old) s)"

datatype refError = NotResolved string

fun composeFirst :: "(string \<rightharpoonup> string) \<Rightarrow> string list \<Rightarrow> string \<Rightarrow> (refError, string) result" where
  "composeFirst resolved [] composed = Inr composed"
| "composeFirst resolved (name # names) composed =
     (case resolved name of
        None \<Rightarrow> Inl (NotResolved name)
      | Some v \<Rightarrow> composeFirst resolved names (ReplaceFirst composed (refText name) v))"

definition resolveRef :: "SecretRef \<Rightarrow> (string \<rightharpoonup> string) \<Rightarrow> (refError, string) result" where
  "resolveRef ref resolved =
     (if \<not> IsSecret ref then Inr (refLiteral ref)
      else if refTemplate ref \<noteq> [] then composeFirst resolved (refList ref) (refTemplate ref)
      else (case resolved (refName ref) of
              None \<Rightarrow> Inl (NotResolved (refName ref))
            | Some v \<Rightarrow> Inr v))"

fun composeAll :: "(string \<rightharpoonup> string) \<Rightarrow> string list \<Rightarrow> string \<Rightarrow> (refError, string) result" where
  "composeAll resolved [] composed = Inr composed"
| "composeAll resolved (name # names) composed =
     (case resolved name of
        None \<Rightarrow> Inl (NotResolved name)
      | Some v \<Rightarrow> composeAll resolved names (ReplaceAll composed (refText name) v))"

definition notifyResolveRef :: "SecretRef \<Rightarrow> (string \<rightharpoonup> string) \<Rightarrow> (refError, string) result" where
  "notifyResolveRef ref resolved =
     (if refName ref \<noteq> []
      then (case resolved (refName ref) of
              None \<Rightarrow> Inl (NotResolved (refName ref))
            | Some v \<Rightarrow> Inr v)
      else if refTemplate ref \<noteq> [] then composeAll resolved (refList ref) (refTemplate ref)
      else Inr (refLiteral ref))"

text \<open>What a configuration value means: every reference of the text replaced by its value.\<close>

fun fillSegment :: "(string \<rightharpoonup> string) \<Rightarrow> segment \<Rightarrow> string" where
  "fillSegment m (Lit c) = [c]"
| "fillSegment m (Ref name) = (case m name of None \<Rightarrow> refText name | Some v \<Rightarrow> v)"

definition fill :: "(string \<rightharpoonup> string) \<Rightarrow> segment list \<Rightarrow> string" where
  "fill m segs = concat (map (fillSegment m) segs)"

definition expand :: "(string \<rightharpoonup> string) \<Rightarrow> string \<Rightarrow> string" where
  "expand resolved s = fill resolved (segments s)"


section \<open>Reading a text back\<close>

definition validName :: "string \<Rightarrow> bool" where
  "validName name \<longleftrightarrow> name \<noteq> [] \<and> list_all nameByte name"

lemma matchRef_Some:
  assumes "matchRef s = Some (name, rest)"
  shows "s = refText name @ rest" and "validName name"
proof -
  define r where "r = drop (length refOpen) s"
  have s: "s = refOpen @ r"
    using assms by (auto simp: matchRef_def HasPrefix_def r_def split: if_splits)
       (metis append_take_drop_id)
  have "name = takeWhile nameByte r" "dropWhile nameByte r = CHR ''}'' # rest" "name \<noteq> []"
    using assms
    by (cases "dropWhile nameByte r"; auto simp: matchRef_def Let_def r_def[symmetric] split: if_splits)+
  then have "r = name @ CHR ''}'' # rest" using takeWhile_dropWhile_id[of nameByte r] by simp
  then show "s = refText name @ rest" using s by (simp add: refText_def)
  show "validName name"
    using \<open>name = _\<close> \<open>name \<noteq> []\<close> by (auto simp: validName_def list_all_iff dest: set_takeWhileD)
qed

lemma fill_Cons [simp]: "fill m (x # xs) = fillSegment m x @ fill m xs"
  by (simp add: fill_def)

lemma fill_Nil [simp]: "fill m [] = []"
  by (simp add: fill_def)

lemma fill_append [simp]: "fill m (xs @ ys) = fill m xs @ fill m ys"
  by (simp add: fill_def)

lemma fill_segments: "fill Map.empty (segments s) = s"
  by (induction s rule: segments.induct) (auto split: option.splits dest: matchRef_Some)

lemma segments_valid: "Ref name \<in> set (segments s) \<Longrightarrow> validName name"
  by (induction s rule: segments.induct) (auto split: option.splits dest: matchRef_Some)

lemma refNames_iff: "name \<in> set (refNames s) \<longleftrightarrow> Ref name \<in> set (segments s)"
proof -
  have "name \<in> set (segmentName x) \<longleftrightarrow> x = Ref name" for x by (cases x) auto
  then show ?thesis by (auto simp: refNames_def)
qed

lemma nameByte_dollar: "validName name \<Longrightarrow> CHR ''$'' \<notin> set name"
  by (auto simp: validName_def list_all_iff nameByte_def)

lemma nameByte_brace: "validName name \<Longrightarrow> CHR ''}'' \<notin> set name"
  by (auto simp: validName_def list_all_iff nameByte_def)

text \<open>A reference starts with a dollar sign and holds no other.\<close>

lemma refText_dollar:
  assumes "validName name"
  obtains q where "refText name = CHR ''$'' # q" and "CHR ''$'' \<notin> set q"
  using nameByte_dollar[OF assms] that[of "tl (refText name)"] by (simp add: refText_def refOpen_def)

lemma refText_not_Nil [simp]: "refText name \<noteq> []"
  by (simp add: refText_def refOpen_def)

lemma refText_prefix_inj:
  assumes "refText a @ x = refText b @ y" and "validName a" and "validName b"
  shows "a = b \<and> x = y"
proof -
  have eq: "a @ CHR ''}'' # x = b @ CHR ''}'' # y" using assms(1) by (simp add: refText_def)
  show ?thesis using eq nameByte_brace[OF assms(2)] nameByte_brace[OF assms(3)]
  proof (induction a arbitrary: b)
    case Nil
    then show ?case by (cases b) auto
  next
    case (Cons c a)
    then show ?case by (cases b) auto
  qed
qed

lemma Contains_refText: "Contains s (refText name) \<Longrightarrow> Contains s refOpen"
  unfolding Contains_iff refText_def by (metis append.assoc)

lemma not_Contains_prefix: "\<not> Contains (a @ b) p \<Longrightarrow> \<not> Contains a p"
  unfolding Contains_iff by (metis append.assoc)

lemma not_Contains_suffix: "\<not> Contains (a @ b) p \<Longrightarrow> \<not> Contains b p"
  unfolding Contains_iff by (metis append.assoc)

section \<open>Replacing the first occurrence\<close>

lemma Index_at:
  assumes "s = a @ p @ r" and "\<And>u w. s = u @ p @ w \<Longrightarrow> length a \<le> length u"
  shows "Index s p = Some (length a)"
proof -
  obtain i x where i: "Index s p = Some i" "drop (i + length p) s = x @ r"
    using Index_leftmost[OF assms(1)] by blast
  have "length a \<le> length (take i s)" using assms(2)[OF Index_Some_split[OF i(1)]] .
  moreover have "length s - (i + length p) \<ge> length r" using i(2) by (metis length_append length_drop le_add2)
  ultimately show ?thesis using i(1) Index_length[OF i(1)] assms(1) by auto
qed

lemma Index_refText:
  assumes "validName name" and "\<not> Contains a (refText name)"
  shows "Index (a @ refText name @ r) (refText name) = Some (length a)"
proof (rule Index_at[OF refl])
  fix u w assume eq: "a @ refText name @ r = u @ refText name @ w"
  obtain q where q: "refText name = CHR ''$'' # q" "CHR ''$'' \<notin> set q" by (rule refText_dollar[OF assms(1)])
  consider us where "a = u @ us" "us @ refText name @ r = refText name @ w" | us where "a @ us = u"
    using eq unfolding append_eq_append_conv2 by auto
  then show "length a \<le> length u"
  proof cases
    case (1 us)
    show ?thesis
    proof (cases us)
      case (Cons c x)
      then have c: "c = CHR ''$''" and "q @ w = x @ CHR ''$'' # q @ r" using 1(2) q(1) by auto
      then consider ys where "q = x @ ys" "ys @ w = CHR ''$'' # q @ r" | ys where "q @ ys = x"
        unfolding append_eq_append_conv2 by auto
      then have "\<exists>y. x = q @ y"
      proof cases
        case (1 ys)
        then show ?thesis using q(2) by (cases ys) auto
      qed auto
      then have "\<exists>y. a = u @ refText name @ y" using 1(1) Cons c q(1) by auto
      then show ?thesis using assms(2) by (auto simp: Contains_iff)
    qed (simp add: 1)
  qed auto
qed

lemma composeFirst_fill:
  assumes "\<And>name. Ref name \<in> set segs \<Longrightarrow> validName name \<and> resolved name \<noteq> None"
    and "\<not> Contains (a @ fill resolved segs) refOpen"
  shows "composeFirst resolved (concat (map segmentName segs)) (a @ fill Map.empty segs) = Inr (a @ fill resolved segs)"
  using assms
proof (induction segs arbitrary: a)
  case (Cons x segs)
  show ?case
  proof (cases x)
    case (Lit c)
    then show ?thesis using Cons.IH[of "a @ [c]"] Cons.prems by simp
  next
    case (Ref name)
    then obtain v where v: "resolved name = Some v" and "validName name" using Cons.prems(1)[of name] by auto
    have "\<not> Contains a (refText name)"
      using Cons.prems(2) not_Contains_prefix Contains_refText by blast
    then have "ReplaceFirst (a @ refText name @ fill Map.empty segs) (refText name) v = (a @ v) @ fill Map.empty segs"
      using Index_refText[OF \<open>validName name\<close>] by (simp add: ReplaceFirst_def)
    then show ?thesis using Cons.IH[of "a @ v"] Cons.prems v Ref by simp
  qed
qed simp

section \<open>Replacing every occurrence\<close>

lemma ReplaceAll_Cons:
  assumes "p \<noteq> []" and "\<not> HasPrefix (c # s) p"
  shows "ReplaceAll (c # s) p v = c # ReplaceAll s p v"
  using assms by (cases "Index s p") (simp_all add: ReplaceAll.simps[of "c # s"] ReplaceAll.simps[of s] Index.simps[of "c # s"])

lemma ReplaceAll_hit: "p \<noteq> [] \<Longrightarrow> ReplaceAll (p @ s) p v = v @ ReplaceAll s p v"
proof -
  assume "p \<noteq> []"
  moreover have "Index (p @ s) p = Some 0" by (simp add: Index.simps HasPrefix_def)
  ultimately show ?thesis by (simp add: ReplaceAll.simps[of "p @ s"])
qed

lemma ReplaceAll_Nil [simp]: "ReplaceAll [] p v = []"
  by (simp add: ReplaceAll.simps Index.simps HasPrefix_def)

lemma ReplaceAll_skip:
  assumes "p = CHR ''$'' # q" and "CHR ''$'' \<notin> set b"
  shows "ReplaceAll (b @ s) p v = b @ ReplaceAll s p v"
  using assms(2)
proof (induction b)
  case (Cons c b)
  have "\<not> HasPrefix (c # b @ s) p" using Cons.prems assms(1) by (auto simp: HasPrefix_iff)
  then show ?case using Cons assms(1) by (simp add: ReplaceAll_Cons)
qed simp

text \<open>Text without a dollar sign at the head of a partly filled text is there in the filled text.\<close>

lemma HasPrefix_fill:
  assumes "HasPrefix (fill Map.empty segs) q" and "CHR ''$'' \<notin> set q"
  shows "HasPrefix (fill m segs) q"
  using assms
proof (induction segs arbitrary: q)
  case (Cons x segs)
  show ?case
  proof (cases "q = []")
    case True
    then show ?thesis by (simp add: HasPrefix_def)
  next
    case False
    then obtain d q' where q: "q = d # q'" by (cases q) auto
    show ?thesis
    proof (cases x)
      case (Lit c)
      then have "c = d" "HasPrefix (fill Map.empty segs) q'" using Cons.prems(1) q by (auto simp: HasPrefix_iff)
      then show ?thesis using Cons.IH[of q'] Cons.prems(2) q Lit by (auto simp: HasPrefix_iff)
    next
      case (Ref name)
      then show ?thesis using Cons.prems q by (auto simp: HasPrefix_iff refText_def refOpen_def)
    qed
  qed
qed simp

lemma ReplaceAll_fill_one:
  assumes "\<And>k. Ref k \<in> set segs \<Longrightarrow> validName k" and "validName name"
    and "\<not> Contains (fill m segs) refOpen"
  shows "ReplaceAll (fill Map.empty segs) (refText name) v = fill [name \<mapsto> v] segs"
proof -
  obtain q where q: "refText name = CHR ''$'' # q" "CHR ''$'' \<notin> set q" by (rule refText_dollar[OF assms(2)])
  show ?thesis using assms(1,3)
  proof (induction segs)
    case (Cons x segs)
    have rest: "\<not> Contains (fill m segs) refOpen"
      using Cons.prems(2) not_Contains_suffix by simp
    show ?case
    proof (cases x)
      case (Lit c)
      have "\<not> HasPrefix (c # fill Map.empty segs) (refText name)"
      proof
        assume "HasPrefix (c # fill Map.empty segs) (refText name)"
        then have "c = CHR ''$''" "HasPrefix (fill Map.empty segs) q" using q(1) by (auto simp: HasPrefix_iff)
        then have "Contains (c # fill m segs) (refText name)"
          using HasPrefix_fill[OF _ q(2), of segs m] q(1) by (auto simp: HasPrefix_iff Contains_iff intro: exI[of _ "[]"])
        then show False using Cons.prems(2) Lit Contains_refText by fastforce
      qed
      then show ?thesis using Cons Lit rest by (simp add: ReplaceAll_Cons)
    next
      case (Ref k)
      show ?thesis
      proof (cases "k = name")
        case True
        then show ?thesis using Cons Ref rest by (simp add: ReplaceAll_hit)
      next
        case False
        have vk: "validName k" using Cons.prems(1) Ref by simp
        obtain r where r: "refText k = CHR ''$'' # r" "CHR ''$'' \<notin> set r" by (rule refText_dollar[OF vk])
        have "\<not> HasPrefix (refText k @ fill Map.empty segs) (refText name)"
          using refText_prefix_inj[OF _ vk assms(2)] False by (auto simp: HasPrefix_iff)
        then have "ReplaceAll (refText k @ fill Map.empty segs) (refText name) v =
                   refText k @ ReplaceAll (fill Map.empty segs) (refText name) v"
          using ReplaceAll_skip[OF q(1) r(2)] r(1) by (simp add: ReplaceAll_Cons)
        then show ?thesis using Cons Ref rest False by simp
      qed
    qed
  qed simp
qed


text \<open>A filled reference reads as literal text: the other references of the text stay.\<close>

fun literal :: "(string \<rightharpoonup> string) \<Rightarrow> segment \<Rightarrow> segment list" where
  "literal m (Lit c) = [Lit c]"
| "literal m (Ref name) = (case m name of None \<Rightarrow> [Ref name] | Some v \<Rightarrow> map Lit v)"

lemma fill_map_Lit [simp]: "fill m (map Lit v) = v"
  by (induction v) auto

lemma fill_literal: "fill m' (concat (map (literal m) segs)) = fill (m' ++ m) segs"
proof (induction segs)
  case (Cons x segs)
  then show ?case by (cases x) (auto simp: map_add_def split: option.splits)
qed simp

lemma literal_valid:
  "(\<And>k. Ref k \<in> set segs \<Longrightarrow> validName k) \<Longrightarrow> Ref k \<in> set (concat (map (literal m) segs)) \<Longrightarrow> validName k"
proof -
  assume valid: "\<And>k. Ref k \<in> set segs \<Longrightarrow> validName k" and "Ref k \<in> set (concat (map (literal m) segs))"
  then obtain x where "x \<in> set segs" "Ref k \<in> set (literal m x)" by auto
  then show "validName k" using valid by (cases x rule: segment.exhaust) (auto split: option.splits)
qed

lemma ReplaceAll_fill:
  assumes "\<And>k. Ref k \<in> set segs \<Longrightarrow> validName k" and "validName name"
    and "\<not> Contains (fill (M ++ m) segs) refOpen" and "m name \<in> {None, Some v}"
  shows "ReplaceAll (fill m segs) (refText name) v = fill (m(name \<mapsto> v)) segs"
proof -
  define segs' where "segs' = concat (map (literal m) segs)"
  have "ReplaceAll (fill Map.empty segs') (refText name) v = fill [name \<mapsto> v] segs'"
    by (rule ReplaceAll_fill_one[where m = M])
      (use assms literal_valid segs'_def in \<open>auto simp: fill_literal simp del: set_concat\<close>)
  moreover have "[name \<mapsto> v] ++ m = m(name \<mapsto> v)" using assms(4) by (auto simp: map_add_def split: option.splits)
  ultimately show ?thesis by (simp add: segs'_def fill_literal)
qed

lemma composeAll_fill:
  assumes "\<And>k. Ref k \<in> set segs \<Longrightarrow> validName k"
    and "\<And>k. k \<in> set names \<Longrightarrow> validName k \<and> resolved k \<noteq> None"
    and "\<not> Contains (fill resolved segs) refOpen" and "m \<subseteq>\<^sub>m resolved"
  shows "\<exists>m'. composeAll resolved names (fill m segs) = Inr (fill m' segs) \<and> m' \<subseteq>\<^sub>m resolved \<and> dom m' = dom m \<union> set names"
  using assms(2,4)
proof (induction names arbitrary: m)
  case (Cons k names)
  obtain v where v: "resolved k = Some v" using Cons.prems(1)[of k] by auto
  have "resolved ++ m = resolved" using Cons.prems(2) by (auto simp: map_le_def map_add_def dom_def split: option.splits)
  moreover have "m k \<in> {None, Some v}" using Cons.prems(2) v by (auto simp: map_le_def dom_def)
  ultimately have hit: "ReplaceAll (fill m segs) (refText k) v = fill (m(k \<mapsto> v)) segs"
    using ReplaceAll_fill[OF assms(1), where name = k and M = resolved and m = m and v = v] assms(3) Cons.prems(1)[of k] by simp
  have le: "m(k \<mapsto> v) \<subseteq>\<^sub>m resolved" using Cons.prems(2) v by (auto simp: map_le_def)
  obtain m' where m': "composeAll resolved names (fill (m(k \<mapsto> v)) segs) = Inr (fill m' segs)"
    "m' \<subseteq>\<^sub>m resolved" "dom m' = dom (m(k \<mapsto> v)) \<union> set names"
    using Cons.IH[OF _ le] Cons.prems(1) by (metis list.set_intros(2))
  have "composeAll resolved (k # names) (fill m segs) = Inr (fill m' segs)" using hit m'(1) v by simp
  moreover have "dom m' = dom m \<union> set (k # names)" using m'(3) by simp
  ultimately show ?case using m'(2) by blast
qed auto

section \<open>The meaning of a configuration value\<close>

lemma whole_expand:
  "matchRef s = Some (name, []) \<Longrightarrow> resolved name = Some v \<Longrightarrow> expand resolved s = v"
  by (cases s) (auto simp: expand_def matchRef_def HasPrefix_def refOpen_def)

lemma literal_expand: "refNames s = [] \<Longrightarrow> expand resolved s = s"
proof -
  assume "refNames s = []"
  then have "\<forall>x\<in>set (segments s). segmentName x = []" by (simp add: refNames_def)
  then have "fill resolved xs = fill Map.empty xs" if "set xs \<subseteq> set (segments s)" for xs
    using that
  proof (induction xs)
    case (Cons x xs)
    then show ?case by (cases x) auto
  qed simp
  then show ?thesis using fill_segments[of s] by (simp add: expand_def)
qed

lemma template_not_Nil: "refNames s \<noteq> [] \<Longrightarrow> s \<noteq> []"
  by (auto simp: refNames_def)

lemma whole_name: "matchRef s = Some (name, []) \<Longrightarrow> name \<in> set (refNames s) \<and> name \<noteq> []"
  using matchRef_Some(2)[of s name "[]"]
  by (cases s) (auto simp: refNames_def validName_def matchRef_def HasPrefix_def refOpen_def)


lemma fill_agree: "(\<And>k. Ref k \<in> set segs \<Longrightarrow> m k = m' k) \<Longrightarrow> fill m segs = fill m' segs"
proof (induction segs)
  case (Cons x segs)
  then show ?case by (cases x) auto
qed simp

lemma UnmarshalYAML_cases:
  obtains (whole) name where "matchRef s = Some (name, [])"
      "UnmarshalYAML s = \<lparr>refLiteral = [], refName = name, refTemplate = [], refList = []\<rparr>"
  | (composed) "refNames s \<noteq> []"
      "UnmarshalYAML s = \<lparr>refLiteral = [], refName = [], refTemplate = s, refList = refNames s\<rparr>"
  | (plain) "refNames s = []"
      "UnmarshalYAML s = \<lparr>refLiteral = s, refName = [], refTemplate = [], refList = []\<rparr>"
  by (cases "\<exists>name. matchRef s = Some (name, [])"; cases "refNames s = []")
    (auto simp: UnmarshalYAML_def split: option.splits list.splits)

lemma resolveRef_expand:
  assumes "\<And>name. name \<in> set (refNames s) \<Longrightarrow> resolved name \<noteq> None"
    and "\<not> Contains (expand resolved s) refOpen"
  shows "resolveRef (UnmarshalYAML s) resolved = Inr (expand resolved s)"
proof (cases s rule: UnmarshalYAML_cases)
  case (whole name)
  then obtain v where "resolved name = Some v" using assms(1) whole_name by blast
  then show ?thesis using whole whole_name[OF whole(1)] whole_expand by (auto simp: resolveRef_def IsSecret_def)
next
  case composed
  have "composeFirst resolved (refNames s) ([] @ fill Map.empty (segments s)) = Inr ([] @ fill resolved (segments s))"
    unfolding refNames_def
    by (rule composeFirst_fill) (use assms segments_valid refNames_iff in \<open>auto simp: expand_def\<close>)
  then show ?thesis
    using composed template_not_Nil fill_segments[of s] by (simp add: resolveRef_def IsSecret_def expand_def)
next
  case plain
  then show ?thesis using literal_expand by (simp add: resolveRef_def IsSecret_def)
qed

lemma notifyResolveRef_expand:
  assumes "\<And>name. name \<in> set (refNames s) \<Longrightarrow> resolved name \<noteq> None"
    and "\<not> Contains (expand resolved s) refOpen"
  shows "notifyResolveRef (UnmarshalYAML s) resolved = Inr (expand resolved s)"
proof (cases s rule: UnmarshalYAML_cases)
  case (whole name)
  then obtain v where "resolved name = Some v" using assms(1) whole_name by blast
  then show ?thesis using whole whole_name[OF whole(1)] whole_expand by (auto simp: notifyResolveRef_def)
next
  case composed
  obtain m where m: "composeAll resolved (refNames s) (fill Map.empty (segments s)) = Inr (fill m (segments s))"
    "m \<subseteq>\<^sub>m resolved" "dom m = set (refNames s)"
    using composeAll_fill[of "segments s" "refNames s" resolved Map.empty] assms segments_valid refNames_iff
    by (auto simp: expand_def)
  have "m k = resolved k" if "Ref k \<in> set (segments s)" for k
    using that m(2,3) refNames_iff[of k s] unfolding map_le_def by blast
  then show ?thesis
    using composed template_not_Nil fill_segments[of s] m(1) fill_agree[of "segments s" m resolved]
    by (simp add: notifyResolveRef_def expand_def)
next
  case plain
  then show ?thesis using literal_expand by (simp add: notifyResolveRef_def)
qed

text \<open>
  A configuration value means its text with every \<open>${secret:NAME}\<close> replaced by the resolved value.
  Connections compose it by replacing first occurrences one at a time, notification channels by
  replacing all occurrences of one name at a time; both give that meaning, whatever the mix of literal
  text and references, when every name is resolved and the composed text does not itself hold the
  syntax of a reference.
\<close>

theorem resolveRef_substitutes:
  assumes "\<And>name. name \<in> set (refNames s) \<Longrightarrow> resolved name \<noteq> None"
    and "\<not> Contains (expand resolved s) refOpen"
  shows "resolveRef (UnmarshalYAML s) resolved = Inr (expand resolved s) \<and>
         notifyResolveRef (UnmarshalYAML s) resolved = Inr (expand resolved s)"
  using resolveRef_expand[OF assms] notifyResolveRef_expand[OF assms] by simp

definition exampleTemplate :: string where
  "exampleTemplate = ''T=${secret:A}/${secret:B}:${secret:A}''"

theorem resolveRef_substitutes_witness:
  "refNames exampleTemplate = [''A'', ''B'', ''A''] \<and>
   expand [''A'' \<mapsto> ''x$'', ''B'' \<mapsto> ''{y}''] exampleTemplate = ''T=x$/{y}:x$'' \<and>
   resolveRef (UnmarshalYAML exampleTemplate) [''A'' \<mapsto> ''x$'', ''B'' \<mapsto> ''{y}''] = Inr ''T=x$/{y}:x$''"
proof -
  have names: "refNames exampleTemplate = [''A'', ''B'', ''A'']" by code_simp
  have shown: "expand [''A'' \<mapsto> ''x$'', ''B'' \<mapsto> ''{y}''] exampleTemplate = ''T=x$/{y}:x$''" by code_simp
  have "resolveRef (UnmarshalYAML exampleTemplate) [''A'' \<mapsto> ''x$'', ''B'' \<mapsto> ''{y}''] =
      Inr (expand [''A'' \<mapsto> ''x$'', ''B'' \<mapsto> ''{y}''] exampleTemplate)"
    by (rule resolveRef_substitutes[THEN conjunct1]) (auto simp: names, code_simp)
  then show ?thesis using names shown by simp
qed

text \<open>
  When the value of one secret holds the syntax of a reference to another, the two functions
  disagree about the same configuration value: a connection leaves the second reference in the
  credential, a notification channel substitutes inside the first secret.
\<close>

theorem secret_inside_secret:
  "resolveRef (UnmarshalYAML ''${secret:A} ${secret:B}'') [''A'' \<mapsto> ''${secret:B}'', ''B'' \<mapsto> ''b''] =
     Inr ''b ${secret:B}'' \<and>
   notifyResolveRef (UnmarshalYAML ''${secret:A} ${secret:B}'') [''A'' \<mapsto> ''${secret:B}'', ''B'' \<mapsto> ''b''] =
     Inr ''b b'' \<and>
   expand [''A'' \<mapsto> ''${secret:B}'', ''B'' \<mapsto> ''b''] ''${secret:A} ${secret:B}'' = ''${secret:B} b''"
  by code_simp

section \<open>Resolution\<close>

lemma resolveLoop_tried:
  "resolveLoop resolve refs tried name =
     (case tried name of
        Some out \<Rightarrow> Some out
      | None \<Rightarrow> if name \<in> slName ` set refs then Some (tryOutcome resolve name) else None)"
proof (induction refs arbitrary: tried)
  case (Cons r refs)
  show ?case by (cases "tried (slName r)"; cases "tried name") (auto simp: Cons.IH)
qed (simp split: option.splits)

text \<open>
  Configuration loading reports every unresolved occurrence: there is no diagnostic exactly if every
  referenced name is resolved, a name is resolved to the first provider's value, and each occurrence of
  a name that is not resolved has a diagnostic at its own location.
\<close>

theorem ResolveAll_complete:
  "(snd (ResolveAll refs resolve) = [] \<longleftrightarrow> (\<forall>r\<in>set refs. fst (ResolveAll refs resolve) (slName r) \<noteq> None)) \<and>
   (\<forall>name v. fst (ResolveAll refs resolve) name = Some v \<longleftrightarrow>
      name \<in> slName ` set refs \<and> resolve name = Inr (Some v)) \<and>
   (\<forall>r\<in>set refs. fst (ResolveAll refs resolve) (slName r) = None \<longrightarrow> r \<in> fst ` set (snd (ResolveAll refs resolve)))"
  by (auto simp: ResolveAll_def Let_def resolveLoop_tried tryOutcome_def image_iff
      split: option.splits outcome.splits sum.splits if_splits)

theorem ResolveAll_complete_witness:
  "snd (ResolveAll [\<lparr>slName = ''A'', slFile = ''f'', slLine = 1, slColumn = 2\<rparr>,
                    \<lparr>slName = ''B'', slFile = ''f'', slLine = 3, slColumn = 4\<rparr>]
          (Resolve [EnvProvider [''A'' \<mapsto> ''v'']])) = [(\<lparr>slName = ''B'', slFile = ''f'', slLine = 3, slColumn = 4\<rparr>, None)] \<and>
   fst (ResolveAll [\<lparr>slName = ''A'', slFile = ''f'', slLine = 1, slColumn = 2\<rparr>,
                    \<lparr>slName = ''B'', slFile = ''f'', slLine = 3, slColumn = 4\<rparr>]
          (Resolve [EnvProvider [''A'' \<mapsto> ''v'']])) ''A'' = Some ''v''"
  using ResolveAll_complete[of "[\<lparr>slName = ''A'', slFile = ''f'', slLine = 1, slColumn = 2\<rparr>,
                    \<lparr>slName = ''B'', slFile = ''f'', slLine = 3, slColumn = 4\<rparr>]" "Resolve [EnvProvider [''A'' \<mapsto> ''v'']]"]
  by (auto simp: ResolveAll_def tryOutcome_def EnvProvider_def)

end
