(* ===== verification/GoTime.thy ===== *)
theory GoTime
  imports CardState "HOL-Library.List_Lexorder"
begin

text \<open>
  What the sources use of Go's package \<open>time\<close> beyond arithmetic: \<open>ParseDuration\<close>, and the order of
  \<open>time.RFC3339Nano\<close> texts, which the SQL statements compare instead of instants.
\<close>

section \<open>Parsing a duration\<close>

definition isDigit :: "char \<Rightarrow> bool" where
  "isDigit c \<longleftrightarrow> CHR ''0'' \<le> c \<and> c \<le> CHR ''9''"

definition digitValue :: "char \<Rightarrow> int" where
  "digitValue c = int (of_char c) - 48"

definition maxMagnitude :: int where
  "maxMagnitude = 2 ^ 63"

text \<open>\<open>leadingInt\<close>: the value of the digits, or an overflow.\<close>

fun leadingInt :: "int \<Rightarrow> string \<Rightarrow> int option" where
  "leadingInt x [] = Some x"
| "leadingInt x (c # s) =
     (if x > maxMagnitude div 10 then None
      else let y = x * 10 + digitValue c in if y > maxMagnitude then None else leadingInt y s)"

text \<open>\<open>leadingFraction\<close>: the digits that fit, and the power of ten they are scaled by.\<close>

fun leadingFraction :: "int \<times> int \<Rightarrow> string \<Rightarrow> int \<times> int" where
  "leadingFraction (x, scale) [] = (x, scale)"
| "leadingFraction (x, scale) (c # s) =
     (if x > (maxMagnitude - 1) div 10 then (x, scale)
      else let y = x * 10 + digitValue c
           in if y > maxMagnitude then (x, scale) else leadingFraction (y, scale * 10) s)"

definition unitMap :: "(string \<times> int) list" where
  "unitMap = [(''ns'', 1), (''us'', 1000), ([CHR 0xC2, CHR 0xB5, CHR ''s''], 1000),
     ([CHR 0xCE, CHR 0xBC, CHR ''s''], 1000), (''ms'', 1000000), (''s'', Second), (''m'', Minute), (''h'', Hour)]"

text \<open>
  One number with its unit: the digits before and after the point, and the rest; then the contribution
  to the total.  The fraction is scaled exactly where Go computes in \<open>float64\<close>.
\<close>

definition splitNumber :: "string \<Rightarrow> string \<times> string \<times> string" where
  "splitNumber s =
     (let s' = dropWhile isDigit s in
      if s' \<noteq> [] \<and> hd s' = CHR ''.''
      then (takeWhile isDigit s, takeWhile isDigit (tl s'), dropWhile isDigit (tl s'))
      else (takeWhile isDigit s, [], s'))"

definition unitByte :: "char \<Rightarrow> bool" where
  "unitByte c \<longleftrightarrow> c \<noteq> CHR ''.'' \<and> \<not> isDigit c"

definition scaled :: "string \<Rightarrow> string \<Rightarrow> int \<Rightarrow> int option" where
  "scaled whole digits u =
     (if whole = [] \<and> digits = [] then None
      else case leadingInt 0 whole of
        None \<Rightarrow> None
      | Some v \<Rightarrow>
          if v > maxMagnitude div u then None
          else let (f, scale) = leadingFraction (0, 1) digits; total = v * u + f * u div scale
               in if total > maxMagnitude then None else Some total)"

definition durationPart :: "string \<Rightarrow> (int \<times> string) option" where
  "durationPart s =
     (case splitNumber s of (whole, digits, s') \<Rightarrow>
        case map_of unitMap (takeWhile unitByte s') of
          None \<Rightarrow> None
        | Some u \<Rightarrow> map_option (\<lambda>v. (v, dropWhile unitByte s')) (scaled whole digits u))"

lemma splitNumber_length: "splitNumber s = (whole, digits, s') \<Longrightarrow> length s' \<le> length s"
proof -
  assume a: "splitNumber s = (whole, digits, s')"
  define t where "t = dropWhile isDigit s"
  have "length t \<le> length s" unfolding t_def by (rule length_dropWhile_le)
  moreover have "s' = t \<or> s' = dropWhile isDigit (tl t)"
    using a by (auto simp: splitNumber_def Let_def t_def split: if_splits)
  moreover have "length (dropWhile isDigit (tl t)) \<le> length t"
    by (rule le_trans[OF length_dropWhile_le]) simp
  ultimately show ?thesis by auto
qed

lemma dropWhile_shorter: "takeWhile P xs \<noteq> [] \<Longrightarrow> length (dropWhile P xs) < length xs"
  by (cases xs) (auto simp: less_Suc_eq_le length_dropWhile_le split: if_splits)

lemma durationPart_shorter [termination_simp]:
  assumes "durationPart s = Some (v, rest)"
  shows "length rest < length s"
proof -
  obtain whole digits s' where split: "splitNumber s = (whole, digits, s')" by (cases "splitNumber s")
  have "map_of unitMap [] = None" by (simp add: unitMap_def)
  then have "takeWhile unitByte s' \<noteq> []" and "rest = dropWhile unitByte s'"
    using assms split by (auto simp: durationPart_def split: option.splits)
  then show ?thesis using dropWhile_shorter[of unitByte s'] splitNumber_length[OF split] by simp
qed

fun durationParts :: "int \<Rightarrow> string \<Rightarrow> int option" where
  "durationParts d s =
     (if s = [] then Some d
      else case durationPart s of
             None \<Rightarrow> None
           | Some (v, rest) \<Rightarrow> if d + v > maxMagnitude then None else durationParts (d + v) rest)"

declare durationParts.simps [simp del]

definition ParseDuration :: "string \<Rightarrow> int option" where
  "ParseDuration s =
     (let signed = s \<noteq> [] \<and> (hd s = CHR ''-'' \<or> hd s = CHR ''+'');
          neg = signed \<and> hd s = CHR ''-'';
          s = (if signed then tl s else s)
      in if s = ''0'' then Some 0
         else if s = [] then None
         else case durationParts 0 s of
                None \<Rightarrow> None
              | Some d \<Rightarrow> if neg then Some (- d) else if d > maxMagnitude - 1 then None else Some d)"

section \<open>Timestamps compared as text\<close>

text \<open>
  The statements compare \<open>time.RFC3339Nano\<close> texts.  The part of the text up to the seconds has a fixed
  width (years 0 to 9999), so it is ordered as the seconds are; the fraction loses its trailing zeros
  and its point when it is zero, and \<open>Z\<close> follows it.
\<close>

fun decimalDigits :: "nat \<Rightarrow> int \<Rightarrow> string" where
  "decimalDigits 0 n = []"
| "decimalDigits (Suc w) n = decimalDigits w (n div 10) @ [char_of (nat (48 + n mod 10))]"

definition trimZeros :: "string \<Rightarrow> string" where
  "trimZeros s = rev (dropWhile (\<lambda>c. c = CHR ''0'') (rev s))"

definition fractionText :: "instant \<Rightarrow> string" where
  "fractionText t =
     (let digits = trimZeros (decimalDigits 9 (t mod Second))
      in (if digits = [] then [] else CHR ''.'' # digits) @ ''Z'')"

definition textLe :: "instant \<Rightarrow> instant \<Rightarrow> bool" where
  "textLe a b \<longleftrightarrow> a div Second < b div Second \<or>
     a div Second = b div Second \<and> fractionText a \<le> fractionText b"


text \<open>The order of the texts is the order of the instants up to one second.\<close>

lemma textLe_early: "a + Second \<le> b \<Longrightarrow> textLe a b"
proof -
  assume "a + Second \<le> b"
  then have "(a + Second) div Second \<le> b div Second" by (intro zdiv_mono1) (auto simp: Second_def)
  then show ?thesis by (simp add: textLe_def Second_def)
qed

lemma textLe_late: "textLe a b \<Longrightarrow> a < b + Second"
proof -
  assume "textLe a b"
  then have "a div Second \<le> b div Second" by (auto simp: textLe_def)
  then have "a div Second * Second \<le> b div Second * Second" by (simp add: Second_def)
  moreover have "a < a div Second * Second + Second" "b div Second * Second \<le> b"
    by (simp_all add: Second_def minus_mod_eq_div_mult[symmetric])
  ultimately show ?thesis by linarith
qed

lemma textLe_refl [simp]: "textLe a a"
  by (simp add: textLe_def)

text \<open>Within a second the texts are ordered otherwise: half a second past is after 0.51 seconds past.\<close>

lemma textLe_within_second: "\<not> textLe (5 * 10 ^ 8) (51 * 10 ^ 7) \<and> \<not> textLe 0 (5 * 10 ^ 8)"
  by code_simp

lemma ParseDuration_examples:
  "ParseDuration ''5m'' = Some (5 * Minute)" "ParseDuration ''1h30m'' = Some (90 * Minute)"
  "ParseDuration ''1.5h'' = Some (90 * Minute)" "ParseDuration ''-3s'' = Some (- 3 * Second)"
  "ParseDuration ''5'' = None" "ParseDuration [] = None"
  by code_simp+

end
