(* ===== verification/Outbox.thy ===== *)
theory Outbox
  imports Connections Storage SecretRefs GoTime
begin

text \<open>
  The durable notification outbox: the tables \<open>notifications\<close>, \<open>notification_channel_state\<close> and
  \<open>events\<close> of package \<open>internal/storage\<close> (\<open>notifications.go\<close>, \<open>events.go\<close>) and the dispatcher of
  package \<open>internal/notify\<close> that drains them (\<open>dispatcher.go\<close>, \<open>notify.go\<close>).  A table with an
  autoincrement key is the list of its rows in the order of their ids.  The outcome of a delivery, the
  clock and a failing database are arguments.
\<close>

named_theorems outbox "definitions of the outbox operations"

section \<open>Encoded JSON\<close>

text \<open>
  The values the sources pass to \<open>json.Marshal\<close>, and the text it gives: object keys in the order of the
  list (the sources' maps are marshalled in the order of their keys), strings with the escapes of
  \<open>encoding/json\<close>, a nil slice as \<open>null\<close>.
\<close>

datatype json = JNull | JString string | JArray "json list" | JObject "(string \<times> json) list"

definition jsonHex :: "nat \<Rightarrow> char" where
  "jsonHex n = char_of (if n < 10 then 48 + n else 87 + n)"

definition escapeByte :: "char \<Rightarrow> string" where
  "escapeByte c =
     (if c = CHR 0x22 \<or> c = CHR 0x5C then [CHR 0x5C, c]
      else if c = CHR 0x0A then [CHR 0x5C, CHR ''n'']
      else if c = CHR 0x0D then [CHR 0x5C, CHR ''r'']
      else if c = CHR 0x09 then [CHR 0x5C, CHR ''t'']
      else if c = CHR 0x08 then [CHR 0x5C, CHR ''b'']
      else if c = CHR 0x0C then [CHR 0x5C, CHR ''f'']
      else if of_char c < (0x20 :: nat) \<or> c \<in> {CHR ''<'', CHR ''>'', CHR ''&''}
      then [CHR 0x5C] @ ''u00'' @ [jsonHex (of_char c div 16), jsonHex (of_char c mod 16)]
      else [c])"

definition quoteJSON :: "string \<Rightarrow> string" where
  "quoteJSON s = [CHR 0x22] @ concat (map escapeByte s) @ [CHR 0x22]"

fun encodeJSON :: "json \<Rightarrow> string" where
  "encodeJSON JNull = ''null''"
| "encodeJSON (JString s) = quoteJSON s"
| "encodeJSON (JArray xs) = ''['' @ Join '','' (map encodeJSON xs) @ '']''"
| "encodeJSON (JObject kvs) =
     ''{'' @ Join '','' (map (\<lambda>(k, v). quoteJSON k @ '':'' @ encodeJSON v) kvs) @ ''}''"

definition stringSlice :: "string list \<Rightarrow> json" where
  "stringSlice xs = (if xs = [] then JNull else JArray (map JString xs))"

section \<open>Tables\<close>

record StoredEvent =
  etTimestamp :: stamp
  etType :: string
  etSeverity :: string
  etSource :: string
  etCardID :: string
  etMessage :: string
  etData :: "json option"

record Message =
  msgRuleID :: string
  msgEvent :: string
  msgSeverity :: string
  msgTitle :: string
  msgBody :: string

text \<open>
  The payload column holds the JSON of a message; \<open>None\<close> stands for a text \<open>json.Unmarshal\<close> refuses.
\<close>

type_synonym payload = "Message option"

record Notification =
  ntID :: nat
  ntChannel :: string
  ntPayload :: payload
  ntAttempts :: int

record NotificationRequest =
  rqChannel :: string
  rqDedupeKey :: string
  rqPayload :: payload
  rqNow :: instant
  rqCooldown :: int
  rqPerHour :: int

datatype delivery = DPending | DSending | DSent | DAbandoned

record outboxRow =
  orID :: nat
  orCreatedAt :: instant
  orChannel :: string
  orDedupeKey :: "string option"
  orPayload :: payload
  orState :: delivery
  orAttempts :: int
  orNextAttemptAt :: "instant option"
  orLastError :: "string option"

text \<open>
  The row of \<open>notification_channel_state\<close>: \<open>suspended_until\<close>, where \<open>None\<close> is a text that does not
  parse, and \<open>suspension_reported_at\<close>.
\<close>

record alertTables =
  atRows :: "outboxRow list"
  atNextID :: nat
  atChannels :: "string \<rightharpoonup> stamp \<times> instant"
  atEvents :: "StoredEvent list"

definition emptyTables :: alertTables where
  "emptyTables = \<lparr>atRows = [], atNextID = 1, atChannels = Map.empty, atEvents = []\<rparr>"

datatype alertError =
    EventIncomplete
  | EventTooLarge
  | BadTimestamp
  | UniqueViolation
  | DatabaseFailed string
  | ChannelNotConfigured string

section \<open>Events\<close>

definition dataLen :: "json option \<Rightarrow> nat" where
  "dataLen d = (case d of None \<Rightarrow> 0 | Some v \<Rightarrow> length (encodeJSON v))"

text \<open>The data of an event is the output of \<open>json.Marshal\<close>, so \<open>json.Valid\<close> accepts it.\<close>

definition validateEvent :: "instant \<Rightarrow> StoredEvent \<Rightarrow> (alertError, StoredEvent) result" where
  "validateEvent now event =
     (if etType event = [] \<or> etSeverity event = [] then Inl EventIncomplete
      else if dataLen (etData event) > 64 * 1024 \<or> length (etMessage event) > 4096 then Inl EventTooLarge
      else Inr (if etTimestamp event = None then event\<lparr>etTimestamp := Some now\<rparr> else event))"

definition appendEventTx :: "instant \<Rightarrow> StoredEvent \<Rightarrow> alertTables \<Rightarrow> (alertError, alertTables) result" where
  "appendEventTx now event s =
     map_sum id (\<lambda>e. s\<lparr>atEvents := atEvents s @ [e]\<rparr>) (validateEvent now event)"

definition AppendEvent ::
  "string option \<Rightarrow> instant \<Rightarrow> StoredEvent \<Rightarrow> alertTables \<Rightarrow> (alertError, alertTables) result" where
  "AppendEvent db now event s =
     (case appendEventTx now event s of
        Inl err \<Rightarrow> Inl err
      | Inr s' \<Rightarrow> (case db of Some err \<Rightarrow> Inl (DatabaseFailed err) | None \<Rightarrow> Inr s'))"

definition defaultRecentEventsLimit :: int where
  "defaultRecentEventsLimit = 100"

definition maxRecentEventsLimit :: int where
  "maxRecentEventsLimit = 200"

definition RecentEvents :: "int \<Rightarrow> alertTables \<Rightarrow> StoredEvent list" where
  "RecentEvents limit s =
     (let limit = (if limit \<le> 0 \<or> limit > maxRecentEventsLimit then defaultRecentEventsLimit else limit)
      in take (nat limit) (rev (atEvents s)))"

section \<open>Enqueueing\<close>

definition outstanding :: "outboxRow \<Rightarrow> bool" where
  "outstanding r \<longleftrightarrow> orState r = DPending \<or> orState r = DSending"

definition nullString :: "string \<Rightarrow> string option" where
  "nullString v = (if v = [] then None else Some v)"

definition suspended :: "NotificationRequest \<Rightarrow> alertTables \<Rightarrow> (alertError, bool) result" where
  "suspended rq s =
     (case atChannels s (rqChannel rq) of
        None \<Rightarrow> Inr False
      | Some (None, _) \<Rightarrow> Inl BadTimestamp
      | Some (Some until, _) \<Rightarrow> Inr (rqNow rq < until))"

definition recentDuplicate :: "NotificationRequest \<Rightarrow> alertTables \<Rightarrow> bool" where
  "recentDuplicate rq s \<longleftrightarrow>
     rqCooldown rq > 0 \<and> rqDedupeKey rq \<noteq> [] \<and>
     list_ex (\<lambda>r. orDedupeKey r = Some (rqDedupeKey rq) \<and>
                  (outstanding r \<or> textLe (rqNow rq - rqCooldown rq) (orCreatedAt r))) (atRows s)"

definition hourly :: "string \<Rightarrow> instant \<Rightarrow> outboxRow list \<Rightarrow> nat" where
  "hourly channel now rows =
     length (filter (\<lambda>r. orChannel r = channel \<and> textLe (now - Hour) (orCreatedAt r)) rows)"

definition perHourOr :: "int \<Rightarrow> int" where
  "perHourOr n = (if n \<le> 0 then 20 else n)"

definition suspendedEvent :: "string \<Rightarrow> instant \<Rightarrow> StoredEvent" where
  "suspendedEvent channel now = \<lparr>etTimestamp = Some now, etType = ''notification.suspended'',
     etSeverity = ''warning'', etSource = ''notifications'', etCardID = [],
     etMessage = ''Notification channel suspended after reaching its hourly ceiling'',
     etData = Some (JObject [(''channel'', JString channel)])\<rparr>"

text \<open>\<open>INSERT OR IGNORE\<close> under the partial unique index on the keys of outstanding rows.\<close>

definition keyTaken :: "string option \<Rightarrow> outboxRow list \<Rightarrow> bool" where
  "keyTaken key rows \<longleftrightarrow> key \<noteq> None \<and> list_ex (\<lambda>r. orDedupeKey r = key \<and> outstanding r) rows"

definition newRow :: "nat \<Rightarrow> NotificationRequest \<Rightarrow> outboxRow" where
  "newRow ident rq = \<lparr>orID = ident, orCreatedAt = rqNow rq, orChannel = rqChannel rq,
     orDedupeKey = nullString (rqDedupeKey rq), orPayload = rqPayload rq, orState = DPending,
     orAttempts = 0, orNextAttemptAt = Some (rqNow rq), orLastError = None\<rparr>"

definition enqueueNotificationTx ::
  "NotificationRequest \<Rightarrow> alertTables \<Rightarrow> (alertError, (bool \<times> bool) \<times> alertTables) result" where
  "enqueueNotificationTx rq s =
     (case suspended rq s of
        Inl err \<Rightarrow> Inl err
      | Inr True \<Rightarrow> Inr ((False, False), s)
      | Inr False \<Rightarrow>
          if recentDuplicate rq s then Inr ((False, False), s)
          else if int (hourly (rqChannel rq) (rqNow rq) (atRows s)) \<ge> perHourOr (rqPerHour rq)
          then Inr ((False, True),
                 s\<lparr>atChannels := (atChannels s)(rqChannel rq \<mapsto> (Some (rqNow rq + Hour), rqNow rq)),
                   atEvents := atEvents s @ [suspendedEvent (rqChannel rq) (rqNow rq)]\<rparr>)
          else if keyTaken (nullString (rqDedupeKey rq)) (atRows s) then Inr ((False, False), s)
          else Inr ((True, False),
                 s\<lparr>atRows := atRows s @ [newRow (atNextID s) rq], atNextID := atNextID s + 1\<rparr>))"

definition EnqueueNotification ::
  "string option \<Rightarrow> NotificationRequest \<Rightarrow> alertTables \<Rightarrow> (alertError, bool \<times> bool) result \<times> alertTables" where
  "EnqueueNotification db rq s =
     (case enqueueNotificationTx rq s of
        Inl err \<Rightarrow> (Inl err, s)
      | Inr (res, s') \<Rightarrow>
          (case db of Some err \<Rightarrow> (Inl (DatabaseFailed err), s) | None \<Rightarrow> (Inr res, s')))"

section \<open>Claiming and settling\<close>

definition ResetSendingNotifications :: "alertTables \<Rightarrow> alertTables" where
  "ResetSendingNotifications s =
     s\<lparr>atRows := map (\<lambda>r. if orState r = DSending then r\<lparr>orState := DPending\<rparr> else r) (atRows s)\<rparr>"

definition due :: "instant \<Rightarrow> outboxRow \<Rightarrow> bool" where
  "due now r \<longleftrightarrow> orState r = DPending \<and>
     (case orNextAttemptAt r of None \<Rightarrow> True | Some t \<Rightarrow> textLe t now)"

definition updateRow :: "nat \<Rightarrow> (outboxRow \<Rightarrow> outboxRow) \<Rightarrow> alertTables \<Rightarrow> alertTables" where
  "updateRow ident f s = s\<lparr>atRows := map (\<lambda>r. if orID r = ident then f r else r) (atRows s)\<rparr>"

definition ClaimNotification ::
  "string option \<Rightarrow> instant \<Rightarrow> alertTables \<Rightarrow> (alertError, Notification option) result \<times> alertTables" where
  "ClaimNotification db now s =
     (case db of
        Some err \<Rightarrow> (Inl (DatabaseFailed err), s)
      | None \<Rightarrow>
          (case find (due now) (atRows s) of
             None \<Rightarrow> (Inr None, s)
           | Some r \<Rightarrow>
               (Inr (Some \<lparr>ntID = orID r, ntChannel = orChannel r, ntPayload = orPayload r,
                           ntAttempts = orAttempts r + 1\<rparr>),
                updateRow (orID r) (\<lambda>r'. r'\<lparr>orState := DSending, orAttempts := orAttempts r + 1\<rparr>) s)))"

definition CompleteNotification ::
  "string option \<Rightarrow> nat \<Rightarrow> alertTables \<Rightarrow> alertError option \<times> alertTables" where
  "CompleteNotification db ident s =
     (case db of
        Some err \<Rightarrow> (Some (DatabaseFailed err), s)
      | None \<Rightarrow> (None, updateRow ident
          (\<lambda>r. r\<lparr>orState := DSent, orNextAttemptAt := None, orLastError := None\<rparr>) s))"

text \<open>
  Making a settled row pending again violates the unique index when its key is outstanding in another
  row; the statement then fails.
\<close>

definition FailNotification ::
  "string option \<Rightarrow> nat \<Rightarrow> instant \<Rightarrow> string \<Rightarrow> bool \<Rightarrow> alertTables \<Rightarrow> alertError option \<times> alertTables" where
  "FailNotification db ident retryAt message abandon s =
     (case db of
        Some err \<Rightarrow> (Some (DatabaseFailed err), s)
      | None \<Rightarrow>
          if \<not> abandon \<and> list_ex (\<lambda>r. orID r = ident \<and>
               keyTaken (orDedupeKey r) (filter (\<lambda>r'. orID r' \<noteq> ident) (atRows s))) (atRows s)
          then (Some UniqueViolation, s)
          else (None, updateRow ident
            (\<lambda>r. if abandon
                 then r\<lparr>orState := DAbandoned, orNextAttemptAt := None, orLastError := Some message\<rparr>
                 else r\<lparr>orState := DPending, orNextAttemptAt := Some retryAt, orLastError := Some message\<rparr>) s))"


section \<open>Channels\<close>

record NotifyRateLimit =
  nrPerHour :: int
  nrCooldown :: string

text \<open>\<open>config.Channel\<close>: the type and the two pointers.\<close>

record configChannel =
  ccType :: string
  ccNtfy :: "(string \<times> string \<times> SecretRef \<times> int \<times> NotifyRateLimit) option"
  ccWebhook :: "(SecretRef \<times> string \<times> (string \<times> SecretRef) list \<times> NotifyRateLimit) option"

datatype Notifier =
    Webhook string string "(string \<times> string) list"
  | Ntfy string string int

record Channel =
  chNotifier :: Notifier
  chPerHour :: int
  chCooldown :: int

datatype channelError =
    NoWebhookConfig string
  | NoNtfyConfig string
  | UnresolvedURL string
  | UnresolvedHeader string string
  | UnresolvedToken string
  | UnsupportedType string

definition ratePerHour :: "int \<Rightarrow> int" where
  "ratePerHour v = (if v \<le> 0 then 20 else v)"

definition rateCooldown :: "string \<Rightarrow> int" where
  "rateCooldown v =
     (if v = [] then 5 * Minute
      else case ParseDuration v of None \<Rightarrow> 5 * Minute | Some d \<Rightarrow> d)"

definition TrimRightSlash :: "string \<Rightarrow> string" where
  "TrimRightSlash s = rev (dropWhile (\<lambda>c. c = CHR ''/'') (rev s))"

text \<open>\<open>url.PathEscape\<close>.\<close>

definition segmentByte :: "char \<Rightarrow> bool" where
  "segmentByte c \<longleftrightarrow> CHR ''A'' \<le> c \<and> c \<le> CHR ''Z'' \<or> CHR ''a'' \<le> c \<and> c \<le> CHR ''z'' \<or>
     CHR ''0'' \<le> c \<and> c \<le> CHR ''9'' \<or> c \<in> set ''-_.~$&+=:@''"

definition upperHex :: "nat \<Rightarrow> char" where
  "upperHex n = char_of (if n < 10 then 48 + n else 55 + n)"

definition PathEscape :: "string \<Rightarrow> string" where
  "PathEscape s = concat (map (\<lambda>c. if segmentByte c then [c]
     else [CHR ''%'', upperHex (of_char c div 16), upperHex (of_char c mod 16)]) s)"

definition buildChannel ::
  "(string \<rightharpoonup> string) \<Rightarrow> string \<Rightarrow> configChannel \<Rightarrow> (channelError, Channel) result" where
  "buildChannel resolved ident v =
     (if ccType v = ''webhook'' then
        (case ccWebhook v of
           None \<Rightarrow> Inl (NoWebhookConfig ident)
         | Some (url, meth, headers, rate) \<Rightarrow>
             (case notifyResolveRef url resolved of
                Inl _ \<Rightarrow> Inl (UnresolvedURL ident)
              | Inr endpoint \<Rightarrow>
                  (case map_result (\<lambda>(name, ref). case notifyResolveRef ref resolved of
                            Inl _ \<Rightarrow> Inl (UnresolvedHeader ident name)
                          | Inr h \<Rightarrow> Inr (name, h)) headers of
                     Inl err \<Rightarrow> Inl err
                   | Inr hs \<Rightarrow>
                       Inr \<lparr>chNotifier = Webhook endpoint (if meth = [] then ''POST'' else meth) hs,
                            chPerHour = ratePerHour (nrPerHour rate), chCooldown = rateCooldown (nrCooldown rate)\<rparr>)))
      else if ccType v = ''ntfy'' then
        (case ccNtfy v of
           None \<Rightarrow> Inl (NoNtfyConfig ident)
         | Some (url, topic, tokenRef, priority, rate) \<Rightarrow>
             (case notifyResolveRef tokenRef resolved of
                Inl _ \<Rightarrow> Inl (UnresolvedToken ident)
              | Inr token \<Rightarrow>
                  Inr \<lparr>chNotifier = Ntfy (TrimRightSlash url @ ''/'' @ PathEscape topic) token priority,
                       chPerHour = ratePerHour (nrPerHour rate), chCooldown = rateCooldown (nrCooldown rate)\<rparr>))
      else Inl (UnsupportedType ident))"

definition BuildChannels ::
  "(string \<times> configChannel) list \<Rightarrow> (string \<rightharpoonup> string) \<Rightarrow>
   (channelError, (string \<times> Channel) list) result" where
  "BuildChannels vs resolved =
     map_result (\<lambda>(ident, v). map_sum id (Pair ident) (buildChannel resolved ident v)) vs"

section \<open>Sending\<close>

record notifyRequest =
  nqMethod :: string
  nqEndpoint :: string
  nqHeader :: header
  nqBody :: string

definition messageJSON :: "Message \<Rightarrow> json" where
  "messageJSON msg = JObject [(''ruleId'', JString (msgRuleID msg)), (''event'', JString (msgEvent msg)),
     (''severity'', JString (msgSeverity msg)), (''title'', JString (msgTitle msg)), (''body'', JString (msgBody msg))]"

fun notifierRequest :: "Notifier \<Rightarrow> Message \<Rightarrow> notifyRequest" where
  "notifierRequest (Webhook endpoint meth headers) msg =
     \<lparr>nqMethod = meth, nqEndpoint = endpoint,
      nqHeader = foldl (\<lambda>h (name, v). headerSet h name v) (headerSet [] ''Content-Type'' ''application/json'') headers,
      nqBody = encodeJSON (messageJSON msg)\<rparr>"
| "notifierRequest (Ntfy endpoint token priority) msg =
     (let h = headerSet (headerSet [] ''Title'' (msgTitle msg)) ''Tags'' (msgSeverity msg);
          h = (if priority > 0 then headerSet h ''Priority'' (FormatUint (nat priority)) else h);
          h = (if token \<noteq> [] then headerSet h ''Authorization'' (''Bearer '' @ token) else h)
      in \<lparr>nqMethod = ''POST'', nqEndpoint = endpoint, nqHeader = h, nqBody = msgBody msg\<rparr>)"

text \<open>The network: the status of the answer, or no answer.\<close>

datatype sendError = PermanentError int | TransientError string

definition send :: "int option \<Rightarrow> sendError option" where
  "send status =
     (case status of
        None \<Rightarrow> Some (TransientError ''notify: request failed'')
      | Some code \<Rightarrow>
          if code \<ge> 200 \<and> code < 300 then None
          else if code \<ge> 400 \<and> code < 500 \<and> code \<noteq> 408 \<and> code \<noteq> 429 then Some (PermanentError code)
          else Some (TransientError (''notify: transient HTTP '' @ FormatUint (nat code))))"

fun isPermanent :: "sendError \<Rightarrow> bool" where
  "isPermanent (PermanentError code) = True"
| "isPermanent (TransientError text) = False"

fun sendErrorText :: "sendError \<Rightarrow> string" where
  "sendErrorText (PermanentError code) = ''notification rejected with HTTP '' @ FormatUint (nat code)"
| "sendErrorText (TransientError text) = text"

text \<open>\<open>Send\<close> of the two transports; the argument answers a request, or \<open>None\<close> if it cannot be built.\<close>

definition deliver :: "(notifyRequest \<Rightarrow> int option option) \<Rightarrow> Notifier \<Rightarrow> Message \<Rightarrow> sendError option" where
  "deliver network notifier msg =
     (case network (notifierRequest notifier msg) of
        None \<Rightarrow> Some (TransientError (case notifier of
            Webhook _ _ _ \<Rightarrow> ''notify: build webhook request'' | Ntfy _ _ _ \<Rightarrow> ''notify: build ntfy request''))
      | Some status \<Rightarrow> send status)"

section \<open>The dispatcher\<close>

record DispatcherConfig =
  dcMaxAttempts :: int
  dcRetryBase :: int
  dcPollEvery :: int

record Dispatcher =
  diConfig :: DispatcherConfig
  diChannels :: "string \<rightharpoonup> Channel"

definition NewDispatcher :: "(string \<rightharpoonup> Channel) \<Rightarrow> DispatcherConfig \<Rightarrow> Dispatcher" where
  "NewDispatcher channels cfg =
     \<lparr>diConfig = \<lparr>dcMaxAttempts = (if dcMaxAttempts cfg \<le> 0 then 5 else dcMaxAttempts cfg),
                  dcRetryBase = (if dcRetryBase cfg \<le> 0 then Second else dcRetryBase cfg),
                  dcPollEvery = (if dcPollEvery cfg \<le> 0 then Second else dcPollEvery cfg)\<rparr>,
      diChannels = channels\<rparr>"

definition ApplyChannels :: "(string \<rightharpoonup> Channel) \<Rightarrow> Dispatcher \<Rightarrow> Dispatcher" where
  "ApplyChannels channels d = d\<lparr>diChannels := channels\<rparr>"

definition dedupeKey :: "string \<Rightarrow> string \<Rightarrow> string \<Rightarrow> string" where
  "dedupeKey channel ruleID event = channel @ '':'' @ ruleID @ '':'' @ event"

text \<open>One database outcome and one reading of the clock for each channel; the flag says whether to wake.\<close>

fun Enqueue ::
  "Dispatcher \<Rightarrow> Message \<Rightarrow> (string \<times> string option \<times> instant) list \<Rightarrow> alertTables \<Rightarrow>
   (alertError, bool) result \<times> alertTables" where
  "Enqueue d msg [] s = (Inr False, s)"
| "Enqueue d msg ((ident, db, now) # rest) s =
     (case diChannels d ident of
        None \<Rightarrow> (Inl (ChannelNotConfigured ident), s)
      | Some channel \<Rightarrow>
          (case EnqueueNotification db \<lparr>rqChannel = ident, rqDedupeKey = dedupeKey ident (msgRuleID msg) (msgEvent msg),
                  rqPayload = Some msg, rqNow = now, rqCooldown = chCooldown channel, rqPerHour = chPerHour channel\<rparr> s of
             (Inl err, s') \<Rightarrow> (Inl err, s')
           | (Inr (enqueued, _), s') \<Rightarrow>
               (case Enqueue d msg rest s' of
                  (Inl err, s'') \<Rightarrow> (Inl err, s'')
                | (Inr wake, s'') \<Rightarrow> (Inr (enqueued \<or> wake), s''))))"

definition alertMessage :: "string \<Rightarrow> string \<Rightarrow> string \<Rightarrow> Message" where
  "alertMessage ruleID event severity = \<lparr>msgRuleID = ruleID, msgEvent = event, msgSeverity = severity,
     msgTitle = ''Veduta rule '' @ event, msgBody = ''Rule '' @ ruleID @ '' '' @ event\<rparr>"

definition PrepareRuleAlert ::
  "Dispatcher \<Rightarrow> string \<Rightarrow> string \<Rightarrow> string \<Rightarrow> string list \<Rightarrow> instant \<Rightarrow> (alertError, NotificationRequest list) result" where
  "PrepareRuleAlert d ruleID event severity channelIDs now =
     map_result (\<lambda>ident. case diChannels d ident of
         None \<Rightarrow> Inl (ChannelNotConfigured ident)
       | Some channel \<Rightarrow>
           Inr \<lparr>rqChannel = ident, rqDedupeKey = dedupeKey ident ruleID event,
                rqPayload = Some (alertMessage ruleID event severity), rqNow = now,
                rqCooldown = chCooldown channel, rqPerHour = chPerHour channel\<rparr>) channelIDs"

text \<open>The loop that doubles the delay; the argument counts \<open>item.Attempts - attempt\<close>.\<close>

fun retryLoop :: "nat \<Rightarrow> int \<Rightarrow> int" where
  "retryLoop 0 delay = delay"
| "retryLoop (Suc k) delay = (if delay < Hour then retryLoop k (delay * 2) else delay)"

definition retryDelay :: "DispatcherConfig \<Rightarrow> int \<Rightarrow> int" where
  "retryDelay cfg attempts =
     (let delay = retryLoop (nat (attempts - 1)) (dcRetryBase cfg) in if delay > Hour then Hour else delay)"

text \<open>
  What one call meets: the clock at the claim and after the delivery, the outcome of the two
  statements, and the answer of the network to a request.
\<close>

record dispatchEnv =
  deNow :: instant
  deAfter :: instant
  deClaim :: "string option"
  deSettle :: "string option"
  deNetwork :: "notifyRequest \<Rightarrow> int option option"

definition settle ::
  "Registry \<Rightarrow> dispatchEnv \<Rightarrow> Dispatcher \<Rightarrow> Notification \<Rightarrow> alertTables \<Rightarrow> alertError option \<times> alertTables" where
  "settle reg e d item s =
     (case ntPayload item of
        None \<Rightarrow> FailNotification (deSettle e) (ntID item) zeroTime ''invalid outbox payload'' True s
      | Some msg \<Rightarrow>
          (case diChannels d (ntChannel item) of
             None \<Rightarrow> FailNotification (deSettle e) (ntID item) zeroTime ''channel is not configured'' True s
           | Some channel \<Rightarrow>
               (case deliver (deNetwork e) (chNotifier channel) msg of
                  None \<Rightarrow> CompleteNotification (deSettle e) (ntID item) s
                | Some err \<Rightarrow>
                    FailNotification (deSettle e) (ntID item)
                      (deAfter e + retryDelay (diConfig d) (ntAttempts item))
                      (Scrub reg (sendErrorText err))
                      (ntAttempts item \<ge> dcMaxAttempts (diConfig d) \<or> isPermanent err) s)))"

definition RunOnce ::
  "Registry \<Rightarrow> dispatchEnv \<Rightarrow> Dispatcher \<Rightarrow> alertTables \<Rightarrow> (alertError, bool) result \<times> alertTables" where
  "RunOnce reg e d s =
     (case ClaimNotification (deClaim e) (deNow e) s of
        (Inl err, s') \<Rightarrow> (Inl err, s')
      | (Inr None, s') \<Rightarrow> (Inr False, s')
      | (Inr (Some item), s') \<Rightarrow>
          (case settle reg e d item s' of
             (Some err, s'') \<Rightarrow> (Inl err, s'')
           | (None, s'') \<Rightarrow> (Inr True, s'')))"

text \<open>
  What happens to the outbox while the process runs: an enqueued request, a step of the dispatcher with
  the channels then configured, and the start of a new process.
\<close>

datatype outboxOp =
    OpEnqueue "string option" NotificationRequest
  | OpDispatch dispatchEnv "string \<rightharpoonup> Channel"
  | OpRestart

fun runOp :: "Registry \<Rightarrow> DispatcherConfig \<Rightarrow> outboxOp \<Rightarrow> alertTables \<Rightarrow> alertTables" where
  "runOp reg cfg (OpEnqueue db rq) s = snd (EnqueueNotification db rq s)"
| "runOp reg cfg (OpDispatch e channels) s = snd (RunOnce reg e \<lparr>diConfig = cfg, diChannels = channels\<rparr> s)"
| "runOp reg cfg OpRestart s = ResetSendingNotifications s"

text \<open>
  The inner loop of \<open>Run\<close>: it drains the outbox until nothing is due or a statement fails.  The list gives what
  each iteration meets and what is enqueued between them; the result says how many deliveries were made.
\<close>

fun drain :: "Registry \<Rightarrow> DispatcherConfig \<Rightarrow> outboxOp list \<Rightarrow> alertTables \<Rightarrow> nat \<times> alertTables" where
  "drain reg cfg [] s = (0, s)"
| "drain reg cfg (OpEnqueue db rq # ops) s = drain reg cfg ops (snd (EnqueueNotification db rq s))"
| "drain reg cfg (OpDispatch e channels # ops) s =
     (case RunOnce reg e \<lparr>diConfig = cfg, diChannels = channels\<rparr> s of
        (Inr True, s') \<Rightarrow> (case drain reg cfg ops s' of (n, s'') \<Rightarrow> (Suc n, s''))
      | (_, s') \<Rightarrow> (0, s'))"
| "drain reg cfg (OpRestart # ops) s = (0, s)"

definition runOps :: "Registry \<Rightarrow> DispatcherConfig \<Rightarrow> outboxOp list \<Rightarrow> alertTables \<Rightarrow> alertTables" where
  "runOps reg cfg ops s = foldl (\<lambda>s op. runOp reg cfg op s) s ops"


section \<open>Rows are only appended and updated in place\<close>

definition sameRow :: "outboxRow \<Rightarrow> outboxRow \<Rightarrow> bool" where
  "sameRow r r' \<longleftrightarrow> orID r' = orID r \<and> orDedupeKey r' = orDedupeKey r \<and> orChannel r' = orChannel r \<and>
     orCreatedAt r' = orCreatedAt r"

definition evolves :: "outboxRow list \<Rightarrow> outboxRow list \<Rightarrow> bool" where
  "evolves = list_all2 (\<lambda>r r'. sameRow r r' \<and> (outstanding r' \<longrightarrow> outstanding r))"

text \<open>
  An operation either updates rows in place, never making a settled row outstanding, or appends the row
  of a request that passed the checks.
\<close>

definition passes :: "NotificationRequest \<Rightarrow> alertTables \<Rightarrow> bool" where
  "passes rq s \<longleftrightarrow> \<not> recentDuplicate rq s \<and>
     int (hourly (rqChannel rq) (rqNow rq) (atRows s)) < perHourOr (rqPerHour rq) \<and>
     \<not> keyTaken (nullString (rqDedupeKey rq)) (atRows s)"

definition unchanged :: "alertTables \<Rightarrow> alertTables \<Rightarrow> bool" where
  "unchanged s s' \<longleftrightarrow> atRows s' = atRows s \<and> atNextID s' = atNextID s"

definition appended :: "NotificationRequest \<Rightarrow> alertTables \<Rightarrow> alertTables \<Rightarrow> bool" where
  "appended rq s s' \<longleftrightarrow> passes rq s \<and> atRows s' = atRows s @ [newRow (atNextID s) rq] \<and> atNextID s' = atNextID s + 1"

lemma enqueue_cases:
  assumes "enqueueNotificationTx rq s = Inr (res, s')"
  shows "unchanged s s' \<and> \<not> fst res \<or> appended rq s s' \<and> fst res"
proof (cases "suspended rq s")
  case (Inr b)
  then show ?thesis using assms
    by (cases b) (auto simp: enqueueNotificationTx_def passes_def unchanged_def appended_def split: if_splits)
qed (use assms in \<open>simp add: enqueueNotificationTx_def\<close>)

lemma EnqueueNotification_cases:
  "unchanged s (snd (EnqueueNotification db rq s)) \<or> appended rq s (snd (EnqueueNotification db rq s))"
proof (cases "enqueueNotificationTx rq s")
  case (Inl e)
  then show ?thesis by (simp add: EnqueueNotification_def unchanged_def)
next
  case (Inr p)
  then obtain res s' where p: "enqueueNotificationTx rq s = Inr (res, s')" by (cases p) auto
  then show ?thesis using enqueue_cases[OF p] by (cases db) (auto simp: EnqueueNotification_def unchanged_def)
qed

lemma evolves_refl [simp]: "evolves rows rows"
  by (simp add: evolves_def sameRow_def list_all2_refl)

lemma evolves_trans: "evolves a b \<Longrightarrow> evolves b c \<Longrightarrow> evolves a c"
  unfolding evolves_def by (rule list_all2_trans) (auto simp: sameRow_def)

lemma evolves_map:
  "(\<And>r. r \<in> set rows \<Longrightarrow> sameRow r (f r) \<and> (outstanding (f r) \<longrightarrow> outstanding r)) \<Longrightarrow> evolves rows (map f rows)"
  by (simp add: evolves_def list_all2_conv_all_nth)

lemma updateRow_rows: "atRows (updateRow ident f s) = map (\<lambda>r. if orID r = ident then f r else r) (atRows s)"
  by (simp add: updateRow_def)

lemma updateRow_nextID [simp]: "atNextID (updateRow ident f s) = atNextID s"
  by (simp add: updateRow_def)

lemma updateRow_evolves:
  assumes "\<And>r. r \<in> set (atRows s) \<Longrightarrow> orID r = ident \<Longrightarrow> outstanding r" and "\<And>r. sameRow r (f r)"
  shows "evolves (atRows s) (atRows (updateRow ident f s))"
  unfolding updateRow_rows using assms by (intro evolves_map) (auto simp: sameRow_def)

definition distinctIDs :: "alertTables \<Rightarrow> bool" where
  "distinctIDs s \<longleftrightarrow> distinct (map orID (atRows s)) \<and> (\<forall>ident\<in>set (map orID (atRows s)). ident < atNextID s)"

lemma distinctIDs_row:
  "distinctIDs s \<Longrightarrow> r \<in> set (atRows s) \<Longrightarrow> r' \<in> set (atRows s) \<Longrightarrow> orID r = orID r' \<Longrightarrow> r = r'"
  by (auto simp: distinctIDs_def distinct_map inj_on_def)

text \<open>A claim: the row was due, and it is the only one that changes.\<close>

lemma ClaimNotification_Some:
  assumes "ClaimNotification db now s = (Inr (Some item), s')"
  obtains r where "r \<in> set (atRows s)" "due now r" "item = \<lparr>ntID = orID r, ntChannel = orChannel r,
      ntPayload = orPayload r, ntAttempts = orAttempts r + 1\<rparr>"
    "s' = updateRow (orID r) (\<lambda>r'. r'\<lparr>orState := DSending, orAttempts := orAttempts r + 1\<rparr>) s"
proof -
  obtain r where r: "find (due now) (atRows s) = Some r"
    using assms by (auto simp: ClaimNotification_def split: option.splits)
  then have "r \<in> set (atRows s)" "due now r" by (auto simp: find_Some_iff)
  then show thesis using that assms r by (simp add: ClaimNotification_def split: option.splits)
qed

lemma ClaimNotification_idle: "ClaimNotification db now s = (res, s') \<Longrightarrow> (\<And>item. res \<noteq> Inr (Some item)) \<Longrightarrow> s' = s"
  by (auto simp: ClaimNotification_def split: option.splits)

text \<open>Settling: the claimed row becomes sent, abandoned or pending again; a failed statement keeps it.\<close>

definition settled :: "Dispatcher \<Rightarrow> Notification \<Rightarrow> outboxRow \<Rightarrow> outboxRow \<Rightarrow> bool" where
  "settled d item r r' \<longleftrightarrow> sameRow r r' \<and> orAttempts r' = orAttempts r \<and>
     (orState r' = DSent \<or> orState r' = DAbandoned \<or> orState r' = DPending \<and> ntAttempts item < dcMaxAttempts (diConfig d))"

lemma settle_cases:
  assumes "settle reg e d item s = (res, s')"
  shows "res \<noteq> None \<and> s' = s \<or>
         (\<exists>f. res = None \<and> s' = updateRow (ntID item) f s \<and> (\<forall>r. settled d item r (f r)))"
proof -
  have upd: "\<exists>f. updateRow (ntID item) g s = updateRow (ntID item) f s \<and> (\<forall>r. settled d item r (f r))"
    if "\<And>r. settled d item r (g r)" for g using that by blast
  show ?thesis using assms
    by (auto simp: settle_def FailNotification_def CompleteNotification_def settled_def sameRow_def
        split: option.splits if_splits intro!: upd)
qed


lemma RunOnce_cases:
  assumes "RunOnce reg e d s = (res, s')"
  obtains (idle) "s' = s" "res \<noteq> Inr True"
  | (stuck) item where "ClaimNotification (deClaim e) (deNow e) s = (Inr (Some item), s')" "res \<noteq> Inr True"
  | (delivered) item s1 f where "ClaimNotification (deClaim e) (deNow e) s = (Inr (Some item), s1)"
      "s' = updateRow (ntID item) f s1" "\<And>r. settled d item r (f r)" "res = Inr True"
proof -
  obtain claim s1 where c: "ClaimNotification (deClaim e) (deNow e) s = (claim, s1)" by (cases "ClaimNotification (deClaim e) (deNow e) s")
  show thesis
  proof (cases "\<exists>item. claim = Inr (Some item)")
    case False
    then have "s1 = s" using ClaimNotification_idle[OF c] by blast
    then show thesis using idle assms c False by (auto simp: RunOnce_def split: sum.splits option.splits)
  next
    case True
    then obtain item where item: "claim = Inr (Some item)" by blast
    obtain out s2 where st: "settle reg e d item s1 = (out, s2)" by (cases "settle reg e d item s1")
    then have res: "s' = s2" "res = (case out of None \<Rightarrow> Inr True | Some err \<Rightarrow> Inl err)"
      using assms c item by (auto simp: RunOnce_def split: option.splits)
    from settle_cases[OF st] consider "out \<noteq> None" "s2 = s1"
      | f where "out = None" "s2 = updateRow (ntID item) f s1" "\<And>r. settled d item r (f r)" by blast
    then show thesis
    proof cases
      case 1
      then show thesis using stuck[of item] c item res by auto
    next
      case (2 f)
      then show thesis using delivered[of item s1 f] c item res by simp
    qed
  qed
qed

lemma claim_evolves:
  assumes "ClaimNotification db now s = (Inr (Some item), s')" and "distinctIDs s"
  shows "evolves (atRows s) (atRows s')" and "\<And>r. r \<in> set (atRows s') \<Longrightarrow> orID r = ntID item \<Longrightarrow> outstanding r"
    and "atNextID s' = atNextID s"
proof -
  obtain r where r: "r \<in> set (atRows s)" "due now r" "ntID item = orID r"
    "s' = updateRow (orID r) (\<lambda>r'. r'\<lparr>orState := DSending, orAttempts := orAttempts r + 1\<rparr>) s"
    using ClaimNotification_Some[OF assms(1)] by (metis Notification.select_convs(1))
  have "outstanding r' " if "r' \<in> set (atRows s)" "orID r' = orID r" for r'
    using distinctIDs_row[OF assms(2) that(1) r(1) that(2)] r(2) by (simp add: due_def outstanding_def)
  then show "evolves (atRows s) (atRows s')" using updateRow_evolves r(4) by (simp add: sameRow_def)
  show "\<And>r. r \<in> set (atRows s') \<Longrightarrow> orID r = ntID item \<Longrightarrow> outstanding r"
    using r(3,4) by (auto simp: updateRow_rows outstanding_def split: if_splits)
  show "atNextID s' = atNextID s" using r(4) by simp
qed

lemma RunOnce_evolves:
  assumes "RunOnce reg e d s = (res, s')" and "distinctIDs s"
  shows "evolves (atRows s) (atRows s') \<and> atNextID s' = atNextID s"
  using assms(1)
proof (cases rule: RunOnce_cases)
  case (stuck item)
  then show ?thesis using claim_evolves assms(2) by blast
next
  case (delivered item s1 f)
  have "evolves (atRows s1) (atRows s')"
    unfolding delivered(2) using claim_evolves(2)[OF delivered(1) assms(2)] delivered(3)
    by (intro updateRow_evolves) (auto simp: settled_def)
  then have "evolves (atRows s) (atRows s')"
    by (rule evolves_trans[OF claim_evolves(1)[OF delivered(1) assms(2)]])
  then show ?thesis using claim_evolves(3)[OF delivered(1) assms(2)] delivered(2) by simp
qed simp

lemma Reset_evolves: "evolves (atRows s) (atRows (ResetSendingNotifications s))"
  by (auto simp: ResetSendingNotifications_def sameRow_def outstanding_def intro!: evolves_map)

lemma Reset_nextID [simp]: "atNextID (ResetSendingNotifications s) = atNextID s"
  by (simp add: ResetSendingNotifications_def)

text \<open>The two kinds of step of the outbox, and what they keep.\<close>

lemma runOp_cases:
  assumes "distinctIDs s"
  obtains (evolved) "evolves (atRows s) (atRows (runOp reg cfg op s))" "atNextID (runOp reg cfg op s) = atNextID s"
  | (added) db rq where "op = OpEnqueue db rq" "appended rq s (runOp reg cfg op s)"
proof (cases op)
  case (OpEnqueue db rq)
  then show thesis using EnqueueNotification_cases[of s db rq] evolved added by (auto simp: unchanged_def)
next
  case (OpDispatch e channels)
  obtain res s' where "RunOnce reg e \<lparr>diConfig = cfg, diChannels = channels\<rparr> s = (res, s')"
    by (cases "RunOnce reg e \<lparr>diConfig = cfg, diChannels = channels\<rparr> s")
  then show thesis using RunOnce_evolves[OF _ assms] evolved OpDispatch by simp
next
  case OpRestart
  then show thesis using Reset_evolves evolved by simp
qed

lemma evolves_ids: "evolves a b \<Longrightarrow> map orID b = map orID a"
  unfolding evolves_def by (induction rule: list_all2_induct) (auto simp: sameRow_def)

lemma evolves_filter:
  assumes "evolves a b" and "\<And>r r'. sameRow r r' \<Longrightarrow> P r' = P r"
  shows "length (filter P b) = length (filter P a)"
  using assms(1) unfolding evolves_def by (induction rule: list_all2_induct) (auto simp: assms(2))

lemma evolves_sorted_wrt:
  assumes "evolves a b" and "sorted_wrt P a"
    and "\<And>x x' y y'. sameRow x x' \<Longrightarrow> sameRow y y' \<Longrightarrow> (outstanding x' \<longrightarrow> outstanding x) \<Longrightarrow>
          (outstanding y' \<longrightarrow> outstanding y) \<Longrightarrow> P x y \<Longrightarrow> P x' y'"
  shows "sorted_wrt P b"
  unfolding sorted_wrt_iff_nth_less
proof (intro allI impI)
  fix i j assume ij: "i < j" "j < length b"
  have len: "length a = length b"
    and row: "\<And>k. k < length b \<Longrightarrow> sameRow (a ! k) (b ! k) \<and> (outstanding (b ! k) \<longrightarrow> outstanding (a ! k))"
    using assms(1) by (simp_all add: evolves_def list_all2_conv_all_nth)
  have "P (a ! i) (a ! j)" using assms(2) ij len by (simp add: sorted_wrt_iff_nth_less)
  then show "P (b ! i) (b ! j)" using assms(3)[of "a ! i" "b ! i" "a ! j" "b ! j"] row[of i] row[of j] ij by simp
qed

lemma distinctIDs_runOp: "distinctIDs s \<Longrightarrow> distinctIDs (runOp reg cfg op s)"
proof -
  assume ids: "distinctIDs s"
  then show ?thesis
  proof (cases rule: runOp_cases[where reg = reg and cfg = cfg and op = op])
    case evolved
    then show ?thesis using ids evolves_ids[OF evolved(1)] by (simp add: distinctIDs_def del: set_map)
  next
    case (added db rq)
    then show ?thesis using ids by (auto simp: distinctIDs_def appended_def newRow_def)
  qed
qed


section \<open>Invariants of the outbox\<close>







lemma runOps_snoc: "runOps reg cfg (ops @ [op]) s = runOp reg cfg op (runOps reg cfg ops s)"
  by (simp add: runOps_def)



definition exampleCfg :: DispatcherConfig where
  "exampleCfg = \<lparr>dcMaxAttempts = 5, dcRetryBase = Second, dcPollEvery = Second\<rparr>"

definition exampleAlert :: "instant \<Rightarrow> NotificationRequest" where
  "exampleAlert now = \<lparr>rqChannel = ''phone'', rqDedupeKey = ''phone:disk:fired'',
     rqPayload = Some (alertMessage ''disk'' ''fired'' ''warning''), rqNow = now, rqCooldown = 5 * Minute, rqPerHour = 1\<rparr>"


section \<open>Flood control\<close>

definition inWindowOf :: "string \<Rightarrow> instant \<Rightarrow> outboxRow \<Rightarrow> bool" where
  "inWindowOf channel t r \<longleftrightarrow> orChannel r = channel \<and> t - Hour + Second \<le> orCreatedAt r \<and> orCreatedAt r \<le> t"

definition spaced :: "int \<Rightarrow> outboxRow list \<Rightarrow> bool" where
  "spaced cooldown = sorted_wrt (\<lambda>r r'. orDedupeKey r \<noteq> None \<and> orDedupeKey r = orDedupeKey r' \<longrightarrow>
     orCreatedAt r + cooldown < orCreatedAt r' + Second)"

fun limitedOp :: "string \<Rightarrow> int \<Rightarrow> int \<Rightarrow> outboxOp \<Rightarrow> bool" where
  "limitedOp channel perHour cooldown (OpEnqueue db rq) \<longleftrightarrow>
     cooldown \<le> rqCooldown rq \<and> (rqChannel rq = channel \<longrightarrow> perHourOr (rqPerHour rq) \<le> perHour)"
| "limitedOp channel perHour cooldown (OpDispatch e channels) \<longleftrightarrow> True"
| "limitedOp channel perHour cooldown OpRestart \<longleftrightarrow> True"

lemma window_below_hourly:
  assumes "rqNow rq \<le> t"
  shows "length (filter (inWindowOf (rqChannel rq) t) rows) \<le> hourly (rqChannel rq) (rqNow rq) rows"
  unfolding hourly_def
proof (induction rows)
  case (Cons r rows)
  have "textLe (rqNow rq - Hour) (orCreatedAt r)" if "t - Hour + Second \<le> orCreatedAt r"
    using that assms by (intro textLe_early) simp
  then show ?case using Cons by (auto simp: inWindowOf_def)
qed simp

lemma window_appended:
  assumes "appended rq s s'" and "rqChannel rq = channel \<longrightarrow> perHourOr (rqPerHour rq) \<le> perHour"
    and "int (length (filter (inWindowOf channel t) (atRows s))) \<le> perHour"
  shows "int (length (filter (inWindowOf channel t) (atRows s'))) \<le> perHour"
proof (cases "inWindowOf channel t (newRow (atNextID s) rq)")
  case True
  then have "rqChannel rq = channel" "rqNow rq \<le> t" by (auto simp: inWindowOf_def newRow_def)
  then show ?thesis
    using assms(1,2) window_below_hourly[of rq t "atRows s"] True by (auto simp: appended_def passes_def)
qed (use assms in \<open>simp add: appended_def\<close>)

lemma spaced_appended:
  assumes "appended rq s s'" and "cooldown \<le> rqCooldown rq" and "0 < cooldown" and "spaced cooldown (atRows s)"
  shows "spaced cooldown (atRows s')"
proof -
  have "orCreatedAt r + cooldown < rqNow rq + Second"
    if "r \<in> set (atRows s)" "orDedupeKey r = nullString (rqDedupeKey rq)" "orDedupeKey r \<noteq> None" for r
  proof -
    have "\<not> textLe (rqNow rq - rqCooldown rq) (orCreatedAt r)"
      using assms(1-3) that
      by (auto simp: appended_def passes_def recentDuplicate_def list_ex_iff nullString_def split: if_splits)
    then have "\<not> rqNow rq - rqCooldown rq + Second \<le> orCreatedAt r" using textLe_early by blast
    then show ?thesis using assms(2) by simp
  qed
  then have "\<forall>r\<in>set (atRows s). orDedupeKey r \<noteq> None \<and> orDedupeKey r = orDedupeKey (newRow (atNextID s) rq) \<longrightarrow>
      orCreatedAt r + cooldown < orCreatedAt (newRow (atNextID s) rq) + Second"
    by (fastforce simp: newRow_def)
  then show ?thesis using assms(1,4) unfolding spaced_def appended_def by (simp add: sorted_wrt_append)
qed

definition floodInv :: "string \<Rightarrow> int \<Rightarrow> int \<Rightarrow> alertTables \<Rightarrow> bool" where
  "floodInv channel perHour cooldown s \<longleftrightarrow>
     (\<forall>t. int (length (filter (inWindowOf channel t) (atRows s))) \<le> perHour) \<and> spaced cooldown (atRows s)"

lemma floodInv_runOp:
  assumes "floodInv channel perHour cooldown s" and "distinctIDs s" and "limitedOp channel perHour cooldown op"
    and "0 < cooldown"
  shows "floodInv channel perHour cooldown (runOp reg cfg op s)"
  using assms(2)
proof (cases rule: runOp_cases[where reg = reg and cfg = cfg and op = op])
  case evolved
  have "length (filter (inWindowOf channel t) (atRows (runOp reg cfg op s))) = length (filter (inWindowOf channel t) (atRows s))" for t
    by (rule evolves_filter[OF evolved(1)]) (simp add: inWindowOf_def sameRow_def)
  moreover have "spaced cooldown (atRows (runOp reg cfg op s))"
    using assms(1) unfolding floodInv_def spaced_def
    by (intro evolves_sorted_wrt[OF evolved(1)]) (auto simp: sameRow_def)
  ultimately show ?thesis using assms(1) by (simp add: floodInv_def)
next
  case (added db rq)
  then show ?thesis
    using window_appended[OF added(2)] spaced_appended[OF added(2)] assms(1,3,4) by (simp add: floodInv_def)
qed

lemma distinctIDs_runOps: "distinctIDs (runOps reg cfg ops emptyTables)"
  by (induction ops rule: rev_induct) (simp_all add: runOps_snoc distinctIDs_runOp, simp add: runOps_def emptyTables_def distinctIDs_def)

text \<open>
  C27. Flood control holds for every interleaving of requests, deliveries and restarts and for every
  behaviour of the clock: in any hour (less the second the textual comparison of timestamps may lose)
  at most \<open>perHour\<close> notifications are accepted for a channel, and two notifications with the same
  dedupe key are at least the cooldown apart (less that second).
\<close>

theorem flood_control:
  assumes "list_all (limitedOp channel perHour cooldown) ops" and "0 < cooldown" and "0 \<le> perHour"
  shows "int (length (filter (inWindowOf channel t) (atRows (runOps reg cfg ops emptyTables)))) \<le> perHour \<and>
         spaced cooldown (atRows (runOps reg cfg ops emptyTables))"
proof -
  have "floodInv channel perHour cooldown (runOps reg cfg ops emptyTables)"
    using assms(1)
  proof (induction ops rule: rev_induct)
    case Nil
    then show ?case using assms(3) by (simp add: floodInv_def runOps_def emptyTables_def spaced_def)
  next
    case (snoc op ops)
    then show ?case using floodInv_runOp[OF _ distinctIDs_runOps] assms(2) by (simp add: runOps_snoc)
  qed
  then show ?thesis by (simp add: floodInv_def)
qed

theorem flood_control_witness:
  "int (length (filter (inWindowOf ''phone'' Hour) (atRows (runOps [] exampleCfg
      [OpEnqueue None (exampleAlert (55 * Minute)), OpEnqueue None (exampleAlert Hour)] emptyTables)))) \<le> 1"
  using flood_control[of "''phone''" 1 "5 * Minute" "[OpEnqueue None (exampleAlert (55 * Minute)), OpEnqueue None (exampleAlert Hour)]"
      Hour "[]" exampleCfg]
  by (simp add: exampleAlert_def perHourOr_def Minute_def Second_def)

section \<open>Draining ends\<close>

text \<open>
  The deliveries a pending row may still cause: its attempts left, and one when none is left, since a row that
  was being sent when the process stopped is sent once more.
\<close>

definition rowBudget :: "DispatcherConfig \<Rightarrow> outboxRow \<Rightarrow> nat" where
  "rowBudget cfg r = (if orState r = DPending then max 1 (nat (dcMaxAttempts cfg - orAttempts r)) else 0)"

definition budget :: "DispatcherConfig \<Rightarrow> alertTables \<Rightarrow> nat" where
  "budget cfg s = sum_list (map (rowBudget cfg) (atRows s))"

definition enqueues :: "outboxOp list \<Rightarrow> nat" where
  "enqueues ops = length (filter (\<lambda>op. case op of OpEnqueue db rq \<Rightarrow> True | _ \<Rightarrow> False) ops)"

lemma sum_list_update_less:
  fixes g :: "'a \<Rightarrow> nat"
  assumes "\<And>x. x \<in> set xs \<Longrightarrow> h x \<le> g x" and "y \<in> set xs" and "h y < g y"
  shows "sum_list (map h xs) < sum_list (map g xs)"
  using assms
proof (induction xs)
  case (Cons x xs)
  have le: "sum_list (map h xs) \<le> sum_list (map g xs)" by (rule sum_list_mono) (use Cons.prems(1) in simp)
  show ?case
  proof (cases "y = x")
    case True
    then show ?thesis using le Cons.prems(3) by simp
  next
    case False
    then have "sum_list (map h xs) < sum_list (map g xs)" using Cons by simp
    then show ?thesis using Cons.prems(1)[of x] by simp
  qed
qed simp

lemma RunOnce_budget:
  assumes "RunOnce reg e d s = (Inr True, s')" and "distinctIDs s"
  shows "budget (diConfig d) s' < budget (diConfig d) s"
  using assms(1)
proof (cases rule: RunOnce_cases)
  case (delivered item s1 f)
  obtain r where r: "r \<in> set (atRows s)" "due (deNow e) r" "item = \<lparr>ntID = orID r, ntChannel = orChannel r,
      ntPayload = orPayload r, ntAttempts = orAttempts r + 1\<rparr>"
    "s1 = updateRow (orID r) (\<lambda>r'. r'\<lparr>orState := DSending, orAttempts := orAttempts r + 1\<rparr>) s"
    using delivered(1) by (rule ClaimNotification_Some)
  define g where "g r' = (if orID r' = orID r then f (r'\<lparr>orState := DSending, orAttempts := orAttempts r + 1\<rparr>) else r')" for r'
  have rows: "atRows s' = map g (atRows s)"
    using delivered(2) r(3,4) by (simp add: updateRow_rows g_def comp_def if_distrib cong: if_cong)
  have claimed: "rowBudget (diConfig d) (g r') < rowBudget (diConfig d) r'" if "r' \<in> set (atRows s)" "orID r' = orID r" for r'
  proof -
    have "r' = r" using distinctIDs_row[OF assms(2) that(1) r(1) that(2)] .
    then show ?thesis
      using delivered(3)[of "r\<lparr>orState := DSending, orAttempts := orAttempts r + 1\<rparr>"] r(2,3)
      by (auto simp: g_def settled_def rowBudget_def due_def)
  qed
  have "rowBudget (diConfig d) (g r') \<le> rowBudget (diConfig d) r'" if "r' \<in> set (atRows s)" for r'
    using claimed[OF that] by (cases "orID r' = orID r") (auto simp: g_def)
  then have "sum_list (map (\<lambda>r. rowBudget (diConfig d) (g r)) (atRows s)) < sum_list (map (rowBudget (diConfig d)) (atRows s))"
    using sum_list_update_less[of "atRows s" "\<lambda>r. rowBudget (diConfig d) (g r)" "rowBudget (diConfig d)" r] claimed[OF r(1) refl] r(1) by simp
  then show ?thesis by (simp add: budget_def rows comp_def)
qed simp_all

lemma enqueue_budget: "budget cfg (snd (EnqueueNotification db rq s)) \<le> budget cfg s + max 1 (nat (dcMaxAttempts cfg))"
  using EnqueueNotification_cases[of s db rq]
  by (auto simp: unchanged_def appended_def budget_def rowBudget_def newRow_def)

lemma drain_bounded:
  "distinctIDs s \<Longrightarrow> fst (drain reg cfg ops s) \<le> budget cfg s + enqueues ops * max 1 (nat (dcMaxAttempts cfg))"
proof (induction reg cfg ops s rule: drain.induct)
  case (2 reg cfg db rq ops s)
  have "distinctIDs (snd (EnqueueNotification db rq s))"
    using distinctIDs_runOp[OF 2(2), of reg cfg "OpEnqueue db rq"] by simp
  then show ?case using 2(1) enqueue_budget[of cfg db rq s] by (simp add: enqueues_def)
next
  case (3 reg cfg e channels ops s)
  let ?d = "\<lparr>diConfig = cfg, diChannels = channels\<rparr>"
  obtain res s' where run: "RunOnce reg e ?d s = (res, s')" by (cases "RunOnce reg e ?d s")
  show ?case
  proof (cases "res = Inr True")
    case True
    then have less: "budget cfg s' < budget cfg s" using RunOnce_budget[of reg e ?d s s'] run 3(2) by simp
    have "distinctIDs s'" using distinctIDs_runOp[OF 3(2), of reg cfg "OpDispatch e channels"] run by simp
    then have "fst (drain reg cfg ops s') \<le> budget cfg s' + enqueues ops * max 1 (nat (dcMaxAttempts cfg))"
      using 3(1)[of "Inr True" s' True] run True by simp
    then show ?thesis using less run True by (cases "drain reg cfg ops s'") (simp add: enqueues_def)
  next
    case False
    then show ?thesis using run by (auto split: sum.splits bool.splits)
  qed
qed simp_all

text \<open>
  C38. The dispatcher's inner loop ends.  From any outbox, and with any notifications enqueued meanwhile, it makes
  at most as many deliveries as the pending rows have attempts left, one for a row that has none left, and
  \<open>MaxAttempts\<close> for each notification enqueued, whatever the clock, the network, the channels and the database
  do.  So it cannot spin on a failing channel.
\<close>

theorem drain_terminates:
  "fst (drain reg cfg ops (runOps reg cfg before emptyTables))
     \<le> budget cfg (runOps reg cfg before emptyTables) + enqueues ops * max 1 (nat (dcMaxAttempts cfg))"
  by (rule drain_bounded[OF distinctIDs_runOps])

lemma retryLoop_bounds: "0 < delay \<Longrightarrow> delay \<le> Hour \<Longrightarrow> delay \<le> retryLoop k delay \<and> retryLoop k delay < 2 * Hour"
proof (induction k arbitrary: delay)
  case (Suc k)
  have "delay * 2 \<le> retryLoop k (delay * 2) \<and> retryLoop k (delay * 2) < 2 * Hour" if "delay < Hour"
  proof (cases "delay * 2 \<le> Hour")
    case True
    then show ?thesis using Suc.IH[of "delay * 2"] Suc.prems by simp
  next
    case False
    then show ?thesis using that by (cases k) auto
  qed
  then show ?case using Suc.prems by auto
qed simp


text \<open>
  A failed delivery is retried after at least the base delay and at most an hour, an attempt that
  reaches \<open>MaxAttempts\<close> or is refused by the receiver for good is abandoned, and a success is never
  sent again: the row is claimed by nobody once it is sent or abandoned.
\<close>

lemma settle_outcome:
  assumes "ClaimNotification None now s = (Inr (Some item), s1)" and "distinctIDs s"
    and "0 < dcRetryBase (diConfig d)" and "dcRetryBase (diConfig d) \<le> Hour"
    and "settle reg e d item s1 = (None, s2)"
    and "r \<in> set (atRows s2)" and "orID r = ntID item"
  shows "\<not> outstanding r \<or>
         orState r = DPending \<and> ntAttempts item < dcMaxAttempts (diConfig d) \<and>
         (\<exists>t. orNextAttemptAt r = Some t \<and> deAfter e + dcRetryBase (diConfig d) \<le> t \<and> t \<le> deAfter e + Hour)"
proof -
  define delay where "delay = retryDelay (diConfig d) (ntAttempts item)"
  have delay: "dcRetryBase (diConfig d) \<le> delay \<and> delay \<le> Hour"
    using retryLoop_bounds[OF assms(3,4)] assms(4) by (simp add: delay_def retryDelay_def Let_def)
  have "orState r \<in> {DSent, DAbandoned} \<or>
      orState r = DPending \<and> ntAttempts item < dcMaxAttempts (diConfig d) \<and> orNextAttemptAt r = Some (deAfter e + delay)"
    using assms(5-7) unfolding settle_def FailNotification_def CompleteNotification_def delay_def[symmetric]
    by (auto simp: updateRow_rows split: option.splits if_splits)
  then show ?thesis using delay by (auto simp: outstanding_def)
qed

end
