(* ===== verification/Rules.thy ===== *)
theory Rules
  imports Outbox
begin

text \<open>
  Package \<open>internal/rules\<close> with the rule tables of \<open>internal/storage/rules.go\<close>: compiling a rule against
  the declared cards and signals (\<open>evaluator.go\<close>), the three-valued evaluation of its predicate, and the
  manager that debounces, persists and announces the transitions (\<open>manager.go\<close>).  The expression
  library is a parameter: a parsed expression is the list of the nodes its walker visits, and a compiled
  program is a function of the two environment functions that returns the calls of \<open>signal\<close> it made
  and its output.
\<close>

section \<open>Definitions\<close>

datatype Result = ResultTrue | ResultFalse | ResultUnknown

record CardDefinition =
  cdHash :: string
  cdSignals :: "string \<rightharpoonup> string"

type_synonym program =
  "(string \<Rightarrow> string \<Rightarrow> Scalar) \<Rightarrow> (string \<Rightarrow> string) \<Rightarrow> (string \<times> string) list \<times> (string, Scalar) result"

record RuleDefinition =
  rdID :: string
  rdHash :: string
  rdFor :: int
  rdSeverity :: string
  rdNotify :: "string list"
  rdResolve :: bool
  rdProgram :: program

record Evaluation =
  evalResult :: Result
  evalWrongTypes :: "string list"

record Rule =
  ruID :: string
  ruWhen :: string
  ruFor :: string
  ruSeverity :: string
  ruNotify :: "string list"
  ruResolve :: bool

datatype ruleError =
    ParseFailed string
  | WantsArguments string nat
  | WantsLiterals string
  | UnknownCard string
  | UndeclaredSignal string string
  | CompileFailed string
  | InvalidFor
  | HashFailed string
  | RunFailed string
  | NotBool
  | DuplicateRule string
  | AlertFailed alertError

section \<open>Compiling\<close>

text \<open>
  A node of the parsed expression: a call with its callee, if that is an identifier, and its arguments,
  each a string literal or not; or any other node.
\<close>

datatype exprNode = CallNode "string option" "string option list" | OtherNode

record refs =
  rfCards :: "(string \<times> string) list"
  rfErr :: "ruleError option"

definition NUL :: char where
  "NUL = CHR 0x00"

definition Visit :: "exprNode \<Rightarrow> refs \<Rightarrow> refs" where
  "Visit node v =
     (case node of
        CallNode (Some callee) args \<Rightarrow>
          if callee \<noteq> ''signal'' \<and> callee \<noteq> ''state'' then v
          else let want = (if callee = ''signal'' then 2 else 1) in
               if length args \<noteq> want then v\<lparr>rfErr := Some (WantsArguments callee want)\<rparr>
               else if None \<in> set args then v\<lparr>rfErr := Some (WantsLiterals callee)\<rparr>
               else let values = map the args in
                    if callee = ''signal''
                    then v\<lparr>rfCards := AList.update (values ! 0 @ [NUL] @ values ! 1) ''signal'' (rfCards v)\<rparr>
                    else v\<lparr>rfCards := AList.update (values ! 0) ''state'' (rfCards v)\<rparr>
      | _ \<Rightarrow> v)"

definition Walk :: "exprNode list \<Rightarrow> refs" where
  "Walk nodes = fold Visit nodes \<lparr>rfCards = [], rfErr = None\<rparr>"

fun splitReference :: "string \<Rightarrow> string \<times> string" where
  "splitReference [] = ([], [])"
| "splitReference (c # ref) =
     (if c = NUL then ([], ref) else (case splitReference ref of (cd, signal) \<Rightarrow> (c # cd, signal)))"

definition parseDuration :: "string \<Rightarrow> (ruleError, int) result" where
  "parseDuration v =
     (if v = [] then Inr 0
      else case ParseDuration v of
             None \<Rightarrow> Inl InvalidFor
           | Some d \<Rightarrow> if d < 0 then Inl InvalidFor else Inr d)"

fun checkRefs ::
  "(string \<rightharpoonup> CardDefinition) \<Rightarrow> (string \<times> string) list \<Rightarrow> (string \<rightharpoonup> string) \<Rightarrow> (ruleError, string \<rightharpoonup> string) result" where
  "checkRefs cards [] hashes = Inr hashes"
| "checkRefs cards ((ref, kind) # rs) hashes =
     (case splitReference ref of (cardID, signalName) \<Rightarrow>
        case cards cardID of
          None \<Rightarrow> Inl (UnknownCard cardID)
        | Some cd \<Rightarrow>
            if kind = ''signal'' \<and> cdSignals cd signalName = None
            then Inl (UndeclaredSignal cardID signalName)
            else checkRefs cards rs (hashes(cardID \<mapsto> cdHash cd)))"

text \<open>The parser, the compiler and \<open>storage.DefinitionHash\<close> (a digest of the JSON) are arguments.\<close>

record compiler =
  coParse :: "string \<Rightarrow> (string, exprNode list) result"
  coCompile :: "string \<Rightarrow> (string, program) result"
  coHash :: "Rule \<Rightarrow> (string \<rightharpoonup> string) \<Rightarrow> (string, string) result"

definition finishCompile ::
  "compiler \<Rightarrow> Rule \<Rightarrow> (string \<rightharpoonup> string) \<Rightarrow> (ruleError, RuleDefinition) result" where
  "finishCompile co rule hashes =
     (case coCompile co (ruWhen rule) of
        Inl err \<Rightarrow> Inl (CompileFailed err)
      | Inr prog \<Rightarrow>
          (case parseDuration (ruFor rule) of
             Inl err \<Rightarrow> Inl err
           | Inr forDuration \<Rightarrow>
               (case coHash co rule hashes of
                  Inl err \<Rightarrow> Inl (HashFailed err)
                | Inr h \<Rightarrow>
                    Inr \<lparr>rdID = ruID rule, rdHash = h, rdFor = forDuration,
                         rdSeverity = (if ruSeverity rule = [] then ''warning'' else ruSeverity rule),
                         rdNotify = ruNotify rule, rdResolve = ruResolve rule, rdProgram = prog\<rparr>)))"

definition Compile ::
  "compiler \<Rightarrow> Rule \<Rightarrow> (string \<rightharpoonup> CardDefinition) \<Rightarrow> (ruleError, RuleDefinition) result" where
  "Compile co rule cards =
     (case coParse co (ruWhen rule) of
        Inl err \<Rightarrow> Inl (ParseFailed err)
      | Inr nodes \<Rightarrow>
          (case rfErr (Walk nodes) of
             Some err \<Rightarrow> Inl err
           | None \<Rightarrow>
               (case checkRefs cards (rfCards (Walk nodes)) Map.empty of
                  Inl err \<Rightarrow> Inl err
                | Inr hashes \<Rightarrow> finishCompile co rule hashes)))"

section \<open>Evaluating\<close>

text \<open>What \<open>signal(card, name)\<close> finds: a value, nothing fresh, or a value of the wrong type.\<close>

datatype reading = Fresh Scalar | Absent | WrongType Scalar

definition typedReading :: "string \<Rightarrow> Scalar \<Rightarrow> reading" where
  "typedReading declared v =
     (if declared = ''number'' then (case v of SNumber _ \<Rightarrow> Fresh v | _ \<Rightarrow> WrongType (SNumber 0))
      else if declared = ''string'' then (case v of SString _ \<Rightarrow> Fresh v | _ \<Rightarrow> WrongType (SString []))
      else if declared = ''boolean'' then (case v of SBool _ \<Rightarrow> Fresh v | _ \<Rightarrow> WrongType (SBool False))
      else Absent)"

definition declaredType :: "(string \<rightharpoonup> CardDefinition) \<Rightarrow> string \<Rightarrow> string \<Rightarrow> string" where
  "declaredType declarations cardID name =
     (case declarations cardID of
        None \<Rightarrow> []
      | Some cd \<Rightarrow> (case cdSignals cd name of None \<Rightarrow> [] | Some t \<Rightarrow> t))"

definition readSignal ::
  "(string \<rightharpoonup> CardState) \<Rightarrow> (string \<rightharpoonup> CardDefinition) \<Rightarrow> string \<times> string \<Rightarrow> reading" where
  "readSignal cards declarations ref =
     (case ref of (cardID, name) \<Rightarrow>
        case cards cardID of
          None \<Rightarrow> Absent
        | Some cd \<Rightarrow>
            if exState (csExecution cd) \<noteq> StateOK then Absent
            else case csDocument cd of
                   None \<Rightarrow> Absent
                 | Some doc \<Rightarrow>
                     (case map_of (docSignals doc) name of
                        None \<Rightarrow> Absent
                      | Some signal \<Rightarrow>
                          if sigValue signal = SNil then Absent
                          else typedReading (declaredType declarations cardID name) (sigValue signal)))"

fun readingValue :: "reading \<Rightarrow> Scalar" where
  "readingValue (Fresh v) = v"
| "readingValue Absent = SNumber 0"
| "readingValue (WrongType v) = v"

fun isFresh :: "reading \<Rightarrow> bool" where
  "isFresh (Fresh v) = True"
| "isFresh _ = False"

fun isWrongType :: "reading \<Rightarrow> bool" where
  "isWrongType (WrongType v) = True"
| "isWrongType _ = False"

fun stateText :: "ExecutionState \<Rightarrow> string" where
  "stateText StatePending = ''pending''"
| "stateText StateOK = ''ok''"
| "stateText StateStale = ''stale''"
| "stateText StateError = ''error''"
| "stateText StateDisabled = ''disabled''"
| "stateText (OtherState s) = s"

definition cardStateText :: "(string \<rightharpoonup> CardState) \<Rightarrow> string \<Rightarrow> string" where
  "cardStateText cards cardID =
     stateText (case cards cardID of None \<Rightarrow> StatePending | Some cd \<Rightarrow> exState (csExecution cd))"

definition exprRun ::
  "RuleDefinition \<Rightarrow> (string \<rightharpoonup> CardState) \<Rightarrow> (string \<rightharpoonup> CardDefinition) \<Rightarrow> (string \<times> string) list \<times> (string, Scalar) result" where
  "exprRun d cards declarations =
     rdProgram d (\<lambda>cardID name. readingValue (readSignal cards declarations (cardID, name))) (cardStateText cards)"

definition Evaluate ::
  "RuleDefinition \<Rightarrow> (string \<rightharpoonup> CardState) \<Rightarrow> (string \<rightharpoonup> CardDefinition) \<Rightarrow> (ruleError, Evaluation) result" where
  "Evaluate d cards declarations =
     (case exprRun d cards declarations of (calls, out) \<Rightarrow>
        if list_ex (\<lambda>ref. \<not> isFresh (readSignal cards declarations ref)) calls
        then Inr \<lparr>evalResult = ResultUnknown,
                  evalWrongTypes = map (\<lambda>(cardID, name). cardID @ ''.'' @ name)
                    (filter (\<lambda>ref. isWrongType (readSignal cards declarations ref)) calls)\<rparr>
        else case out of
               Inl err \<Rightarrow> Inl (RunFailed err)
             | Inr (SBool b) \<Rightarrow>
                 Inr \<lparr>evalResult = (if b then ResultTrue else ResultFalse), evalWrongTypes = []\<rparr>
             | Inr _ \<Rightarrow> Inl NotBool)"

section \<open>The rule state table\<close>

record RuleState =
  rsRuleID :: string
  rsRuleHash :: string
  rsLastResult :: Result
  rsSince :: instant
  rsDeadline :: instant
  rsFiredAt :: instant
  rsResolvedAt :: instant
  rsWrongType :: bool

text \<open>The row: a zero time is stored as NULL.\<close>

record ruleRow =
  rwHash :: string
  rwLastResult :: Result
  rwSince :: "instant option"
  rwDeadline :: "instant option"
  rwFiredAt :: "instant option"
  rwResolvedAt :: "instant option"
  rwWrongType :: bool

record ruleTables =
  rtAlerts :: alertTables
  rtRules :: "string \<rightharpoonup> ruleRow"

definition nullTime :: "instant \<Rightarrow> instant option" where
  "nullTime t = (if t = zeroTime then None else Some t)"

definition orZero :: "instant option \<Rightarrow> instant" where
  "orZero v = (case v of None \<Rightarrow> zeroTime | Some t \<Rightarrow> t)"

definition GetRuleState ::
  "string option \<Rightarrow> string \<Rightarrow> string \<Rightarrow> ruleTables \<Rightarrow> (alertError, RuleState option) result" where
  "GetRuleState db ident hash t =
     (case db of
        Some err \<Rightarrow> Inl (DatabaseFailed err)
      | None \<Rightarrow>
          (case rtRules t ident of
             None \<Rightarrow> Inr None
           | Some row \<Rightarrow>
               if rwHash row \<noteq> hash then Inr None
               else Inr (Some \<lparr>rsRuleID = ident, rsRuleHash = hash, rsLastResult = rwLastResult row,
                      rsSince = orZero (rwSince row), rsDeadline = orZero (rwDeadline row),
                      rsFiredAt = orZero (rwFiredAt row), rsResolvedAt = orZero (rwResolvedAt row),
                      rsWrongType = rwWrongType row\<rparr>)))"

definition putRuleState :: "RuleState \<Rightarrow> ruleTables \<Rightarrow> ruleTables" where
  "putRuleState v t =
     t\<lparr>rtRules := (rtRules t)(rsRuleID v \<mapsto>
        \<lparr>rwHash = rsRuleHash v, rwLastResult = rsLastResult v, rwSince = nullTime (rsSince v),
         rwDeadline = nullTime (rsDeadline v), rwFiredAt = nullTime (rsFiredAt v),
         rwResolvedAt = nullTime (rsResolvedAt v), rwWrongType = rsWrongType v\<rparr>)\<rparr>"

fun enqueueAll :: "NotificationRequest list \<Rightarrow> alertTables \<Rightarrow> (alertError, bool \<times> alertTables) result" where
  "enqueueAll [] s = Inr (False, s)"
| "enqueueAll (rq # rqs) s =
     (case enqueueNotificationTx rq s of
        Inl err \<Rightarrow> Inl err
      | Inr ((enqueued, _), s') \<Rightarrow>
          map_sum id (\<lambda>(wake, s''). (enqueued \<or> wake, s'')) (enqueueAll rqs s'))"

definition transitionTx ::
  "instant \<Rightarrow> RuleState \<Rightarrow> StoredEvent option \<Rightarrow> NotificationRequest list \<Rightarrow> ruleTables \<Rightarrow> (alertError, bool \<times> ruleTables) result" where
  "transitionTx now v event notifications t =
     (case enqueueAll notifications (rtAlerts t) of
        Inl err \<Rightarrow> Inl err
      | Inr (wake, s) \<Rightarrow>
          (case event of
             None \<Rightarrow> Inr (wake, putRuleState v (t\<lparr>rtAlerts := s\<rparr>))
           | Some ev \<Rightarrow>
               map_sum id (\<lambda>s'. (wake, putRuleState v (t\<lparr>rtAlerts := s'\<rparr>))) (appendEventTx now ev s)))"

text \<open>A transaction: when a statement or the commit fails nothing has happened.\<close>

definition CommitRuleTransition ::
  "string option \<Rightarrow> instant \<Rightarrow> RuleState \<Rightarrow> StoredEvent option \<Rightarrow> NotificationRequest list \<Rightarrow> ruleTables \<Rightarrow>
   (alertError, bool) result \<times> ruleTables" where
  "CommitRuleTransition db now v event notifications t =
     (case (case event of None \<Rightarrow> None | Some ev \<Rightarrow>
              (case validateEvent now ev of Inl err \<Rightarrow> Some err | Inr _ \<Rightarrow> None)) of
        Some err \<Rightarrow> (Inl err, t)
      | None \<Rightarrow>
          (case transitionTx now v event notifications t of
             Inl err \<Rightarrow> (Inl err, t)
           | Inr (wake, t') \<Rightarrow>
               (case db of Some err \<Rightarrow> (Inl (DatabaseFailed err), t) | None \<Rightarrow> (Inr wake, t'))))"


section \<open>The manager\<close>

record Alert =
  alRuleID :: string
  alEvent :: string
  alSeverity :: string
  alChannels :: "string list"

text \<open>A pending timer: the definition hash it was armed for, and when it goes off.\<close>

record RuleManager =
  rmDefinitions :: "string \<rightharpoonup> RuleDefinition"
  rmDeclarations :: "string \<rightharpoonup> CardDefinition"
  rmStates :: "string \<rightharpoonup> RuleState"
  rmTimers :: "string \<rightharpoonup> string \<times> instant"
  rmNotify :: "Dispatcher option"
  rmActive :: bool

definition NewRules :: "Dispatcher option \<Rightarrow> RuleManager" where
  "NewRules notifier = \<lparr>rmDefinitions = Map.empty, rmDeclarations = Map.empty, rmStates = Map.empty,
     rmTimers = Map.empty, rmNotify = notifier, rmActive = False\<rparr>"

definition CloseRules :: "RuleManager \<Rightarrow> RuleManager" where
  "CloseRules m = m\<lparr>rmTimers := Map.empty\<rparr>"

definition freshState :: "RuleDefinition \<Rightarrow> RuleState" where
  "freshState d = \<lparr>rsRuleID = rdID d, rsRuleHash = rdHash d, rsLastResult = ResultUnknown, rsSince = zeroTime,
     rsDeadline = zeroTime, rsFiredAt = zeroTime, rsResolvedAt = zeroTime, rsWrongType = False\<rparr>"

fun restoreRules ::
  "(string \<Rightarrow> string option) \<Rightarrow> RuleDefinition list \<Rightarrow> ruleTables \<Rightarrow>
   (string \<rightharpoonup> RuleDefinition) \<times> (string \<rightharpoonup> RuleState) \<Rightarrow>
   (ruleError, (string \<rightharpoonup> RuleDefinition) \<times> (string \<rightharpoonup> RuleState)) result" where
  "restoreRules db [] t acc = Inr acc"
| "restoreRules db (d # ds) t (defs, states) =
     (if defs (rdID d) \<noteq> None then Inl (DuplicateRule (rdID d))
      else case GetRuleState (db (rdID d)) (rdID d) (rdHash d) t of
             Inl err \<Rightarrow> Inl (AlertFailed err)
           | Inr found \<Rightarrow>
               restoreRules db ds t (defs(rdID d \<mapsto> d),
                 states(rdID d \<mapsto> (case found of None \<Rightarrow> freshState d | Some st \<Rightarrow> st))))"

definition ApplyRules ::
  "(string \<Rightarrow> string option) \<Rightarrow> RuleDefinition list \<Rightarrow> (string \<rightharpoonup> CardDefinition) \<Rightarrow> ruleTables \<Rightarrow> RuleManager \<Rightarrow>
   ruleError option \<times> RuleManager" where
  "ApplyRules db defs declarations t m =
     (case restoreRules db defs t (Map.empty, Map.empty) of
        Inl err \<Rightarrow> (Some err, m)
      | Inr (ds, states) \<Rightarrow>
          (None, m\<lparr>rmDefinitions := ds, rmDeclarations := declarations, rmStates := states,
                   rmTimers := Map.empty, rmActive := False\<rparr>))"

definition ruleEvent :: "RuleDefinition \<Rightarrow> string \<Rightarrow> instant \<Rightarrow> StoredEvent" where
  "ruleEvent d eventType now = \<lparr>etTimestamp = Some now, etType = eventType, etSeverity = rdSeverity d,
     etSource = ''rules'', etCardID = [],
     etMessage = (if eventType = ''rule.resolved'' then ''Rule resolved'' else ''Rule fired''),
     etData = Some (JObject [(''notify'', stringSlice (rdNotify d)), (''rule'', JString (rdID d))])\<rparr>"

definition wrongTypeEvent :: "string \<Rightarrow> string list \<Rightarrow> instant \<Rightarrow> StoredEvent" where
  "wrongTypeEvent ident signals now = \<lparr>etTimestamp = Some now, etType = ''rule.signal-type'',
     etSeverity = ''warning'', etSource = ''rules'', etCardID = [],
     etMessage = ''Declared signal has the wrong runtime type'',
     etData = Some (JObject [(''rule'', JString ident), (''signals'', stringSlice signals)])\<rparr>"

text \<open>
  The body of \<open>evaluateLocked\<close> between the evaluation and the commit: the next state, the event and
  the alert of the transition, and whether a wake-up at the deadline is scheduled.
\<close>

record transition =
  trState :: RuleState
  trEvent :: "StoredEvent option"
  trAlert :: "Alert option"
  trSchedule :: bool

definition noteWrongTypes :: "string \<Rightarrow> instant \<Rightarrow> Evaluation \<Rightarrow> RuleState \<Rightarrow> transition" where
  "noteWrongTypes ident now e current =
     (if evalWrongTypes e \<noteq> [] \<and> \<not> rsWrongType current
      then \<lparr>trState = current\<lparr>rsWrongType := True\<rparr>, trEvent = Some (wrongTypeEvent ident (evalWrongTypes e) now),
            trAlert = None, trSchedule = False\<rparr>
      else if evalWrongTypes e = []
      then \<lparr>trState = current\<lparr>rsWrongType := False\<rparr>, trEvent = None, trAlert = None, trSchedule = False\<rparr>
      else \<lparr>trState = current, trEvent = None, trAlert = None, trSchedule = False\<rparr>)"

definition alertFor :: "bool \<Rightarrow> RuleDefinition \<Rightarrow> string \<Rightarrow> Alert option" where
  "alertFor notifies d event =
     (if notifies then Some \<lparr>alRuleID = rdID d, alEvent = event, alSeverity = rdSeverity d, alChannels = rdNotify d\<rparr>
      else None)"

definition startRun :: "RuleDefinition \<Rightarrow> instant \<Rightarrow> RuleState \<Rightarrow> RuleState" where
  "startRun d now current =
     (if rsSince current = zeroTime then current\<lparr>rsSince := now, rsDeadline := now + rdFor d\<rparr> else current)"

definition transitionFor :: "bool \<Rightarrow> RuleDefinition \<Rightarrow> string \<Rightarrow> instant \<Rightarrow> Evaluation \<Rightarrow> RuleState \<Rightarrow> transition" where
  "transitionFor notifies d ident now e current =
     (let tr = noteWrongTypes ident now e current;
          tr' =
            (case evalResult e of
               ResultTrue \<Rightarrow>
                 let st = startRun d now (trState tr) in
                 if \<not> now < rsDeadline st \<and> rsFiredAt st = zeroTime
                 then tr\<lparr>trState := st\<lparr>rsFiredAt := now, rsResolvedAt := zeroTime\<rparr>,
                         trEvent := Some (ruleEvent d ''rule.fired'' now), trAlert := alertFor notifies d ''fired''\<rparr>
                 else tr\<lparr>trState := st, trSchedule := (rsFiredAt st = zeroTime)\<rparr>
             | ResultFalse \<Rightarrow>
                 let st = (trState tr)\<lparr>rsSince := zeroTime, rsDeadline := zeroTime\<rparr> in
                 if rsFiredAt st \<noteq> zeroTime
                 then (let tr = (if rdResolve d
                                 then tr\<lparr>trEvent := Some (ruleEvent d ''rule.resolved'' now),
                                         trAlert := alertFor notifies d ''resolved''\<rparr>
                                 else tr)
                       in tr\<lparr>trState := st\<lparr>rsResolvedAt := now, rsFiredAt := zeroTime\<rparr>\<rparr>)
                 else tr\<lparr>trState := st\<rparr>
             | ResultUnknown \<Rightarrow> tr\<lparr>trState := (trState tr)\<lparr>rsSince := zeroTime, rsDeadline := zeroTime\<rparr>\<rparr>)
      in tr'\<lparr>trState := (trState tr')\<lparr>rsRuleID := ident, rsRuleHash := rdHash d, rsLastResult := evalResult e\<rparr>\<rparr>)"

definition prepareAlert :: "Dispatcher option \<Rightarrow> Alert option \<Rightarrow> instant \<Rightarrow> (alertError, NotificationRequest list) result" where
  "prepareAlert notifier alert now =
     (case (notifier, alert) of
        (Some d, Some a) \<Rightarrow> PrepareRuleAlert d (alRuleID a) (alEvent a) (alSeverity a) (alChannels a) now
      | _ \<Rightarrow> Inr [])"

definition rearm :: "RuleDefinition \<Rightarrow> string \<Rightarrow> transition \<Rightarrow> RuleManager \<Rightarrow> RuleManager" where
  "rearm d ident tr m =
     m\<lparr>rmTimers := (rmTimers m)(ident := (if trSchedule tr then Some (rdHash d, rsDeadline (trState tr)) else None))\<rparr>"

text \<open>A rule without a state in the map reads the zero \<open>RuleState\<close>; \<open>ApplyRules\<close> gives every rule one.\<close>

definition zeroRuleState :: RuleState where
  "zeroRuleState = \<lparr>rsRuleID = [], rsRuleHash = [], rsLastResult = ResultUnknown, rsSince = zeroTime,
     rsDeadline = zeroTime, rsFiredAt = zeroTime, rsResolvedAt = zeroTime, rsWrongType = False\<rparr>"

definition stateFor :: "RuleManager \<Rightarrow> string \<Rightarrow> RuleState" where
  "stateFor m ident = (case rmStates m ident of None \<Rightarrow> zeroRuleState | Some st \<Rightarrow> st)"

definition evaluateLocked ::
  "string option \<Rightarrow> instant \<Rightarrow> string \<Rightarrow> (string \<rightharpoonup> CardState) \<Rightarrow> RuleManager \<times> ruleTables \<Rightarrow>
   ruleError option \<times> RuleManager \<times> ruleTables" where
  "evaluateLocked db now ident cards mt =
     (case mt of (m, t) \<Rightarrow>
        case rmDefinitions m ident of
          None \<Rightarrow> (None, m, t)
        | Some d \<Rightarrow>
            (case Evaluate d cards (rmDeclarations m) of
               Inl err \<Rightarrow> (Some err, m, t)
             | Inr e \<Rightarrow>
                 let tr = transitionFor (rmNotify m \<noteq> None) d ident now e (stateFor m ident);
                     m = rearm d ident tr m
                 in case prepareAlert (rmNotify m) (trAlert tr) now of
                      Inl err \<Rightarrow> (Some (AlertFailed err), m, t)
                    | Inr notifications \<Rightarrow>
                        (case CommitRuleTransition db now (trState tr) (trEvent tr) notifications t of
                           (Inl err, t') \<Rightarrow> (Some (AlertFailed err), m, t')
                         | (Inr wake, t') \<Rightarrow> (None, m\<lparr>rmStates := (rmStates m)(ident \<mapsto> trState tr)\<rparr>, t'))))"

text \<open>
  The loop of \<open>evaluateAll\<close> over the definitions, in the order the map yields them, each with the
  clock and the outcome of its commit.
\<close>

fun evaluateLoop ::
  "(string \<rightharpoonup> CardState) \<Rightarrow> (string \<times> instant \<times> string option) list \<Rightarrow> RuleManager \<times> ruleTables \<Rightarrow>
   ruleError option \<times> RuleManager \<times> ruleTables" where
  "evaluateLoop cards [] mt = (None, mt)"
| "evaluateLoop cards ((ident, now, db) # rest) mt =
     (case evaluateLocked db now ident cards mt of
        (Some err, mt') \<Rightarrow> (Some err, mt')
      | (None, mt') \<Rightarrow> evaluateLoop cards rest mt')"

definition evaluateAll ::
  "(string \<rightharpoonup> CardState) \<Rightarrow> (string \<times> instant \<times> string option) list \<Rightarrow> RuleManager \<times> ruleTables \<Rightarrow>
   ruleError option \<times> RuleManager \<times> ruleTables" where
  "evaluateAll cards order mt = (if \<not> rmActive (fst mt) then (None, mt) else evaluateLoop cards order mt)"

definition EvaluateRules ::
  "(string \<rightharpoonup> CardState) \<Rightarrow> (string \<times> instant \<times> string option) list \<Rightarrow> RuleManager \<times> ruleTables \<Rightarrow>
   ruleError option \<times> RuleManager \<times> ruleTables" where
  "EvaluateRules cards order mt = (case mt of (m, t) \<Rightarrow> evaluateAll cards order (m\<lparr>rmActive := True\<rparr>, t))"

text \<open>A timer going off: it evaluates everything if its definition is still the one it was armed for.\<close>

definition timerFires ::
  "string \<Rightarrow> string \<Rightarrow> (string \<rightharpoonup> CardState) \<Rightarrow> (string \<times> instant \<times> string option) list \<Rightarrow> RuleManager \<times> ruleTables \<Rightarrow>
   ruleError option \<times> RuleManager \<times> ruleTables" where
  "timerFires ident hash cards order mt =
     (case rmDefinitions (fst mt) ident of
        None \<Rightarrow> (None, mt)
      | Some d \<Rightarrow> if rdHash d \<noteq> hash then (None, mt) else evaluateAll cards order mt)"


section \<open>What a predicate may see\<close>

definition exampleProgram :: program where
  "exampleProgram sig st =
     ([(''disk'', ''used'')], Inr (SBool (sig ''disk'' ''used'' = SNumber 95)))"

definition exampleRule :: RuleDefinition where
  "exampleRule = \<lparr>rdID = ''full'', rdHash = ''h'', rdFor = 5 * Minute, rdSeverity = ''warning'',
     rdNotify = [''phone''], rdResolve = True, rdProgram = exampleProgram\<rparr>"

definition exampleDeclarations :: "string \<rightharpoonup> CardDefinition" where
  "exampleDeclarations = [''disk'' \<mapsto> \<lparr>cdHash = ''c'', cdSignals = [''used'' \<mapsto> ''number'']\<rparr>]"

definition exampleCard :: "(CardState \<Rightarrow> CardState) \<Rightarrow> Scalar \<Rightarrow> string \<rightharpoonup> CardState" where
  "exampleCard f v = [''disk'' \<mapsto> f \<lparr>csCardID = ''disk'',
     csDocument = Some (emptyDocument\<lparr>docSignals := [(''used'', \<lparr>sigValue = v, sigUnit = [], sigLevel = []\<rparr>)]\<rparr>),
     csExecution = zeroExecution\<lparr>exState := StateOK\<rparr>, csHistory = []\<rparr>]"

fun hasType :: "string \<Rightarrow> Scalar \<Rightarrow> bool" where
  "hasType declared (SNumber _) \<longleftrightarrow> declared = ''number''"
| "hasType declared (SString _) \<longleftrightarrow> declared = ''string''"
| "hasType declared (SBool _) \<longleftrightarrow> declared = ''boolean''"
| "hasType declared SNil \<longleftrightarrow> False"

text \<open>The card is ok and its document holds the signal with a value of the declared type.\<close>

definition observed :: "(string \<rightharpoonup> CardState) \<Rightarrow> (string \<rightharpoonup> CardDefinition) \<Rightarrow> string \<times> string \<Rightarrow> bool" where
  "observed cards declarations ref \<longleftrightarrow>
     (\<exists>cd doc signal. cards (fst ref) = Some cd \<and> exState (csExecution cd) = StateOK \<and> csDocument cd = Some doc \<and>
        map_of (docSignals doc) (snd ref) = Some signal \<and>
        hasType (declaredType declarations (fst ref) (snd ref)) (sigValue signal))"

lemma typedReading_fresh: "isFresh (typedReading declared v) \<Longrightarrow> hasType declared v"
  by (cases v) (auto simp: typedReading_def split: if_splits)

lemma readSignal_fresh: "isFresh (readSignal cards declarations ref) \<Longrightarrow> observed cards declarations ref"
  by (cases ref) (auto simp: readSignal_def observed_def split: option.splits if_splits intro: typedReading_fresh)

lemma Evaluate_unknown:
  assumes "Evaluate d cards declarations = Inr e" and "exprRun d cards declarations = (calls, out)"
  shows "evalResult e = ResultUnknown \<longleftrightarrow> (\<exists>ref\<in>set calls. \<not> isFresh (readSignal cards declarations ref))"
  using assms by (auto simp: Evaluate_def list_ex_iff split: if_splits sum.splits Scalar.splits)

lemma Evaluate_wrongTypes:
  assumes "Evaluate d cards declarations = Inr e" and "evalWrongTypes e \<noteq> []"
  shows "evalResult e = ResultUnknown"
  using assms by (auto simp: Evaluate_def split: prod.splits if_splits sum.splits Scalar.splits)

text \<open>
  C28. A rule speaks only from fresh data.  The result is unknown exactly when the predicate consulted a
  signal that is not freshly observed; it is true or false only if the expression came out so and every
  signal it consulted is held by the current document of a card in state ok, with a value of the
  declared type.  A signal of the wrong type always makes the result unknown.
\<close>

theorem Evaluate_three_valued:
  assumes "Evaluate d cards declarations = Inr e" and "exprRun d cards declarations = (calls, out)"
  shows "(evalResult e = ResultUnknown \<longleftrightarrow> (\<exists>ref\<in>set calls. \<not> isFresh (readSignal cards declarations ref))) \<and>
         (evalResult e \<noteq> ResultUnknown \<longrightarrow> out = Inr (SBool (evalResult e = ResultTrue)) \<and> evalWrongTypes e = [] \<and>
            (\<forall>ref\<in>set calls. observed cards declarations ref))"
proof -
  have "out = Inr (SBool (evalResult e = ResultTrue)) \<and> evalWrongTypes e = []" if "evalResult e \<noteq> ResultUnknown"
    using that assms by (auto simp: Evaluate_def split: if_splits sum.splits Scalar.splits)
  then show ?thesis using Evaluate_unknown[OF assms] readSignal_fresh by blast
qed

theorem Evaluate_three_valued_witness:
  "Evaluate exampleRule (exampleCard id (SNumber 95)) exampleDeclarations =
     Inr \<lparr>evalResult = ResultTrue, evalWrongTypes = []\<rparr> \<and>
   Evaluate exampleRule (exampleCard id (SString ''95'')) exampleDeclarations =
     Inr \<lparr>evalResult = ResultUnknown, evalWrongTypes = [''disk.used'']\<rparr> \<and>
   snd (exprRun exampleRule (exampleCard id (SNumber 95)) exampleDeclarations) = Inr (SBool True)"
proof -
  have run: "exprRun exampleRule (exampleCard id (SNumber 95)) exampleDeclarations =
      ([(''disk'', ''used'')], snd (exprRun exampleRule (exampleCard id (SNumber 95)) exampleDeclarations))"
    by (simp add: exprRun_def exampleRule_def exampleProgram_def)
  have eval: "Evaluate exampleRule (exampleCard id (SNumber 95)) exampleDeclarations =
     Inr \<lparr>evalResult = ResultTrue, evalWrongTypes = []\<rparr>" by code_simp
  have "Evaluate exampleRule (exampleCard id (SString ''95'')) exampleDeclarations =
     Inr \<lparr>evalResult = ResultUnknown, evalWrongTypes = [''disk.used'']\<rparr>" by code_simp
  then show ?thesis using Evaluate_three_valued[OF eval run] eval by simp
qed

section \<open>Debouncing\<close>

type_synonym evaluations = "(instant \<times> Evaluation) list"


text \<open>The time of the first evaluation of the block of true results the sequence ends in.\<close>

definition trueSince :: "evaluations \<Rightarrow> instant option" where
  "trueSince evs =
     (case takeWhile (\<lambda>(now, e). evalResult e = ResultTrue) (rev evs) of
        [] \<Rightarrow> None
      | xs \<Rightarrow> Some (fst (last xs)))"

text \<open>
  A rule is firing when at some evaluation the predicate had been true at every evaluation for at least
  its \<open>for\<close> duration, and no evaluation since came out false.
\<close>

definition firing :: "RuleDefinition \<Rightarrow> evaluations \<Rightarrow> bool" where
  "firing d evs \<longleftrightarrow> (\<exists>p q t. evs = p @ q \<and> p \<noteq> [] \<and> trueSince p = Some t \<and> t + rdFor d \<le> fst (last p) \<and>
     (\<forall>x\<in>set q. evalResult (snd x) \<noteq> ResultFalse))"

lemma trueSince_Nil [simp]: "trueSince [] = None"
  by (simp add: trueSince_def)


lemma firing_Nil [simp]: "\<not> firing d []"
  by (auto simp: firing_def)



definition sinceAfter :: "RuleState \<Rightarrow> instant \<Rightarrow> Evaluation \<Rightarrow> instant" where
  "sinceAfter st now e = (if evalResult e \<noteq> ResultTrue then zeroTime else if rsSince st = zeroTime then now else rsSince st)"

definition deadlineAfter :: "RuleDefinition \<Rightarrow> RuleState \<Rightarrow> instant \<Rightarrow> Evaluation \<Rightarrow> instant" where
  "deadlineAfter d st now e =
     (if evalResult e \<noteq> ResultTrue then zeroTime
      else if rsSince st = zeroTime then now + rdFor d else rsDeadline st)"

definition firesNow :: "RuleDefinition \<Rightarrow> RuleState \<Rightarrow> instant \<Rightarrow> Evaluation \<Rightarrow> bool" where
  "firesNow d st now e \<longleftrightarrow> evalResult e = ResultTrue \<and> rsFiredAt st = zeroTime \<and> deadlineAfter d st now e \<le> now"

lemma noteWrongTypes_state [simp]:
  "rsSince (trState (noteWrongTypes ident now e st)) = rsSince st"
  "rsDeadline (trState (noteWrongTypes ident now e st)) = rsDeadline st"
  "rsFiredAt (trState (noteWrongTypes ident now e st)) = rsFiredAt st"
  "trAlert (noteWrongTypes ident now e st) = None"
  "trSchedule (noteWrongTypes ident now e st) = False"
  by (simp_all add: noteWrongTypes_def)


lemmas transition_defs = transitionFor_def Let_def startRun_def sinceAfter_def deadlineAfter_def firesNow_def

lemma transition_state:
  "rsSince (trState (transitionFor n d ident now e st)) = sinceAfter st now e"
  "rsDeadline (trState (transitionFor n d ident now e st)) = deadlineAfter d st now e"
  "rsFiredAt (trState (transitionFor n d ident now e st)) =
     (if firesNow d st now e then now else if evalResult e = ResultFalse then zeroTime else rsFiredAt st)"
  "trSchedule (transitionFor n d ident now e st) \<longleftrightarrow>
     evalResult e = ResultTrue \<and> rsFiredAt st = zeroTime \<and> \<not> firesNow d st now e"
  by (cases "evalResult e"; simp add: transition_defs; fail)+



lemma transition_alert:
  "trAlert (transitionFor n d ident now e st) =
     (if firesNow d st now e then alertFor n d ''fired''
      else if rdResolve d \<and> evalResult e = ResultFalse \<and> rsFiredAt st \<noteq> zeroTime then alertFor n d ''resolved''
      else None)"
  by (cases "evalResult e") (simp_all add: transition_defs)








definition trueAt :: Evaluation where
  "trueAt = \<lparr>evalResult = ResultTrue, evalWrongTypes = []\<rparr>"



section \<open>Surviving a restart\<close>

definition storedState :: "ruleTables \<Rightarrow> RuleDefinition \<Rightarrow> RuleState" where
  "storedState t d =
     (case GetRuleState None (rdID d) (rdHash d) t of Inr (Some st) \<Rightarrow> st | _ \<Rightarrow> freshState d)"

definition stateKept :: "ruleTables \<Rightarrow> string \<Rightarrow> RuleDefinition option \<Rightarrow> RuleState option \<Rightarrow> bool" where
  "stateKept t ident def st \<longleftrightarrow>
     (case def of None \<Rightarrow> st = None | Some d \<Rightarrow> rdID d = ident \<and> st = Some (storedState t d))"

definition allKept :: "RuleManager \<Rightarrow> ruleTables \<Rightarrow> bool" where
  "allKept m t \<longleftrightarrow> (\<forall>ident. stateKept t ident (rmDefinitions m ident) (rmStates m ident))"

lemma orZero_nullTime [simp]: "orZero (nullTime t) = t"
  by (simp add: orZero_def nullTime_def)

lemma GetRuleState_put:
  "rsRuleID st = ident \<Longrightarrow> rsRuleHash st = hash \<Longrightarrow> GetRuleState None ident hash (putRuleState st t) = Inr (Some st)"
  by (cases st) (auto simp: GetRuleState_def putRuleState_def)

lemma GetRuleState_other:
  "rtRules t' ident = rtRules t ident \<Longrightarrow> GetRuleState db ident hash t' = GetRuleState db ident hash t"
  by (simp add: GetRuleState_def split: option.split)

lemma restoreRules_states:
  assumes "restoreRules db defs t (ds, sts) = Inr (ds', sts')" and "\<And>ident. stateKept t ident (ds ident) (sts ident)"
  shows "stateKept t ident (ds' ident) (sts' ident)"
  using assms
proof (induction defs arbitrary: ds sts)
  case (Cons d defs)
  have fresh: "ds (rdID d) = None" using Cons.prems(1) by (simp split: if_splits)
  then obtain found where found: "GetRuleState (db (rdID d)) (rdID d) (rdHash d) t = Inr found"
    using Cons.prems(1) by (auto split: sum.splits if_splits)
  then have "GetRuleState None (rdID d) (rdHash d) t = Inr found"
    by (cases "db (rdID d)") (auto simp: GetRuleState_def)
  then have st: "(case found of None \<Rightarrow> freshState d | Some st \<Rightarrow> st) = storedState t d"
    by (auto simp: storedState_def split: option.splits)
  show ?case
  proof (rule Cons.IH)
    show "restoreRules db defs t (ds(rdID d \<mapsto> d), sts(rdID d \<mapsto> storedState t d)) = Inr (ds', sts')"
      using Cons.prems(1) fresh found st by simp
    show "stateKept t ident ((ds(rdID d \<mapsto> d)) ident) ((sts(rdID d \<mapsto> storedState t d)) ident)" for ident
      using Cons.prems(2)[of ident] by (cases "ident = rdID d") (auto simp: stateKept_def)
  qed
qed simp

lemma ApplyRules_kept: "ApplyRules db defs decls t m = (None, m') \<Longrightarrow> allKept m' t"
  using restoreRules_states[of db defs t Map.empty Map.empty]
  by (fastforce simp: ApplyRules_def allKept_def stateKept_def[of t _ None None] split: sum.splits prod.splits)

lemma transition_identity:
  "rsRuleID (trState (transitionFor n d ident now e st)) = ident"
  "rsRuleHash (trState (transitionFor n d ident now e st)) = rdHash d"
  "rsLastResult (trState (transitionFor n d ident now e st)) = evalResult e"
  by (simp_all add: transitionFor_def Let_def)

lemma transitionTx_Inr:
  assumes "transitionTx now v event rqs t = Inr (wake, t')"
  shows "\<exists>a. t' = putRuleState v (t\<lparr>rtAlerts := a\<rparr>)"
proof -
  obtain w s where s: "enqueueAll rqs (rtAlerts t) = Inr (w, s)"
    using assms by (auto simp: transitionTx_def split: sum.splits)
  show ?thesis
  proof (cases event)
    case None
    then show ?thesis using assms s by (auto simp: transitionTx_def)
  next
    case (Some ev)
    then show ?thesis using assms s by (cases "appendEventTx now ev s") (auto simp: transitionTx_def)
  qed
qed

lemma CommitRuleTransition_cases:
  assumes "CommitRuleTransition db now v event rqs t = (res, t')"
  shows "(\<exists>err. res = Inl err) \<and> t' = t \<or> (\<exists>wake a. res = Inr wake \<and> t' = putRuleState v (t\<lparr>rtAlerts := a\<rparr>))"
  using assms transitionTx_Inr[of now v event rqs t]
  by (fastforce simp: CommitRuleTransition_def split: option.splits sum.splits prod.splits)

text \<open>One evaluation: nothing, a failure that keeps the tables and the states, or a committed transition.\<close>

lemma evaluateLocked_cases:
  assumes "evaluateLocked db now ident cards (m, t) = (res, m', t')"
  obtains (failed) "t' = t" "rmStates m' = rmStates m" "rmDefinitions m' = rmDefinitions m"
      "rmDeclarations m' = rmDeclarations m" "rmNotify m' = rmNotify m" "rmActive m' = rmActive m"
      "rmDefinitions m ident = None \<or> res \<noteq> None"
      "\<And>other. other \<noteq> ident \<Longrightarrow> rmTimers m' other = rmTimers m other"
  | (committed) d e tr a where "rmDefinitions m ident = Some d" "Evaluate d cards (rmDeclarations m) = Inr e"
      "tr = transitionFor (rmNotify m \<noteq> None) d ident now e (stateFor m ident)" "res = None"
      "m' = (rearm d ident tr m)\<lparr>rmStates := (rmStates m)(ident \<mapsto> trState tr)\<rparr>"
      "t' = putRuleState (trState tr) (t\<lparr>rtAlerts := a\<rparr>)"
proof (cases "rmDefinitions m ident")
  case None
  then show thesis using assms failed by (simp add: evaluateLocked_def)
next
  case (Some d)
  show thesis
  proof (cases "Evaluate d cards (rmDeclarations m)")
    case (Inl err)
    then show thesis using assms Some failed by (auto simp: evaluateLocked_def)
  next
    case (Inr e)
    define tr where "tr = transitionFor (rmNotify m \<noteq> None) d ident now e (stateFor m ident)"
    have notify: "rmNotify (rearm d ident tr m) = rmNotify m" by (simp add: rearm_def)
    show thesis
    proof (cases "prepareAlert (rmNotify m) (trAlert tr) now")
      case (Inl err)
      then show thesis using assms Some Inr failed tr_def notify by (auto simp: evaluateLocked_def Let_def rearm_def)
    next
      case (Inr rqs)
      obtain out t1 where c: "CommitRuleTransition db now (trState tr) (trEvent tr) rqs t = (out, t1)"
        by (cases "CommitRuleTransition db now (trState tr) (trEvent tr) rqs t")
      have states: "rmStates (rearm d ident tr m) = rmStates m" by (simp add: rearm_def)
      have res: "(res, m', t') = (case out of Inl err \<Rightarrow> (Some (AlertFailed err), rearm d ident tr m, t1)
          | Inr wake \<Rightarrow> (None, (rearm d ident tr m)\<lparr>rmStates := (rmStates m)(ident \<mapsto> trState tr)\<rparr>, t1))"
        using assms unfolding evaluateLocked_def Let_def
        by (simp only: prod.case Some option.case \<open>Evaluate d cards (rmDeclarations m) = Inr e\<close> sum.case
            tr_def[symmetric] notify Inr c states)
      from CommitRuleTransition_cases[OF c] show thesis
      proof (elim disjE conjE exE)
        fix err assume "out = Inl err" "t1 = t"
        then show thesis using failed res by (simp add: rearm_def)
      next
        fix wake a assume "out = Inr wake" "t1 = putRuleState (trState tr) (t\<lparr>rtAlerts := a\<rparr>)"
        then show thesis using committed[OF Some \<open>Evaluate d cards (rmDeclarations m) = Inr e\<close> tr_def] res by simp
      qed
    qed
  qed
qed


lemma storedState_put:
  "rsRuleID st = rdID d \<Longrightarrow> rsRuleHash st = rdHash d \<Longrightarrow> storedState (putRuleState st t) d = st"
  by (simp add: storedState_def GetRuleState_put)

lemma storedState_other:
  "rtRules t' (rdID d) = rtRules t (rdID d) \<Longrightarrow> storedState t' d = storedState t d"
  unfolding storedState_def by (simp add: GetRuleState_other[of t' "rdID d" t])

lemma stateKept_simps [simp]:
  "stateKept t ident None st \<longleftrightarrow> st = None"
  "stateKept t ident (Some d) st \<longleftrightarrow> rdID d = ident \<and> st = Some (storedState t d)"
  by (simp_all add: stateKept_def)

lemma stateKept_tables:
  assumes "stateKept t ident def st" and "rtRules t' ident = rtRules t ident"
  shows "stateKept t' ident def st"
  using assms storedState_other[of t' _ t] by (cases "def") auto

lemma allKeptD: "allKept m t \<Longrightarrow> stateKept t ident (rmDefinitions m ident) (rmStates m ident)"
  by (simp add: allKept_def)

lemma evaluateLocked_kept:
  assumes "evaluateLocked db now ident cards (m, t) = (res, m', t')" and "allKept m t"
  shows "allKept m' t' \<and> rmDefinitions m' = rmDefinitions m"
  using assms(1)
proof (cases rule: evaluateLocked_cases)
  case failed
  then show ?thesis using assms(2) by (simp add: allKept_def)
next
  case (committed d e tr a)
  have defs: "rmDefinitions m' = rmDefinitions m" using committed(5) by (simp add: rearm_def)
  have "stateKept t' other (rmDefinitions m other) (rmStates m' other)" for other
  proof (cases "other = ident")
    case True
    have "rdID d = ident" using allKeptD[OF assms(2), of ident] committed(1) by simp
    then have "storedState t' d = trState tr"
      unfolding committed(6) by (intro storedState_put) (simp_all add: committed(3) transition_identity)
    then show ?thesis using True committed(1,5) \<open>rdID d = ident\<close> by simp
  next
    case False
    have "rmStates m' other = rmStates m other" using False committed(5) by simp
    moreover have "rtRules t' other = rtRules t other"
      using False unfolding committed(6) putRuleState_def committed(3) by (simp add: transition_identity)
    ultimately show ?thesis using stateKept_tables[OF allKeptD[OF assms(2), of other]] by simp
  qed
  then show ?thesis using defs by (simp add: allKept_def)
qed

lemma evaluateLoop_kept:
  "evaluateLoop cards order (m, t) = (res, m', t') \<Longrightarrow> allKept m t \<Longrightarrow> allKept m' t' \<and> rmDefinitions m' = rmDefinitions m"
proof (induction order arbitrary: m t)
  case (Cons x order)
  obtain ident now db where x: "x = (ident, now, db)" by (cases x)
  obtain out m1 t1 where one: "evaluateLocked db now ident cards (m, t) = (out, m1, t1)"
    by (cases "evaluateLocked db now ident cards (m, t)")
  note kept = evaluateLocked_kept[OF one Cons.prems(2)]
  show ?case
  proof (cases out)
    case None
    then have "evaluateLoop cards order (m1, t1) = (res, m', t')" using Cons.prems(1) x one by simp
    then show ?thesis using Cons.IH kept by auto
  next
    case (Some err)
    then show ?thesis using Cons.prems(1) x one kept by simp
  qed
qed simp

text \<open>A run of the manager between two configurations: evaluations on card changes and on timers.\<close>

datatype ruleStep =
    OnUpdate "string \<rightharpoonup> CardState" "(string \<times> instant \<times> string option) list"
  | OnTimer string string "string \<rightharpoonup> CardState" "(string \<times> instant \<times> string option) list"
  | OnEvaluate "string \<rightharpoonup> CardState" "(string \<times> instant \<times> string option) list"

fun runStep :: "ruleStep \<Rightarrow> RuleManager \<times> ruleTables \<Rightarrow> RuleManager \<times> ruleTables" where
  "runStep (OnUpdate cards order) mt = snd (evaluateAll cards order mt)"
| "runStep (OnTimer ident hash cards order) mt = snd (timerFires ident hash cards order mt)"
| "runStep (OnEvaluate cards order) mt = snd (EvaluateRules cards order mt)"

lemma evaluateAll_kept:
  assumes "allKept m t" and "snd (evaluateAll cards order (m, t)) = (m', t')"
  shows "allKept m' t' \<and> rmDefinitions m' = rmDefinitions m"
proof -
  obtain res mt where "evaluateAll cards order (m, t) = (res, mt)" by (cases "evaluateAll cards order (m, t)")
  then show ?thesis using assms evaluateLoop_kept[of cards order m t res m' t']
    by (auto simp: evaluateAll_def split: if_splits)
qed

lemma runStep_kept:
  assumes "allKept m t" and "runStep step (m, t) = (m', t')"
  shows "allKept m' t' \<and> rmDefinitions m' = rmDefinitions m"
proof (cases step)
  case (OnUpdate cards order)
  then show ?thesis using evaluateAll_kept assms by simp
next
  case (OnTimer ident hash cards order)
  then show ?thesis using evaluateAll_kept[of m t cards order m' t'] assms
    by (auto simp: timerFires_def split: option.splits if_splits)
next
  case (OnEvaluate cards order)
  have "allKept (m\<lparr>rmActive := True\<rparr>) t" using assms(1) by (simp add: allKept_def)
  then show ?thesis using evaluateAll_kept[of "m\<lparr>rmActive := True\<rparr>" t cards order m' t'] assms OnEvaluate
    by (simp add: EvaluateRules_def)
qed

lemma runSteps_kept:
  "allKept m t \<Longrightarrow> fold runStep steps (m, t) = (m', t') \<Longrightarrow> allKept m' t' \<and> rmDefinitions m' = rmDefinitions m"
proof (induction steps arbitrary: m t)
  case (Cons step steps)
  obtain m1 t1 where one: "runStep step (m, t) = (m1, t1)" by (cases "runStep step (m, t)")
  show ?case using runStep_kept[OF Cons.prems(1) one] Cons.IH[of m1 t1] Cons.prems(2) one by simp
qed simp

lemma GetRuleState_ok: "\<exists>found. GetRuleState None ident hash t = Inr found"
  by (auto simp: GetRuleState_def split: option.split)

lemma restoreRules_defs:
  assumes "restoreRules db defs t (ds, sts) = Inr (ds', sts')"
  shows "\<exists>sts''. restoreRules (\<lambda>_. None) defs t' (ds, sts2) = Inr (ds', sts'')"
  using assms
proof (induction defs arbitrary: ds sts sts2)
  case (Cons d defs)
  have fresh: "ds (rdID d) = None" using Cons.prems by (simp split: if_splits)
  then obtain sts1 where "restoreRules db defs t (ds(rdID d \<mapsto> d), sts1) = Inr (ds', sts')"
    using Cons.prems by (auto split: sum.splits)
  moreover obtain found where "GetRuleState None (rdID d) (rdHash d) t' = Inr found"
    using GetRuleState_ok by blast
  ultimately show ?case using Cons.IH fresh by simp
qed simp

text \<open>
  C12. Rules survive a restart.  Start the manager on a configuration, let it evaluate on any sequence of
  card changes and timers - with commits that succeed or fail -, and start a new process on the same
  configuration and database: it has exactly the states the old one had in memory, so a running
  duration continues from its start and a rule that fired does not fire again.
\<close>

theorem rules_survive_restart:
  assumes "ApplyRules db defs declarations t m0 = (None, m)"
    and "fold runStep steps (m, t) = (m', t')"
  shows "\<exists>m''. ApplyRules (\<lambda>_. None) defs declarations t' (NewRules notifier) = (None, m'') \<and>
           rmStates m'' = rmStates m' \<and> rmDefinitions m'' = rmDefinitions m'"
proof -
  obtain ds sts where restored: "restoreRules db defs t (Map.empty, Map.empty) = Inr (ds, sts)" "rmDefinitions m = ds"
    using assms(1) by (auto simp: ApplyRules_def split: sum.splits prod.splits)
  have kept: "allKept m' t'" "rmDefinitions m' = ds"
    using runSteps_kept[OF ApplyRules_kept[OF assms(1)] assms(2)] restored(2) by auto
  obtain sts' where again: "restoreRules (\<lambda>_. None) defs t' (Map.empty, Map.empty) = Inr (ds, sts')"
    using restoreRules_defs[OF restored(1)] by blast
  define m'' where "m'' = (NewRules notifier)\<lparr>rmDefinitions := ds, rmDeclarations := declarations, rmStates := sts',
    rmTimers := Map.empty, rmActive := False\<rparr>"
  have new: "ApplyRules (\<lambda>_. None) defs declarations t' (NewRules notifier) = (None, m'')"
    using again by (simp add: ApplyRules_def m''_def)
  have "sts' ident = rmStates m' ident" for ident
  proof -
    have a: "stateKept t' ident (ds ident) (sts' ident)"
      by (rule restoreRules_states[OF again]) (simp add: stateKept_def)
    have b: "stateKept t' ident (ds ident) (rmStates m' ident)"
      using kept unfolding allKept_def by metis
    show ?thesis using a b by (cases "ds ident") (auto simp: stateKept_def)
  qed
  then show ?thesis using new kept(2) by (intro exI[of _ m'']) (auto simp: m''_def)
qed


definition exampleManagerRules :: RuleManager where
  "exampleManagerRules = (NewRules None)\<lparr>rmDefinitions := [''full'' \<mapsto> exampleRule],
     rmDeclarations := exampleDeclarations, rmStates := [''full'' \<mapsto> freshState exampleRule]\<rparr>"

definition emptyRuleTables :: ruleTables where
  "emptyRuleTables = \<lparr>rtAlerts = emptyTables, rtRules = Map.empty\<rparr>"

lemma exampleManagerRules_applied:
  "ApplyRules (\<lambda>_. None) [exampleRule] exampleDeclarations emptyRuleTables (NewRules None) = (None, exampleManagerRules)"
  by (simp add: ApplyRules_def GetRuleState_def emptyRuleTables_def exampleManagerRules_def exampleRule_def NewRules_def)

theorem rules_survive_restart_witness:
  "\<exists>m' t' m''. fold runStep [OnEvaluate (exampleCard id (SNumber 95)) [(''full'', 0, None)]]
       (exampleManagerRules, emptyRuleTables) = (m', t') \<and>
     map_option rsSince (rmStates m' ''full'') = Some 0 \<and>
     ApplyRules (\<lambda>_. None) [exampleRule] exampleDeclarations t' (NewRules None) = (None, m'') \<and>
     rmStates m'' = rmStates m'"
proof -
  obtain m' t' where run: "fold runStep [OnEvaluate (exampleCard id (SNumber 95)) [(''full'', 0, None)]]
      (exampleManagerRules, emptyRuleTables) = (m', t')"
    by (cases "fold runStep [OnEvaluate (exampleCard id (SNumber 95)) [(''full'', 0, None)]]
      (exampleManagerRules, emptyRuleTables)")
  have "map_option rsSince (rmStates (fst (fold runStep [OnEvaluate (exampleCard id (SNumber 95)) [(''full'', 0, None)]]
      (exampleManagerRules, emptyRuleTables))) ''full'') = Some 0" by code_simp
  then have "map_option rsSince (rmStates m' ''full'') = Some 0" unfolding run by simp
  then show ?thesis using rules_survive_restart[OF exampleManagerRules_applied run] run by blast
qed

section \<open>Wake-ups\<close>

definition armed :: "RuleManager \<Rightarrow> string \<Rightarrow> bool" where
  "armed m ident \<longleftrightarrow>
     (\<forall>d st. rmDefinitions m ident = Some d \<and> rmStates m ident = Some st \<and> rsLastResult st = ResultTrue \<and>
        rsFiredAt st = zeroTime \<longrightarrow> rmTimers m ident = Some (rdHash d, rsDeadline st))"

lemma armed_cong:
  assumes "rmDefinitions m' ident = rmDefinitions m ident" "rmStates m' ident = rmStates m ident"
    "rmTimers m' ident = rmTimers m ident"
  shows "armed m' ident = armed m ident"
  using assms by (simp add: armed_def)

lemma evaluateLocked_armed:
  assumes "evaluateLocked db now ident cards (m, t) = (None, m', t')" and "now \<noteq> zeroTime"
  shows "armed m' ident \<and> (\<forall>other. other \<noteq> ident \<longrightarrow> armed m other \<longrightarrow> armed m' other)"
  using assms(1)
proof (cases rule: evaluateLocked_cases)
  case failed
  have "armed m' other = armed m other" if "other \<noteq> ident" for other
    by (rule armed_cong) (use failed that in simp_all)
  then show ?thesis using failed by (simp add: armed_def)
next
  case (committed d e tr a)
  have "trSchedule tr" if "rsLastResult (trState tr) = ResultTrue" "rsFiredAt (trState tr) = zeroTime"
    using that assms(2) by (auto simp: committed(3) transition_state transition_identity split: if_splits)
  then have "armed m' ident" using committed(1,5) by (auto simp: armed_def rearm_def)
  moreover have "armed m' other" if "other \<noteq> ident" "armed m other" for other
    using that armed_cong[of m' other m] committed(5) by (simp add: rearm_def)
  ultimately show ?thesis by blast
qed

lemma evaluateLoop_armed:
  assumes "evaluateLoop cards order (m, t) = (None, m', t')" and "\<forall>x\<in>set order. fst (snd x) \<noteq> zeroTime"
    and "ident \<in> fst ` set order \<or> armed m ident"
  shows "armed m' ident"
  using assms
proof (induction order arbitrary: m t)
  case (Cons x order)
  obtain i now db where x: "x = (i, now, db)" by (cases x)
  obtain out m1 t1 where one: "evaluateLocked db now i cards (m, t) = (out, m1, t1)"
    by (cases "evaluateLocked db now i cards (m, t)")
  then have "out = None" and rest: "evaluateLoop cards order (m1, t1) = (None, m', t')"
    using Cons.prems(1) x by (auto split: option.splits)
  have "now \<noteq> zeroTime" using Cons.prems(2) x by simp
  then have "armed m1 i" "\<And>other. other \<noteq> i \<Longrightarrow> armed m other \<Longrightarrow> armed m1 other"
    using evaluateLocked_armed one \<open>out = None\<close> by blast+
  then have "ident \<in> fst ` set order \<or> armed m1 ident" using Cons.prems(3) x by (cases "ident = i") auto
  then show ?case using Cons.IH[OF rest] Cons.prems(2) by simp
qed simp

text \<open>
  C37. No deadline depends on traffic: after an evaluation of all rules that went through, every rule
  whose predicate is true and that has not fired yet has a timer set to its deadline.
\<close>

theorem pending_rules_armed:
  assumes "evaluateAll cards order (m, t) = (None, m', t')" and "rmActive m"
    and "\<forall>x\<in>set order. fst (snd x) \<noteq> zeroTime" and "dom (rmDefinitions m) \<subseteq> fst ` set order"
    and "rmDefinitions m ident = Some d" and "rmStates m' ident = Some st" and "rmDefinitions m' ident = Some d"
    and "rsLastResult st = ResultTrue" and "rsFiredAt st = zeroTime"
  shows "rmTimers m' ident = Some (rdHash d, rsDeadline st)"
proof -
  have "evaluateLoop cards order (m, t) = (None, m', t')" using assms(1,2) by (simp add: evaluateAll_def)
  moreover have "ident \<in> fst ` set order" using assms(4,5) by blast
  ultimately have "armed m' ident" using evaluateLoop_armed[OF _ assms(3)] by blast
  then show ?thesis using assms(6-9) unfolding armed_def by blast
qed

definition exampleRun :: "ruleError option \<times> RuleManager \<times> ruleTables" where
  "exampleRun = evaluateAll (exampleCard id (SNumber 95)) [(''full'', 0, None)]
     (exampleManagerRules\<lparr>rmActive := True\<rparr>, emptyRuleTables)"

definition exampleWaiting :: RuleState where
  "exampleWaiting = (freshState exampleRule)\<lparr>rsLastResult := ResultTrue, rsSince := 0, rsDeadline := 5 * Minute\<rparr>"

theorem pending_rules_armed_witness:
  "rmTimers (fst (snd exampleRun)) ''full'' = Some (''h'', 5 * Minute)"
proof -
  have "fst exampleRun = None" by code_simp
  then have run: "evaluateAll (exampleCard id (SNumber 95)) [(''full'', 0, None)]
      (exampleManagerRules\<lparr>rmActive := True\<rparr>, emptyRuleTables) = (None, fst (snd exampleRun), snd (snd exampleRun))"
    unfolding exampleRun_def[symmetric] by (auto simp: prod_eq_iff)
  have st: "rmStates (fst (snd exampleRun)) ''full'' = Some exampleWaiting" by code_simp
  have kept: "allKept (exampleManagerRules\<lparr>rmActive := True\<rparr>) emptyRuleTables"
    using ApplyRules_kept[OF exampleManagerRules_applied] by (simp add: allKept_def)
  have defs: "rmDefinitions (fst (snd exampleRun)) ''full'' = Some exampleRule"
    using evaluateAll_kept[OF kept, of "exampleCard id (SNumber 95)" "[(''full'', 0, None)]"
        "fst (snd exampleRun)" "snd (snd exampleRun)"] unfolding run
    by (simp add: exampleManagerRules_def)
  have "rmTimers (fst (snd exampleRun)) ''full'' = Some (rdHash exampleRule, rsDeadline exampleWaiting)"
    by (rule pending_rules_armed[OF run _ _ _ _ st defs])
      (simp_all add: exampleManagerRules_def exampleWaiting_def freshState_def zeroTime_def Second_def)
  then show ?thesis by (simp add: exampleRule_def exampleWaiting_def)
qed

text \<open>
  A commit that fails when a rule would fire loses the wake-up: the timer is gone, the state still
  waits for the deadline, and nothing evaluates the rule until a card changes.
\<close>

theorem failed_commit_loses_wakeup:
  assumes "rmDefinitions m ident = Some d" and "Evaluate d cards (rmDeclarations m) = Inr e"
    and "evalResult e = ResultTrue" and "rmStates m ident = Some st" and "rsSince st \<noteq> zeroTime"
    and "rsFiredAt st = zeroTime" and "rsDeadline st \<le> now"
    and "evaluateLocked (Some err) now ident cards (m, t) = (res, m', t')"
  shows "res \<noteq> None \<and> rmTimers m' ident = None \<and> rmStates m' = rmStates m \<and> t' = t"
  using assms(8)
proof (cases rule: evaluateLocked_cases)
  case failed
  define tr where "tr = transitionFor (rmNotify m \<noteq> None) d ident now e (stateFor m ident)"
  have "stateFor m ident = st" using assms(4) by (simp add: stateFor_def)
  then have "firesNow d st now e" using assms(3,5-7) by (simp add: firesNow_def deadlineAfter_def)
  then have sched: "\<not> trSchedule tr" using \<open>stateFor m ident = st\<close> by (simp add: tr_def transition_state)
  have "m' = rearm d ident tr m"
    using assms(8) unfolding evaluateLocked_def Let_def
    by (simp only: prod.case assms(1,2) option.case sum.case tr_def[symmetric])
      (auto simp: CommitRuleTransition_def split: option.splits sum.splits prod.splits)
  then show ?thesis using failed assms(1) sched by (auto simp: rearm_def)
next
  case (committed d' e' tr a)
  then show ?thesis
    using assms(8) by (auto simp: evaluateLocked_def Let_def CommitRuleTransition_def split: option.splits sum.splits prod.splits)
qed


definition exampleLost :: "ruleError option \<times> RuleManager \<times> ruleTables" where
  "exampleLost = evaluateLocked (Some ''disk full'') (5 * Minute) ''full'' (exampleCard id (SNumber 95))
     (exampleManagerRules\<lparr>rmStates := [''full'' \<mapsto> exampleWaiting], rmTimers := [''full'' \<mapsto> (''h'', 5 * Minute)]\<rparr>,
      emptyRuleTables)"

theorem failed_commit_loses_wakeup_witness:
  "rmTimers (fst (snd exampleLost)) ''full'' = None \<and> rmStates (fst (snd exampleLost)) ''full'' = Some exampleWaiting"
proof -
  have eval: "Evaluate exampleRule (exampleCard id (SNumber 95)) exampleDeclarations = Inr trueAt" by code_simp
  have run: "evaluateLocked (Some ''disk full'') (5 * Minute) ''full'' (exampleCard id (SNumber 95))
     (exampleManagerRules\<lparr>rmStates := [''full'' \<mapsto> exampleWaiting], rmTimers := [''full'' \<mapsto> (''h'', 5 * Minute)]\<rparr>,
      emptyRuleTables) = (fst exampleLost, fst (snd exampleLost), snd (snd exampleLost))"
    by (simp add: exampleLost_def)
  have waiting: "rsSince exampleWaiting \<noteq> zeroTime" "rsFiredAt exampleWaiting = zeroTime" "rsDeadline exampleWaiting \<le> 5 * Minute"
    by (simp_all add: exampleWaiting_def freshState_def zeroTime_def Second_def)
  show ?thesis
    using failed_commit_loses_wakeup[OF _ _ _ _ waiting run, of exampleRule trueAt] eval
    by (simp add: exampleManagerRules_def trueAt_def)
qed

section \<open>Load-time references\<close>

fun nodeLiterals :: "exprNode \<Rightarrow> string list" where
  "nodeLiterals (CallNode callee args) = map the (filter (\<lambda>a. a \<noteq> None) args)"
| "nodeLiterals OtherNode = []"

definition plainLiterals :: "exprNode list \<Rightarrow> bool" where
  "plainLiterals nodes \<longleftrightarrow> (\<forall>node\<in>set nodes. \<forall>s\<in>set (nodeLiterals node). NUL \<notin> set s)"

lemma splitReference_signal: "NUL \<notin> set c \<Longrightarrow> splitReference (c @ NUL # n) = (c, n)"
  by (induction c) auto

lemma splitReference_state: "NUL \<notin> set c \<Longrightarrow> splitReference c = (c, [])"
  by (induction c) auto

definition kindsMatch :: "refs \<Rightarrow> bool" where
  "kindsMatch v \<longleftrightarrow> (\<forall>(ref, kind)\<in>set (rfCards v). kind = (if NUL \<in> set ref then ''signal'' else ''state'')) \<and>
     distinct (map fst (rfCards v))"

lemma update_set: "distinct (map fst xs) \<Longrightarrow> set (AList.update k v xs) = insert (k, v) {x \<in> set xs. fst x \<noteq> k}"
  by (induction xs) force+

lemma kindsMatch_update:
  assumes "kindsMatch v" and "kind = (if NUL \<in> set ref then ''signal'' else ''state'')"
  shows "kindsMatch (v\<lparr>rfCards := AList.update ref kind (rfCards v)\<rparr>)"
  using assms by (auto simp: kindsMatch_def update_set distinct_update)

text \<open>The reference a well-formed call adds; a malformed one leaves an error that stays.\<close>

definition refersTo :: "exprNode \<Rightarrow> string \<times> string \<Rightarrow> bool" where
  "refersTo node x \<longleftrightarrow>
     (\<exists>c n. node = CallNode (Some ''signal'') [Some c, Some n] \<and> x = (c @ NUL # n, ''signal'')) \<or>
     (\<exists>c. node = CallNode (Some ''state'') [Some c] \<and> x = (c, ''state''))"

lemma args_two: "length args = 2 \<Longrightarrow> None \<notin> set args \<Longrightarrow> \<exists>c n. args = [Some c, Some n]"
  by (cases args; cases "hd args"; cases "tl args"; cases "hd (tl args)") auto

lemma args_one: "length args = Suc 0 \<Longrightarrow> None \<notin> set args \<Longrightarrow> \<exists>c. args = [Some c]"
  by (cases args; cases "hd args") auto

lemma Visit_cases:
  "Visit node v = v \<and> (\<forall>x. \<not> refersTo node x) \<or> rfErr (Visit node v) \<noteq> None \<or>
   (\<exists>ref kind. refersTo node (ref, kind) \<and> Visit node v = v\<lparr>rfCards := AList.update ref kind (rfCards v)\<rparr>)"
proof (cases node)
  case (CallNode callee args)
  show ?thesis
  proof (cases callee)
    case None
    then show ?thesis using CallNode by (simp add: Visit_def refersTo_def)
  next
    case (Some f)
    consider "f = ''signal''" | "f = ''state''" | "f \<noteq> ''signal''" "f \<noteq> ''state''" by blast
    then show ?thesis
    proof cases
      case 1
      then show ?thesis using CallNode Some args_two[of args] by (auto simp: Visit_def Let_def refersTo_def)
    next
      case 2
      then show ?thesis using CallNode Some args_one[of args] by (auto simp: Visit_def Let_def refersTo_def)
    next
      case 3
      then show ?thesis using CallNode Some by (simp add: Visit_def refersTo_def)
    qed
  qed
qed (simp add: Visit_def refersTo_def)

lemma Visit_err: "rfErr v \<noteq> None \<Longrightarrow> rfErr (Visit node v) \<noteq> None"
  by (cases node) (auto simp: Visit_def Let_def split: option.splits)

lemma fold_Visit_err: "rfErr v \<noteq> None \<Longrightarrow> rfErr (fold Visit nodes v) \<noteq> None"
proof (induction nodes arbitrary: v)
  case (Cons node nodes)
  then show ?case using Visit_err[of v node] by (simp del: not_None_eq)
qed simp

lemma fold_Visit_ok: "rfErr (fold Visit nodes v) = None \<Longrightarrow> rfErr v = None"
  using fold_Visit_err by blast

lemma refersTo_kind:
  assumes "refersTo node (ref, kind)" and "\<forall>s\<in>set (nodeLiterals node). NUL \<notin> set s"
  shows "kind = (if NUL \<in> set ref then ''signal'' else ''state'')"
  using assms unfolding refersTo_def by (elim disjE exE conjE) simp_all

lemma refersTo_unique: "refersTo node x \<Longrightarrow> refersTo node y \<Longrightarrow> x = y"
  unfolding refersTo_def by (elim disjE exE conjE) simp_all

lemma Walk_refs:
  assumes "rfErr (fold Visit nodes v) = None" and "plainLiterals nodes" and "kindsMatch v"
  shows "kindsMatch (fold Visit nodes v) \<and>
    (\<forall>x. x \<in> set (rfCards v) \<or> (\<exists>node\<in>set nodes. refersTo node x) \<longrightarrow> x \<in> set (rfCards (fold Visit nodes v)))"
  using assms
proof (induction nodes arbitrary: v)
  case (Cons node nodes)
  have lits: "\<forall>s\<in>set (nodeLiterals node). NUL \<notin> set s" and rest: "plainLiterals nodes"
    using Cons.prems(2) by (auto simp: plainLiterals_def)
  have noerr: "rfErr (Visit node v) = None" using Cons.prems(1) fold_Visit_ok by simp
  consider "Visit node v = v" "\<forall>x. \<not> refersTo node x"
    | ref kind where "refersTo node (ref, kind)" "Visit node v = v\<lparr>rfCards := AList.update ref kind (rfCards v)\<rparr>"
    using Visit_cases[of node v] noerr by blast
  then show ?case
  proof cases
    case 1
    then show ?thesis using Cons.IH[of v] Cons.prems rest by simp
  next
    case (2 ref kind)
    note kind = refersTo_kind[OF 2(1) lits]
    have km: "kindsMatch (Visit node v)" unfolding 2(2) by (rule kindsMatch_update[OF Cons.prems(3) kind])
    have "set (rfCards v) \<subseteq> set (rfCards (Visit node v))" "(ref, kind) \<in> set (rfCards (Visit node v))"
      using Cons.prems(3) kind unfolding 2(2) by (auto simp: update_set kindsMatch_def)
    then show ?thesis using Cons.IH[OF _ rest km] Cons.prems(1) refersTo_unique[OF 2(1)] by auto
  qed
qed simp

lemma checkRefs_ok:
  assumes "checkRefs cards rs hashes = Inr hashes'" and "(ref, kind) \<in> set rs"
  shows "\<exists>cd. cards (fst (splitReference ref)) = Some cd \<and>
     (kind = ''signal'' \<longrightarrow> cdSignals cd (snd (splitReference ref)) \<noteq> None)"
  using assms by (induction cards rs hashes rule: checkRefs.induct) (auto split: prod.splits option.splits if_splits)

text \<open>
  A rule that compiles refers only to what the manifests declare: every \<open>signal\<close> call of its
  expression has two literal arguments that name a configured card and a signal that card declares,
  every \<open>state\<close> call one literal argument that names a configured card - for literals without a NUL
  byte, which the checker uses as its separator.
\<close>

theorem Compile_references_declared:
  assumes "Compile co rule cards = Inr d" and "coParse co (ruWhen rule) = Inr nodes" and "plainLiterals nodes"
    and "CallNode (Some callee) args \<in> set nodes" and "callee = ''signal'' \<or> callee = ''state''"
  shows "(\<exists>c n cd. callee = ''signal'' \<and> args = [Some c, Some n] \<and> cards c = Some cd \<and> cdSignals cd n \<noteq> None) \<or>
         (\<exists>c cd. callee = ''state'' \<and> args = [Some c] \<and> cards c = Some cd)"
proof -
  obtain hashes where ok: "rfErr (Walk nodes) = None" "checkRefs cards (rfCards (Walk nodes)) Map.empty = Inr hashes"
    using assms(1,2) by (auto simp: Compile_def split: option.splits sum.splits)
  let ?start = "\<lparr>rfCards = [], rfErr = None\<rparr> :: refs"
  have walk: "\<And>x. (\<exists>node\<in>set nodes. refersTo node x) \<Longrightarrow> x \<in> set (rfCards (Walk nodes))"
    using Walk_refs[of nodes ?start] ok(1) assms(3) unfolding Walk_def by (auto simp: kindsMatch_def)
  obtain pre post where nodes: "nodes = pre @ CallNode (Some callee) args # post"
    using split_list[OF assms(4)] by blast
  have "rfErr (Visit (CallNode (Some callee) args) (fold Visit pre ?start)) = None"
    using ok(1) fold_Visit_ok unfolding Walk_def nodes by simp
  then have "\<exists>x. refersTo (CallNode (Some callee) args) x"
    using assms(5) args_two[of args] args_one[of args] by (auto simp: Visit_def Let_def refersTo_def split: if_splits)
  then obtain ref kind where ref: "refersTo (CallNode (Some callee) args) (ref, kind)" by auto
  then have "(ref, kind) \<in> set (rfCards (Walk nodes))" using walk assms(4) by blast
  from checkRefs_ok[OF ok(2) this] obtain cd where
    cd: "cards (fst (splitReference ref)) = Some cd" "kind = ''signal'' \<longrightarrow> cdSignals cd (snd (splitReference ref)) \<noteq> None"
    by blast
  have lits: "\<forall>s\<in>set (nodeLiterals (CallNode (Some callee) args)). NUL \<notin> set s"
    using assms(3,4) by (auto simp: plainLiterals_def)
  show ?thesis using ref cd lits unfolding refersTo_def
    by (elim disjE exE conjE) (simp_all add: splitReference_signal splitReference_state)
qed


definition exampleCompiler :: compiler where
  "exampleCompiler = \<lparr>coParse = (\<lambda>_. Inr [CallNode (Some ''signal'') [Some ''disk'', Some ''used''], OtherNode]),
     coCompile = (\<lambda>_. Inr exampleProgram), coHash = (\<lambda>_ _. Inr ''h'')\<rparr>"

definition exampleRuleConfig :: Rule where
  "exampleRuleConfig = \<lparr>ruID = ''full'', ruWhen = ''signal(disk, used) == 95'', ruFor = ''5m'', ruSeverity = [],
     ruNotify = [''phone''], ruResolve = True\<rparr>"

theorem Compile_references_declared_witness:
  "Compile exampleCompiler exampleRuleConfig exampleDeclarations = Inr exampleRule \<and>
   (\<exists>cd. exampleDeclarations ''disk'' = Some cd \<and> cdSignals cd ''used'' \<noteq> None)"
proof -
  have "splitReference (''disk'' @ [NUL] @ ''used'') = (''disk'', ''used'')" by (simp add: NUL_def)
  then have compiled: "Compile exampleCompiler exampleRuleConfig exampleDeclarations = Inr exampleRule"
    by (simp add: Compile_def exampleCompiler_def exampleRuleConfig_def Walk_def Visit_def exampleDeclarations_def
        finishCompile_def parseDuration_def ParseDuration_examples exampleRule_def Minute_def Second_def)
  have parsed: "coParse exampleCompiler (ruWhen exampleRuleConfig) =
      Inr [CallNode (Some ''signal'') [Some ''disk'', Some ''used''], OtherNode]" by (simp add: exampleCompiler_def)
  have "plainLiterals [CallNode (Some ''signal'') [Some ''disk'', Some ''used''], OtherNode]"
    by (simp add: plainLiterals_def NUL_def)
  from Compile_references_declared[OF compiled parsed this, of "''signal''" "[Some ''disk'', Some ''used'']"] compiled
  show ?thesis by simp
qed

end
