(* ===== verification/Passwords.thy ===== *)
theory Passwords
  imports Encodings
begin

text \<open>
  The Argon2id verifiers of \<open>internal/auth/password.go\<close>: parsing a PHC string, its safe cost limits, and
  generating one.  The hash itself (\<open>golang.org/x/crypto/argon2\<close>) is the argument \<open>idKey\<close>: password, salt,
  iterations, memory, parallelism and key length to the key; the random salt is an argument too.
\<close>

type_synonym IDKey = "string \<Rightarrow> string \<Rightarrow> nat \<Rightarrow> nat \<Rightarrow> nat \<Rightarrow> nat \<Rightarrow> string"

record argonParams =
  apMemory :: nat
  apIterations :: nat
  apParallelism :: nat
  apSalt :: string
  apHash :: string

datatype phcError =
    NotArgon2ID
  | MalformedParameters
  | ParallelismTooLarge
  | UnknownParameter string
  | OutsideSafeLimits
  | InvalidSalt
  | InvalidHash
  | EmptyPassword
  | ReadSalt
  | DoesNotParse phcError
  | DoesNotVerify

definition checkCost :: "nat \<Rightarrow> nat \<Rightarrow> nat \<Rightarrow> phcError option" where
  "checkCost memory iterations parallelism =
     (if memory < 8 * 1024 \<or> memory > 256 * 1024 \<or> iterations < 1 \<or> iterations > 10 \<or>
         parallelism < 1 \<or> parallelism > 16
      then Some OutsideSafeLimits else None)"

text \<open>The loop over the parameters; a later field overwrites an earlier one of the same key.\<close>

fun argonFields :: "string list \<Rightarrow> argonParams \<Rightarrow> (phcError, argonParams) result" where
  "argonFields [] p = Inr p"
| "argonFields (field # rest) p =
     (case Cut CHR ''='' field of
        None \<Rightarrow> Inl MalformedParameters
      | Some (key, v) \<Rightarrow>
          (case ParseUint 32 v of
             None \<Rightarrow> Inl MalformedParameters
           | Some n \<Rightarrow>
               if key = ''m'' then argonFields rest (p\<lparr>apMemory := n\<rparr>)
               else if key = ''t'' then argonFields rest (p\<lparr>apIterations := n\<rparr>)
               else if key = ''p''
               then (if n > 255 then Inl ParallelismTooLarge else argonFields rest (p\<lparr>apParallelism := n\<rparr>))
               else Inl (UnknownParameter key)))"

definition decodeBounded :: "string \<Rightarrow> string option" where
  "decodeBounded s =
     (case RawStdStrictDecode s of
        None \<Rightarrow> None
      | Some b \<Rightarrow> if length b < 16 \<or> length b > 64 then None else Some b)"

definition zeroParams :: argonParams where
  "zeroParams = \<lparr>apMemory = 0, apIterations = 0, apParallelism = 0, apSalt = [], apHash = []\<rparr>"

definition parseArgon2ID :: "string \<Rightarrow> (phcError, argonParams) result" where
  "parseArgon2ID encoded =
     (case Split CHR ''$'' encoded of
        [p0, p1, p2, p3, p4, p5] \<Rightarrow>
          if p0 \<noteq> [] \<or> p1 \<noteq> ''argon2id'' \<or> p2 \<noteq> ''v=19'' then Inl NotArgon2ID
          else (case argonFields (Split CHR '','' p3) zeroParams of
                  Inl err \<Rightarrow> Inl err
                | Inr out \<Rightarrow>
                    (case checkCost (apMemory out) (apIterations out) (apParallelism out) of
                       Some err \<Rightarrow> Inl err
                     | None \<Rightarrow>
                         (case decodeBounded p4 of
                            None \<Rightarrow> Inl InvalidSalt
                          | Some salt \<Rightarrow>
                              (case decodeBounded p5 of
                                 None \<Rightarrow> Inl InvalidHash
                               | Some hash \<Rightarrow> Inr (out\<lparr>apSalt := salt, apHash := hash\<rparr>)))))
      | _ \<Rightarrow> Inl NotArgon2ID)"

definition verifyPassword :: "IDKey \<Rightarrow> argonParams \<Rightarrow> string \<Rightarrow> bool" where
  "verifyPassword idKey params password =
     (idKey password (apSalt params) (apIterations params) (apMemory params) (apParallelism params)
        (length (apHash params)) = apHash params)"

record HashCost =
  hcMemoryKiB :: nat
  hcIterations :: nat
  hcParallelism :: nat

definition DefaultHashCost :: HashCost where
  "DefaultHashCost = \<lparr>hcMemoryKiB = 64 * 1024, hcIterations = 3, hcParallelism = 4\<rparr>"

definition phcText :: "HashCost \<Rightarrow> string \<Rightarrow> string \<Rightarrow> string" where
  "phcText cost salt key =
     ''$argon2id$v=19$m='' @ FormatUint (hcMemoryKiB cost) @ '',t='' @ FormatUint (hcIterations cost) @
     '',p='' @ FormatUint (hcParallelism cost) @ ''$'' @ RawStdEncode salt @ ''$'' @ RawStdEncode key"

definition HashPassword :: "IDKey \<Rightarrow> string option \<Rightarrow> string \<Rightarrow> HashCost \<Rightarrow> (phcError, string) result" where
  "HashPassword idKey rnd password cost =
     (if password = [] then Inl EmptyPassword
      else case checkCost (hcMemoryKiB cost) (hcIterations cost) (hcParallelism cost) of
             Some err \<Rightarrow> Inl err
           | None \<Rightarrow>
               (case rnd of
                  None \<Rightarrow> Inl ReadSalt
                | Some salt \<Rightarrow>
                    let key = idKey password salt (hcIterations cost) (hcMemoryKiB cost) (hcParallelism cost) 32;
                        encoded = phcText cost salt key in
                    (case parseArgon2ID encoded of
                       Inl err \<Rightarrow> Inl (DoesNotParse err)
                     | Inr params \<Rightarrow>
                         if verifyPassword idKey params password then Inr encoded else Inl DoesNotVerify)))"

section \<open>Parsing what was printed\<close>

lemma RawStdEncode_bytes [simp]: "CHR ''$'' \<notin> set (RawStdEncode s)"
proof
  assume "CHR ''$'' \<in> set (RawStdEncode s)"
  then obtain n where "n < 64" "CHR ''$'' = base64Char n"
    using encodeSixes_bound by (auto simp: RawStdEncode_def rawEncode_map)
  moreover have "stdIndex CHR ''$'' = None" by (simp add: stdIndex_def alphabetIndex_def)
  ultimately show False using stdIndex_base64Char by force
qed

lemma FormatUint_bytes [simp]: "CHR ''$'' \<notin> set (FormatUint n)" "CHR '','' \<notin> set (FormatUint n)"
  using FormatUint_digit_bytes[of _ n] by (force simp: decimalDigit_def)+

definition costText :: "HashCost \<Rightarrow> string" where
  "costText cost = Join '','' [''m='' @ FormatUint (hcMemoryKiB cost), ''t='' @ FormatUint (hcIterations cost),
     ''p='' @ FormatUint (hcParallelism cost)]"

lemma phcText_Join:
  "phcText cost salt key = Join ''$'' [[], ''argon2id'', ''v=19'', costText cost, RawStdEncode salt, RawStdEncode key]"
  by (simp add: phcText_def costText_def)

lemma Split_phcText:
  "Split CHR ''$'' (phcText cost salt key) =
     [[], ''argon2id'', ''v=19'', costText cost, RawStdEncode salt, RawStdEncode key]"
proof -
  have "CHR ''$'' \<notin> set (costText cost)" "CHR ''$'' \<notin> set (RawStdEncode b)" for b
    by (simp_all add: costText_def)
  then show ?thesis unfolding phcText_Join by (intro Split_Join) auto
qed

lemma Split_costText:
  "Split CHR '','' (costText cost) =
     [''m='' @ FormatUint (hcMemoryKiB cost), ''t='' @ FormatUint (hcIterations cost),
      ''p='' @ FormatUint (hcParallelism cost)]"
  unfolding costText_def by (rule Split_Join) auto

lemma argonField: "Cut CHR ''='' (c # CHR ''='' # v) = (if c = CHR ''='' then Some ([], CHR ''='' # v) else Some ([c], v))"
  by (simp add: Cut_def)

lemma argonFields_cost:
  assumes "checkCost (hcMemoryKiB cost) (hcIterations cost) (hcParallelism cost) = None"
  shows "argonFields (Split CHR '','' (costText cost)) zeroParams =
    Inr (zeroParams\<lparr>apMemory := hcMemoryKiB cost, apIterations := hcIterations cost,
      apParallelism := hcParallelism cost\<rparr>)"
proof -
  have "ParseUint 32 (FormatUint n) = Some n" if "n \<le> 256 * 1024" for n
    using that by (intro ParseUint_FormatUint) simp
  with assms show ?thesis
    by (simp add: Split_costText argonField checkCost_def zeroParams_def split: if_splits)
qed

lemma parse_phcText:
  assumes cost: "checkCost (hcMemoryKiB cost) (hcIterations cost) (hcParallelism cost) = None"
    and salt: "16 \<le> length salt" "length salt \<le> 64" and key: "16 \<le> length key" "length key \<le> 64"
  shows "parseArgon2ID (phcText cost salt key) =
    Inr \<lparr>apMemory = hcMemoryKiB cost, apIterations = hcIterations cost, apParallelism = hcParallelism cost,
      apSalt = salt, apHash = key\<rparr>"
proof -
  have "decodeBounded (RawStdEncode salt) = Some salt" "decodeBounded (RawStdEncode key) = Some key"
    using salt key by (simp_all add: decodeBounded_def RawStd_roundtrip)
  then show ?thesis using cost
    by (simp add: parseArgon2ID_def Split_phcText argonFields_cost)
qed

section \<open>Properties\<close>

text \<open>
  C22. \<open>HashPassword\<close> cannot fail once its inputs are in order: with a password, a cost the limits allow and
  a 16-byte salt it returns a text that \<open>parseArgon2ID\<close> accepts, with exactly the cost and the salt asked
  for, and the parsed verifier accepts exactly the passwords whose key is the key of the given one.  The
  hash function is only required to return as many bytes as it is asked for.
\<close>

theorem HashPassword_roundtrip:
  assumes "\<And>pw salt t m l n. length (idKey pw salt t m l n) = n"
    and "password \<noteq> []" and "length salt = 16"
    and "checkCost (hcMemoryKiB cost) (hcIterations cost) (hcParallelism cost) = None"
  shows "\<exists>encoded params. HashPassword idKey (Some salt) password cost = Inr encoded \<and>
    parseArgon2ID encoded = Inr params \<and> apMemory params = hcMemoryKiB cost \<and>
    apIterations params = hcIterations cost \<and> apParallelism params = hcParallelism cost \<and> apSalt params = salt \<and>
    (\<forall>pw. verifyPassword idKey params pw \<longleftrightarrow>
       idKey pw salt (hcIterations cost) (hcMemoryKiB cost) (hcParallelism cost) 32 =
       idKey password salt (hcIterations cost) (hcMemoryKiB cost) (hcParallelism cost) 32)"
proof -
  define key where "key = idKey password salt (hcIterations cost) (hcMemoryKiB cost) (hcParallelism cost) 32"
  have "length key = 32" by (simp add: key_def assms(1))
  then have p: "parseArgon2ID (phcText cost salt key) =
      Inr \<lparr>apMemory = hcMemoryKiB cost, apIterations = hcIterations cost, apParallelism = hcParallelism cost,
        apSalt = salt, apHash = key\<rparr>" using assms by (intro parse_phcText) auto
  moreover have "HashPassword idKey (Some salt) password cost = Inr (phcText cost salt key)"
    using assms p by (simp add: HashPassword_def Let_def verifyPassword_def key_def[symmetric] \<open>length key = 32\<close>)
  ultimately show ?thesis by (simp add: verifyPassword_def key_def assms(1))
qed

definition toyKey :: IDKey where
  "toyKey pw salt t m l n = take n (pw @ replicate n CHR ''0'')"

lemma length_toyKey: "length (toyKey pw salt t m l n) = n"
  by (simp add: toyKey_def)

theorem HashPassword_roundtrip_witness:
  "\<exists>encoded params. HashPassword toyKey (Some (replicate 16 CHR ''s'')) ''hunter2'' DefaultHashCost = Inr encoded \<and>
     parseArgon2ID encoded = Inr params \<and> apMemory params = 65536 \<and> \<not> verifyPassword toyKey params ''hunter3''"
proof -
  obtain encoded params where
    "HashPassword toyKey (Some (replicate 16 CHR ''s'')) ''hunter2'' DefaultHashCost = Inr encoded"
    "parseArgon2ID encoded = Inr params" "apMemory params = hcMemoryKiB DefaultHashCost"
    "verifyPassword toyKey params ''hunter3'' \<longleftrightarrow>
       toyKey ''hunter3'' (replicate 16 CHR ''s'') (hcIterations DefaultHashCost) (hcMemoryKiB DefaultHashCost)
         (hcParallelism DefaultHashCost) 32 =
       toyKey ''hunter2'' (replicate 16 CHR ''s'') (hcIterations DefaultHashCost) (hcMemoryKiB DefaultHashCost)
         (hcParallelism DefaultHashCost) 32"
    using HashPassword_roundtrip[of toyKey "''hunter2''" "replicate 16 CHR ''s''" DefaultHashCost, OF length_toyKey]
    by (auto simp: checkCost_def DefaultHashCost_def)
  moreover have "hcMemoryKiB DefaultHashCost = 65536" by (simp add: DefaultHashCost_def)
  ultimately show ?thesis by (auto simp: toyKey_def)
qed

text \<open>
  Whatever verifier \<open>parseArgon2ID\<close> accepts, verifying a password against it stays within the safe
  limits: 8 to 256 MiB of memory, at most 10 passes and 16 lanes, and a salt and a key of 16 to 64 bytes.
\<close>

theorem parseArgon2ID_bounds:
  assumes "parseArgon2ID encoded = Inr params"
  shows "8 * 1024 \<le> apMemory params \<and> apMemory params \<le> 256 * 1024 \<and>
    1 \<le> apIterations params \<and> apIterations params \<le> 10 \<and>
    1 \<le> apParallelism params \<and> apParallelism params \<le> 16 \<and>
    16 \<le> length (apSalt params) \<and> length (apSalt params) \<le> 64 \<and>
    16 \<le> length (apHash params) \<and> length (apHash params) \<le> 64"
  using assms unfolding parseArgon2ID_def
  by (auto simp: decodeBounded_def checkCost_def split: list.splits if_splits sum.splits option.splits)

theorem parseArgon2ID_bounds_witness:
  "\<exists>params. parseArgon2ID (phcText DefaultHashCost (replicate 16 CHR ''s'') (replicate 32 CHR ''k'')) = Inr params \<and>
     apMemory params \<le> 256 * 1024"
proof -
  have p: "parseArgon2ID (phcText DefaultHashCost (replicate 16 CHR ''s'') (replicate 32 CHR ''k'')) =
      Inr \<lparr>apMemory = hcMemoryKiB DefaultHashCost, apIterations = hcIterations DefaultHashCost,
        apParallelism = hcParallelism DefaultHashCost, apSalt = replicate 16 CHR ''s'', apHash = replicate 32 CHR ''k''\<rparr>"
    by (rule parse_phcText) (simp_all add: checkCost_def DefaultHashCost_def)
  from parseArgon2ID_bounds[OF p] p show ?thesis by blast
qed

end
