(* ===== verification/Sessions.thy ===== *)
theory Sessions
  imports Passwords SecretRefs GoTime
begin

text \<open>
  Password authentication of \<open>internal/auth/service.go\<close> and \<open>verifier.go\<close>: the source lockout, sessions,
  CSRF tokens, the sudo window, credential rotation and the pool that bounds concurrent password hashes.
  Requests interleave in the step relation \<open>authStep\<close>, which keeps what the read-write lock of the service
  allows: a login or a sudo request holds it for reading from the moment it reads the credentials, so a
  rotation happens only while no such request is between its two ends.

  Arguments of the model: the hash functions (\<open>idKey\<close> for Argon2id, \<open>th\<close> for the SHA-256 of a token), the
  clock, random bytes, and the outcome of each database statement (\<open>None\<close> is success).
\<close>

section \<open>Configuration\<close>

datatype authError =
    ErrInvalidCredentials
  | ErrRateLimited
  | ErrNoSession
  | ErrCSRF
  | ErrBusy
  | ErrRandom
  | ErrStatement string
  | ErrUnresolvedHash
  | ErrPHC phcError
  | ErrSessionTTL
  | ErrUsername

record AuthConfig =
  acUsername :: string
  acPasswordHash :: string
  acResolved :: "string \<rightharpoonup> string"
  acSessionTTL :: string

definition resolvePasswordHash :: "string \<Rightarrow> (string \<rightharpoonup> string) \<Rightarrow> (authError, string) result" where
  "resolvePasswordHash configured resolved =
     (case matchRef configured of
        Some (name, []) \<Rightarrow> (case resolved name of None \<Rightarrow> Inl ErrUnresolvedHash | Some v \<Rightarrow> Inr v)
      | _ \<Rightarrow> Inr configured)"

definition wrap64 :: "int \<Rightarrow> int" where
  "wrap64 x = (x + 2 ^ 63) mod 2 ^ 64 - 2 ^ 63"

definition parseTTL :: "string \<Rightarrow> (authError, int) result" where
  "parseTTL v =
     (if v = [] then Inr (30 * 24 * Hour)
      else if HasSuffix v ''d''
      then (case ParseUint 32 (TrimSuffix v ''d'') of
              None \<Rightarrow> Inl ErrSessionTTL
            | Some days \<Rightarrow>
                if days = 0 then Inl ErrSessionTTL else Inr (wrap64 (wrap64 (int days * 24) * Hour)))
      else (case ParseDuration v of
              None \<Rightarrow> Inl ErrSessionTTL
            | Some ttl \<Rightarrow> if ttl \<le> 0 then Inl ErrSessionTTL else Inr ttl))"

section \<open>State\<close>

record attempts =
  atCount :: int
  atWindowStart :: instant
  atLockedUntil :: instant

text \<open>The map of sources, in the order a range over it happens to take.\<close>

type_synonym sources = "(string \<times> attempts) list"

record Service =
  svUsername :: string
  svParams :: argonParams
  svTTL :: int
  svAttempts :: sources
  svSudoUntil :: "string \<rightharpoonup> instant"

record userRow =
  usUsername :: string
  usPasswordHash :: string
  usLastLogin :: "instant option"

record sessionRow =
  ssCSRF :: string
  ssCreated :: instant
  ssExpires :: "instant option"
  ssLastSeen :: instant
  ssUserAgent :: string
  ssIP :: string

record authTables =
  tbUser :: "userRow option"
  tbSessions :: "string \<rightharpoonup> sessionRow"

record Session =
  snToken :: string
  snCSRF :: string
  snExpires :: instant

record Identity =
  idUsername :: string
  idSession :: string
  idMode :: string
  idAdmin :: bool
  idGroups :: "string list"

section \<open>Attempts\<close>

definition maxTrackedSources :: nat where
  "maxTrackedSources = 4096"

definition noAttempts :: attempts where
  "noAttempts = \<lparr>atCount = 0, atWindowStart = zeroTime, atLockedUntil = zeroTime\<rparr>"

definition attemptsOf :: "sources \<Rightarrow> string \<Rightarrow> attempts" where
  "attemptsOf m key = (case map_of m key of None \<Rightarrow> noAttempts | Some a \<Rightarrow> a)"

definition deleteSource :: "string \<Rightarrow> sources \<Rightarrow> sources" where
  "deleteSource key m = filter (\<lambda>(k, _). k \<noteq> key) m"

definition lockedOut :: "instant \<Rightarrow> string \<Rightarrow> sources \<Rightarrow> bool" where
  "lockedOut now key m \<longleftrightarrow> now < atLockedUntil (attemptsOf m key)"

definition expiredSource :: "instant \<Rightarrow> attempts \<Rightarrow> bool" where
  "expiredSource now a \<longleftrightarrow> now - atWindowStart a \<ge> 10 * Minute \<and> \<not> now < atLockedUntil a"

fun oldestSource :: "string \<times> instant \<Rightarrow> sources \<Rightarrow> string" where
  "oldestSource (oldestKey, oldest) [] = oldestKey"
| "oldestSource (oldestKey, oldest) ((key, a) # m) =
     oldestSource
       (if oldest = zeroTime \<or> atWindowStart a < oldest then (key, atWindowStart a) else (oldestKey, oldest)) m"

definition evictLocked :: "instant \<Rightarrow> sources \<Rightarrow> sources" where
  "evictLocked now m =
     (if length m < maxTrackedSources then m
      else let live = filter (\<lambda>(_, a). \<not> expiredSource now a) m in
           if length live < maxTrackedSources then live else deleteSource (oldestSource ([], zeroTime) live) live)"

definition countAttempt :: "instant \<Rightarrow> attempts \<Rightarrow> attempts" where
  "countAttempt now a =
     (let a = (if atWindowStart a = zeroTime \<or> now - atWindowStart a \<ge> 10 * Minute
               then noAttempts\<lparr>atWindowStart := now\<rparr> else a);
          a = a\<lparr>atCount := atCount a + 1\<rparr>
      in if atCount a \<ge> 5 then a\<lparr>atLockedUntil := now + 15 * Minute\<rparr> else a)"

definition recordFailure :: "string \<Rightarrow> instant \<Rightarrow> sources \<Rightarrow> sources" where
  "recordFailure key now m =
     (let m = (if map_of m key = None then evictLocked now m else m)
      in (key, countAttempt now (attemptsOf m key)) # deleteSource key m)"

section \<open>The verifier pool\<close>

definition maxConcurrentVerifications :: nat where "maxConcurrentVerifications = 2"
definition maxQueuedVerifications :: nat where "maxQueuedVerifications = 8"

record verifier =
  vSlots :: nat
  vWaiting :: nat
  vAdmitted :: nat

definition newVerifier :: verifier where
  "newVerifier = \<lparr>vSlots = 0, vWaiting = 0, vAdmitted = 0\<rparr>"

text \<open>\<open>verify\<close>: entering the queue, taking a slot, and returning both.\<close>

definition enterQueue :: "verifier \<Rightarrow> verifier option" where
  "enterQueue v =
     (if vWaiting v + 1 > maxQueuedVerifications + maxConcurrentVerifications then None
      else Some (v\<lparr>vWaiting := vWaiting v + 1\<rparr>))"

definition takeSlot :: "verifier \<Rightarrow> verifier option" where
  "takeSlot v =
     (if vSlots v < maxConcurrentVerifications
      then Some (v\<lparr>vSlots := vSlots v + 1, vAdmitted := vAdmitted v + 1\<rparr>) else None)"

definition leaveVerifier :: "verifier \<Rightarrow> verifier" where
  "leaveVerifier v = v\<lparr>vSlots := vSlots v - 1, vWaiting := vWaiting v - 1\<rparr>"

section \<open>Sessions\<close>

definition PruneExpired :: "string option \<Rightarrow> instant \<Rightarrow> authTables \<Rightarrow> authTables" where
  "PruneExpired err now tbl =
     (case err of
        Some _ \<Rightarrow> tbl
      | None \<Rightarrow>
          tbl\<lparr>tbSessions := (\<lambda>sid. case tbSessions tbl sid of
             None \<Rightarrow> None
           | Some row \<Rightarrow>
               (case ssExpires row of
                  None \<Rightarrow> Some row
                | Some e \<Rightarrow> if textLe e now then None else Some row))\<rparr>)"

text \<open>What a login is asked, and what its statements and the random source do.\<close>

record loginRequest =
  lrUsername :: string
  lrPassword :: string
  lrUserAgent :: string
  lrIP :: string

record loginWorld =
  lwToken :: "string option"
  lwCSRF :: "string option"
  lwInsert :: "string option"
  lwUpdate :: "string option"
  lwPrune :: "string option"
  lwLater :: instant

definition loginKey :: "string \<Rightarrow> string \<Rightarrow> string" where
  "loginKey username ip = map lower_byte (TrimSpace username) @ [CHR 0x00] @ ip"

definition randomToken :: "string option \<Rightarrow> (authError, string) result" where
  "randomToken rnd = (case rnd of None \<Rightarrow> Inl ErrRandom | Some b \<Rightarrow> Inr (RawURLEncode b))"

definition insertSession ::
    "string option \<Rightarrow> string \<Rightarrow> sessionRow \<Rightarrow> authTables \<Rightarrow> (authError, authTables) result" where
  "insertSession err sid row tbl =
     (case err of
        Some e \<Rightarrow> Inl (ErrStatement e)
      | None \<Rightarrow>
          if tbUser tbl = None then Inl (ErrStatement ''FOREIGN KEY'')
          else if tbSessions tbl sid \<noteq> None then Inl (ErrStatement ''UNIQUE'')
          else Inr (tbl\<lparr>tbSessions := (tbSessions tbl)(sid \<mapsto> row)\<rparr>))"

definition touchUser :: "string option \<Rightarrow> instant \<Rightarrow> authTables \<Rightarrow> authTables" where
  "touchUser err now tbl =
     (if err = None then tbl\<lparr>tbUser := map_option (\<lambda>u. u\<lparr>usLastLogin := Some now\<rparr>) (tbUser tbl)\<rparr> else tbl)"

text \<open>The end of \<open>Login\<close>, once the password is known to be valid.\<close>

definition issueSession ::
    "(string \<Rightarrow> string) \<Rightarrow> loginWorld \<Rightarrow> int \<Rightarrow> instant \<Rightarrow> loginRequest \<Rightarrow> authTables \<Rightarrow>
     (authError, Session) result \<times> authTables" where
  "issueSession th w ttl now r tbl =
     (case randomToken (lwToken w) of
        Inl err \<Rightarrow> (Inl err, tbl)
      | Inr token \<Rightarrow>
          (case randomToken (lwCSRF w) of
             Inl err \<Rightarrow> (Inl err, tbl)
           | Inr csrf \<Rightarrow>
               (case insertSession (lwInsert w) (th token)
                       \<lparr>ssCSRF = csrf, ssCreated = now, ssExpires = Some (now + ttl), ssLastSeen = now,
                        ssUserAgent = lrUserAgent r, ssIP = lrIP r\<rparr> tbl of
                  Inl err \<Rightarrow> (Inl err, tbl)
                | Inr tbl \<Rightarrow>
                    (Inr \<lparr>snToken = token, snCSRF = csrf, snExpires = now + ttl\<rparr>,
                     PruneExpired (lwPrune w) (lwLater w) (touchUser (lwUpdate w) now tbl)))))"

text \<open>\<open>Login\<close> after the hash was computed: what it captured of the configuration, and the verdict.\<close>

record captured =
  cpUsername :: string
  cpParams :: argonParams
  cpTTL :: int
  cpNow :: instant

definition capture :: "instant \<Rightarrow> Service \<Rightarrow> captured" where
  "capture now sv = \<lparr>cpUsername = svUsername sv, cpParams = svParams sv, cpTTL = svTTL sv, cpNow = now\<rparr>"

definition loginValid :: "IDKey \<Rightarrow> captured \<Rightarrow> loginRequest \<Rightarrow> bool" where
  "loginValid idKey c r \<longleftrightarrow> verifyPassword idKey (cpParams c) (lrPassword r) \<and> lrUsername r = cpUsername c"

definition loginFinish ::
    "IDKey \<Rightarrow> (string \<Rightarrow> string) \<Rightarrow> loginWorld \<Rightarrow> captured \<Rightarrow> loginRequest \<Rightarrow> sources \<Rightarrow> authTables \<Rightarrow>
     (authError, Session) result \<times> sources \<times> authTables" where
  "loginFinish idKey th w c r m tbl =
     (let key = loginKey (lrUsername r) (lrIP r) in
      if \<not> loginValid idKey c r then (Inl ErrInvalidCredentials, recordFailure key (cpNow c) m, tbl)
      else case issueSession th w (cpTTL c) (cpNow c) r tbl of
             (res, tbl) \<Rightarrow> (res, deleteSource key m, tbl))"

text \<open>The whole of \<open>Login\<close> when nothing else runs; \<open>v\<close> is the pool at the time.\<close>

definition Login ::
    "IDKey \<Rightarrow> (string \<Rightarrow> string) \<Rightarrow> loginWorld \<Rightarrow> verifier \<Rightarrow> instant \<Rightarrow> loginRequest \<Rightarrow> Service \<Rightarrow> authTables \<Rightarrow>
     (authError, Session) result \<times> Service \<times> authTables" where
  "Login idKey th w v now r sv tbl =
     (if lockedOut now (loginKey (lrUsername r) (lrIP r)) (svAttempts sv) then (Inl ErrRateLimited, sv, tbl)
      else case enterQueue v of
             None \<Rightarrow> (Inl ErrBusy, sv, tbl)
           | Some _ \<Rightarrow>
               (case loginFinish idKey th w (capture now sv) r (svAttempts sv) tbl of
                  (res, m, tbl) \<Rightarrow> (res, sv\<lparr>svAttempts := m\<rparr>, tbl)))"

definition deleteSession :: "string \<Rightarrow> authTables \<Rightarrow> authTables" where
  "deleteSession sid tbl = tbl\<lparr>tbSessions := (tbSessions tbl)(sid := None)\<rparr>"

text \<open>\<open>Authenticate\<close>; \<open>werr\<close> is the outcome of its ignored writes.\<close>

definition Authenticate ::
    "(string \<Rightarrow> string) \<Rightarrow> string option \<Rightarrow> string option \<Rightarrow> instant \<Rightarrow> string \<Rightarrow> authTables \<Rightarrow>
     (authError, Identity \<times> string) result \<times> authTables" where
  "Authenticate th qerr werr now token tbl =
     (if token = [] then (Inl ErrNoSession, tbl)
      else case qerr of
             Some e \<Rightarrow> (Inl (ErrStatement e), tbl)
           | None \<Rightarrow>
               (case (tbSessions tbl (th token), tbUser tbl) of
                  (Some row, Some user) \<Rightarrow>
                    if (case ssExpires row of None \<Rightarrow> True | Some e \<Rightarrow> \<not> now < e)
                    then (Inl ErrNoSession, if werr = None then deleteSession (th token) tbl else tbl)
                    else (Inr (\<lparr>idUsername = usUsername user, idSession = th token, idMode = ''password'',
                                idAdmin = True, idGroups = []\<rparr>, ssCSRF row),
                          if werr = None
                          then tbl\<lparr>tbSessions := (tbSessions tbl)(th token \<mapsto> row\<lparr>ssLastSeen := now\<rparr>)\<rparr> else tbl)
                | _ \<Rightarrow> (Inl ErrNoSession, tbl)))"

definition Logout ::
    "(string \<Rightarrow> string) \<Rightarrow> string option \<Rightarrow> string \<Rightarrow> Service \<Rightarrow> authTables \<Rightarrow> authError option \<times> Service \<times> authTables" where
  "Logout th err token sv tbl =
     (if token = [] then (None, sv, tbl)
      else (map_option ErrStatement err, sv\<lparr>svSudoUntil := (svSudoUntil sv)(th token := None)\<rparr>,
            if err = None then deleteSession (th token) tbl else tbl))"

definition CheckCSRF ::
    "(string \<Rightarrow> string) \<Rightarrow> string option \<Rightarrow> string option \<Rightarrow> instant \<Rightarrow> string \<Rightarrow> string \<Rightarrow> string \<Rightarrow> authTables \<Rightarrow>
     (authError, Identity) result \<times> authTables" where
  "CheckCSRF th qerr werr now sessionToken cookieToken headerToken tbl =
     (case Authenticate th qerr werr now sessionToken tbl of
        (Inl err, tbl) \<Rightarrow> (Inl err, tbl)
      | (Inr (identity, stored), tbl) \<Rightarrow>
          if cookieToken = [] \<or> headerToken = [] \<or> stored \<noteq> cookieToken \<or> stored \<noteq> headerToken
          then (Inl ErrCSRF, tbl) else (Inr identity, tbl))"

section \<open>Sudo\<close>

definition sudoKey :: "string \<Rightarrow> string \<Rightarrow> string" where
  "sudoKey sid ip = ''sudo'' @ [CHR 0x00] @ sid @ [CHR 0x00] @ ip"

text \<open>The end of \<open>OpenSudo\<close>; \<open>later\<close> is the clock when the window is opened.\<close>

definition sudoFinish ::
    "IDKey \<Rightarrow> instant \<Rightarrow> captured \<Rightarrow> string \<Rightarrow> string \<Rightarrow> string \<Rightarrow> Service \<Rightarrow> authError option \<times> Service" where
  "sudoFinish idKey later c sid password ip sv =
     (if \<not> verifyPassword idKey (cpParams c) password
      then (Some ErrInvalidCredentials, sv\<lparr>svAttempts := recordFailure (sudoKey sid ip) (cpNow c) (svAttempts sv)\<rparr>)
      else (None, sv\<lparr>svAttempts := deleteSource (sudoKey sid ip) (svAttempts sv),
                     svSudoUntil := (svSudoUntil sv)(sid \<mapsto> later + 5 * Minute)\<rparr>))"

definition OpenSudo ::
    "IDKey \<Rightarrow> (string \<Rightarrow> string) \<Rightarrow> string option \<Rightarrow> string option \<Rightarrow> verifier \<Rightarrow> instant \<Rightarrow> instant \<Rightarrow>
     string \<Rightarrow> string \<Rightarrow> string \<Rightarrow> Service \<Rightarrow> authTables \<Rightarrow> authError option \<times> Service \<times> authTables" where
  "OpenSudo idKey th qerr werr v now later sessionToken password ip sv tbl =
     (case Authenticate th qerr werr now sessionToken tbl of
        (Inl err, tbl) \<Rightarrow> (Some err, sv, tbl)
      | (Inr (identity, _), tbl) \<Rightarrow>
          if lockedOut now (sudoKey (idSession identity) ip) (svAttempts sv) then (Some ErrRateLimited, sv, tbl)
          else (case enterQueue v of
                  None \<Rightarrow> (Some ErrBusy, sv, tbl)
                | Some _ \<Rightarrow>
                    (case sudoFinish idKey later (capture now sv) (idSession identity) password ip sv of
                       (err, sv) \<Rightarrow> (err, sv, tbl))))"

definition AllowsPrivileged :: "instant \<Rightarrow> Identity \<Rightarrow> Service \<Rightarrow> bool \<times> Service" where
  "AllowsPrivileged now identity sv =
     (case svSudoUntil sv (idSession identity) of
        Some until \<Rightarrow>
          if \<not> now < until then (False, sv\<lparr>svSudoUntil := (svSudoUntil sv)(idSession identity := None)\<rparr>)
          else (True, sv)
      | None \<Rightarrow> (False, sv))"

section \<open>Starting and rotating\<close>

definition credentialsDiffer :: "string option \<Rightarrow> string \<Rightarrow> string \<Rightarrow> authTables \<Rightarrow> (authError, bool) result" where
  "credentialsDiffer err username passwordHash tbl =
     (case err of
        Some e \<Rightarrow> Inl (ErrStatement e)
      | None \<Rightarrow>
          (case tbUser tbl of
             None \<Rightarrow> Inr False
           | Some u \<Rightarrow> Inr (usUsername u \<noteq> username \<or> usPasswordHash u \<noteq> passwordHash)))"

record rotateWorld =
  rwQuery :: "string option"
  rwUpdate :: "string option"
  rwRevoke :: "string option"

definition updateUser :: "string \<Rightarrow> string \<Rightarrow> authTables \<Rightarrow> authTables" where
  "updateUser username hash tbl =
     tbl\<lparr>tbUser := map_option (\<lambda>u. u\<lparr>usUsername := username, usPasswordHash := hash\<rparr>) (tbUser tbl)\<rparr>"

definition upsertUser :: "string \<Rightarrow> string \<Rightarrow> authTables \<Rightarrow> authTables" where
  "upsertUser username hash tbl =
     tbl\<lparr>tbUser := Some (case tbUser tbl of
        None \<Rightarrow> \<lparr>usUsername = username, usPasswordHash = hash, usLastLogin = None\<rparr>
      | Some u \<Rightarrow> u\<lparr>usUsername := username, usPasswordHash := hash\<rparr>)\<rparr>"

definition revokeEverythingLocked ::
    "string option \<Rightarrow> Service \<Rightarrow> authTables \<Rightarrow> authError option \<times> Service \<times> authTables" where
  "revokeEverythingLocked err sv tbl =
     (case err of
        Some e \<Rightarrow> (Some (ErrStatement e), sv, tbl)
      | None \<Rightarrow> (None, sv\<lparr>svSudoUntil := Map.empty\<rparr>, tbl\<lparr>tbSessions := Map.empty\<rparr>))"

text \<open>The checks \<open>Reconfigure\<close> and \<open>New\<close> share; they report them in another order.\<close>

definition validateAuth :: "AuthConfig \<Rightarrow> (authError, string \<times> argonParams \<times> int) result" where
  "validateAuth cfg =
     (case resolvePasswordHash (acPasswordHash cfg) (acResolved cfg) of
        Inl err \<Rightarrow> Inl err
      | Inr hash \<Rightarrow>
          (case parseArgon2ID hash of
             Inl err \<Rightarrow> Inl (ErrPHC err)
           | Inr params \<Rightarrow>
               (case parseTTL (acSessionTTL cfg) of
                  Inl err \<Rightarrow> Inl err
                | Inr ttl \<Rightarrow>
                    if TrimSpace (acUsername cfg) = [] then Inl ErrUsername else Inr (hash, params, ttl))))"

definition Reconfigure ::
    "rotateWorld \<Rightarrow> AuthConfig \<Rightarrow> Service \<Rightarrow> authTables \<Rightarrow> authError option \<times> Service \<times> authTables" where
  "Reconfigure w cfg sv tbl =
     (case validateAuth cfg of
        Inl err \<Rightarrow> (Some err, sv, tbl)
      | Inr (hash, params, ttl) \<Rightarrow>
          (case credentialsDiffer (rwQuery w) (acUsername cfg) hash tbl of
             Inl err \<Rightarrow> (Some err, sv, tbl)
           | Inr changed \<Rightarrow>
               (case rwUpdate w of
                  Some e \<Rightarrow> (Some (ErrStatement e), sv, tbl)
                | None \<Rightarrow>
                    let tbl = updateUser (acUsername cfg) hash tbl;
                        sv = sv\<lparr>svUsername := acUsername cfg, svParams := params, svTTL := ttl\<rparr>
                    in if changed then revokeEverythingLocked (rwRevoke w) sv tbl else (None, sv, tbl))))"

definition New :: "rotateWorld \<Rightarrow> AuthConfig \<Rightarrow> authTables \<Rightarrow> (authError, Service) result \<times> authTables" where
  "New w cfg tbl =
     (case resolvePasswordHash (acPasswordHash cfg) (acResolved cfg) of
        Inl err \<Rightarrow> (Inl err, tbl)
      | Inr hash \<Rightarrow>
          (case parseArgon2ID hash of
             Inl err \<Rightarrow> (Inl (ErrPHC err), tbl)
           | Inr params \<Rightarrow>
               if TrimSpace (acUsername cfg) = [] then (Inl ErrUsername, tbl)
               else (case parseTTL (acSessionTTL cfg) of
                       Inl err \<Rightarrow> (Inl err, tbl)
                     | Inr ttl \<Rightarrow>
                         (case credentialsDiffer (rwQuery w) (acUsername cfg) hash tbl of
                            Inl err \<Rightarrow> (Inl err, tbl)
                          | Inr changed \<Rightarrow>
                              (case rwUpdate w of
                                 Some e \<Rightarrow> (Inl (ErrStatement e), tbl)
                               | None \<Rightarrow>
                                   let tbl = upsertUser (acUsername cfg) hash tbl in
                                   if changed \<and> rwRevoke w \<noteq> None
                                   then (Inl (ErrStatement (the (rwRevoke w))), tbl)
                                   else (Inr \<lparr>svUsername = acUsername cfg, svParams = params, svTTL = ttl,
                                              svAttempts = [], svSudoUntil = Map.empty\<rparr>,
                                         if changed then tbl\<lparr>tbSessions := Map.empty\<rparr> else tbl))))))"

section \<open>The lockout\<close>

text \<open>
  The attempts map under concurrent requests.  A request reads the clock and is refused when its source is
  locked; otherwise it is in flight until its verification ends, with other requests in between.  Then a match
  forgets the source, a mismatch is recorded with the time read at the beginning, and a request the verifier
  shed leaves no trace.
\<close>

datatype verdict = Matched | Mismatched | Shed

datatype guardEvent = Asked string instant | Settled nat verdict

record guard =
  gdSources :: sources
  gdFlights :: "(string \<times> instant) list"

definition emptyGuard :: guard where
  "emptyGuard = \<lparr>gdSources = [], gdFlights = []\<rparr>"

fun guardStep :: "guardEvent \<Rightarrow> guard \<Rightarrow> guard" where
  "guardStep (Asked key now) g =
     (if lockedOut now key (gdSources g) then g else g\<lparr>gdFlights := (key, now) # gdFlights g\<rparr>)"
| "guardStep (Settled i v) g =
     (if i < length (gdFlights g)
      then let (key, now) = gdFlights g ! i; m = gdSources g in
           \<lparr>gdSources = (case v of Matched \<Rightarrow> deleteSource key m | Mismatched \<Rightarrow> recordFailure key now m | Shed \<Rightarrow> m),
            gdFlights = take i (gdFlights g) @ drop (Suc i) (gdFlights g)\<rparr>
      else g)"










lemma attemptsOf_delete: "attemptsOf (deleteSource k m) key = (if k = key then noAttempts else attemptsOf m key)"
proof -
  have "map_of (deleteSource k m) key = (if k = key then None else map_of m key)"
    unfolding deleteSource_def by (induction m) auto
  then show ?thesis by (simp add: attemptsOf_def)
qed

lemma attemptsOf_Cons: "attemptsOf ((k, a) # m) key = (if k = key then a else attemptsOf m key)"
  by (simp add: attemptsOf_def)






























lemma oldestSource_mem:
  "oldestSource (k, t) m = k \<and> (m = [] \<or> t \<noteq> zeroTime) \<or> oldestSource (k, t) m \<in> set (map fst m)"
proof (induction "(k, t)" m arbitrary: k t rule: oldestSource.induct)
  case (2 k t key a m)
  then show ?case by (cases "t = zeroTime \<or> atWindowStart a < t") (auto split: if_splits)
qed simp

lemma oldest_of_live: "m \<noteq> [] \<Longrightarrow> oldestSource ([], zeroTime) m \<in> set (map fst m)"
  using oldestSource_mem[of "[]" zeroTime m] by auto

section \<open>Properties of the lockout\<close>




text \<open>
  A lockout can be lifted by a request that was already in flight: one that came after the ten minutes of the
  window, but before the failure that locked the source was recorded, starts a new window when it fails, and the
  new entry has no lockout.
\<close>

theorem lockout_lifted_in_flight:
  "\<exists>es. lockedOut (12 * Minute) ''u'' (gdSources (fold guardStep es emptyGuard)) \<and>
        gdFlights (fold guardStep es emptyGuard) = [(''u'', 11 * Minute)] \<and>
        \<not> lockedOut (12 * Minute) ''u'' (gdSources (fold guardStep (es @ [Settled 0 Mismatched]) emptyGuard))"
  by (rule exI[of _ "replicate 4 (Asked ''u'' Minute) @ replicate 4 (Settled 0 Mismatched) @
      [Asked ''u'' (10 * Minute), Asked ''u'' (11 * Minute), Settled 1 Mismatched]"]) code_simp

text \<open>
  The bound on tracked sources can lift a lockout: when 4096 sources are tracked and all of them are
  locked out, one more failure by a new source forgets the entry of one of them, which may guess again at
  once.
\<close>

theorem eviction_lifts_lockout:
  assumes "maxTrackedSources \<le> length m" and "\<forall>(k, a)\<in>set m. now < atLockedUntil a" and "distinct (map fst m)"
    and "new \<notin> set (map fst m)"
  shows "\<exists>key\<in>set (map fst m). lockedOut now key m \<and> attemptsOf (recordFailure new now m) key = noAttempts"
proof -
  have live: "filter (\<lambda>(_, a). \<not> expiredSource now a) m = m"
    using assms(2) by (auto simp: filter_id_conv expiredSource_def)
  define key where "key = oldestSource ([], zeroTime) m"
  have "m \<noteq> []" using assms(1) by (auto simp: maxTrackedSources_def)
  then have key: "key \<in> set (map fst m)" unfolding key_def by (rule oldest_of_live)
  then obtain a where a: "(key, a) \<in> set m" by auto
  then have "map_of m key = Some a" using assms(3) by simp
  then have "lockedOut now key m" using a assms(2) by (auto simp: lockedOut_def attemptsOf_def)
  moreover have "map_of m new = None" using assms(4) by (simp add: map_of_eq_None_iff)
  then have "attemptsOf (recordFailure new now m) key = noAttempts"
    using assms(1,4) key live
    by (auto simp: recordFailure_def Let_def evictLocked_def attemptsOf_Cons attemptsOf_delete key_def[symmetric])
  ultimately show ?thesis using key by blast
qed

definition flooded :: sources where
  "flooded = map (\<lambda>i. (replicate i CHR ''a'', \<lparr>atCount = 5, atWindowStart = Minute, atLockedUntil = Hour\<rparr>)) [0..<4096]"

theorem eviction_lifts_lockout_witness:
  "\<exists>key\<in>set (map fst flooded). lockedOut (2 * Minute) key flooded \<and>
     attemptsOf (recordFailure ''b'' (2 * Minute) flooded) key = noAttempts"
proof (rule eviction_lifts_lockout)
  have keys: "map fst flooded = map (\<lambda>i. replicate i CHR ''a'') [0..<4096]" by (simp add: flooded_def comp_def)
  show "distinct (map fst flooded)" unfolding keys by (auto simp: distinct_map inj_on_def replicate_eq_replicate)
  have "''b'' \<noteq> replicate i CHR ''a''" for i by (cases i) auto
  then show "''b'' \<notin> set (map fst flooded)" unfolding keys by auto
qed (auto simp: flooded_def maxTrackedSources_def Hour_def Minute_def Second_def)

section \<open>Session lifetimes\<close>

lemma wrap64_small: "- (2 ^ 63) \<le> x \<Longrightarrow> x < 2 ^ 63 \<Longrightarrow> wrap64 x = x"
  by (simp add: wrap64_def)

lemma issueSession_row:
  assumes "issueSession th w ttl now r tbl = (Inr s, tbl')"
  shows "tbSessions tbl' (th (snToken s)) = None \<or>
    (\<exists>row. tbSessions tbl' (th (snToken s)) = Some row \<and> ssExpires row = Some (now + ttl) \<and> ssCSRF row = snCSRF s)"
  using assms
  by (auto simp: issueSession_def insertSession_def PruneExpired_def touchUser_def split: sum.splits option.splits if_splits)

lemma parseTTL_FormatUint:
  "0 < n \<Longrightarrow> n < 2 ^ 32 \<Longrightarrow> parseTTL (FormatUint n @ ''d'') = Inr (wrap64 (wrap64 (int n * 24) * Hour))"
  using ParseUint_FormatUint[of n 32] by (simp add: parseTTL_def HasSuffix_def TrimSuffix_def)

lemma wrap64_days: "n \<le> 106751 \<Longrightarrow> wrap64 (wrap64 (int n * 24) * Hour) = int n * 24 * Hour"
proof -
  assume n: "n \<le> 106751"
  then have "wrap64 (int n * 24) = int n * 24" by (intro wrap64_small) auto
  moreover have "wrap64 (int n * 24 * Hour) = int n * 24 * Hour"
    using n by (intro wrap64_small) (auto simp: Hour_def Minute_def Second_def)
  ultimately show ?thesis by simp
qed

lemma FormatUint_106752: "FormatUint 106752 @ ''d'' = ''106752d''"
  by (simp add: FormatUint.simps char_of_def bit_0)

lemma wrap64_106752: "wrap64 (wrap64 (int 106752 * 24) * Hour) = - 9223371273709551616"
  by (simp add: wrap64_def Hour_def Minute_def Second_def)

text \<open>
  Up to 106751 days, the largest number of days a \<open>time.Duration\<close> holds, a lifetime in days is what it
  says.  Beyond that the product wraps: \<open>106752d\<close> passes both the schema and \<open>parseTTL\<close> and gives a negative
  lifetime, and a session that is issued with it never authenticates.
\<close>

theorem parseTTL_days:
  "(\<forall>n. 0 < n \<and> n \<le> 106751 \<longrightarrow> parseTTL (FormatUint n @ ''d'') = Inr (int n * 24 * Hour)) \<and>
   parseTTL ''106752d'' = Inr (- 9223371273709551616) \<and>
   (\<forall>th w now r tbl s tbl' later.
      issueSession th w (- 9223371273709551616) now r tbl = (Inr s, tbl') \<and> now \<le> later \<longrightarrow>
      fst (Authenticate th None None later (snToken s) tbl') = Inl ErrNoSession)"
proof (intro conjI allI impI)
  show "parseTTL (FormatUint n @ ''d'') = Inr (int n * 24 * Hour)" if "0 < n \<and> n \<le> 106751" for n
    using that parseTTL_FormatUint[of n] wrap64_days[of n] by simp
  have "parseTTL (FormatUint 106752 @ ''d'') = Inr (wrap64 (wrap64 (int 106752 * 24) * Hour))"
    by (rule parseTTL_FormatUint) simp_all
  then show "parseTTL ''106752d'' = Inr (- 9223371273709551616)" unfolding FormatUint_106752 wrap64_106752 .
  show "fst (Authenticate th None None later (snToken s) tbl') = Inl ErrNoSession"
    if "issueSession th w (- 9223371273709551616) now r tbl = (Inr s, tbl') \<and> now \<le> later"
    for th w now r tbl s tbl' later
    using issueSession_row[OF conjunct1[OF that]] conjunct2[OF that]
    by (auto simp: Authenticate_def split: option.splits)
qed

definition quietWorld :: loginWorld where
  "quietWorld = \<lparr>lwToken = Some ''token'', lwCSRF = Some ''csrf'', lwInsert = None, lwUpdate = None, lwPrune = None, lwLater = 0\<rparr>"

definition alice :: loginRequest where
  "alice = \<lparr>lrUsername = ''alice'', lrPassword = ''hunter2'', lrUserAgent = ''ua'', lrIP = ''::1''\<rparr>"

definition aliceTables :: authTables where
  "aliceTables = \<lparr>tbUser = Some \<lparr>usUsername = ''alice'', usPasswordHash = ''h'', usLastLogin = None\<rparr>, tbSessions = Map.empty\<rparr>"

theorem parseTTL_days_witness:
  "parseTTL ''30d'' = Inr (30 * 24 * Hour) \<and>
   (\<exists>s tbl. issueSession id quietWorld (- 9223371273709551616) 5 alice aliceTables = (Inr s, tbl) \<and>
      fst (Authenticate id None None 6 (snToken s) tbl) = Inl ErrNoSession)"
proof -
  obtain s tbl where i: "issueSession id quietWorld (- 9223371273709551616) 5 alice aliceTables = (Inr s, tbl)"
    by (simp add: issueSession_def quietWorld_def randomToken_def insertSession_def aliceTables_def)
  note ttl = conjunct1[OF parseTTL_days, rule_format, of 30]
    and expired = conjunct2[OF conjunct2[OF parseTTL_days], rule_format, OF conjI, OF i]
  have "FormatUint 30 @ ''d'' = ''30d''" by (simp add: FormatUint.simps char_of_def bit_0)
  with ttl have "parseTTL ''30d'' = Inr (30 * 24 * Hour)" by simp
  with i expired[of 6] show ?thesis by auto
qed

end
