(* ===== verification/AuthSystem.thy ===== *)
theory AuthSystem
  imports Sessions
begin

text \<open>
  The authentication service under concurrent requests (\<open>internal/auth/service.go\<close>, \<open>verifier.go\<close>).  A
  login and a sudo request are tasks with the phases their code goes through; every other operation is one
  step.  Two history variables record what was presented: the user name and the password a stored session
  was opened with, and the password and the time a sudo window was opened with.
\<close>

section \<open>Tasks and steps\<close>

datatype authTask =
    LoginQueued captured loginRequest
  | LoginHashing captured loginRequest
  | SudoAuthenticated string string string
  | SudoQueued captured string string string
  | SudoHashing captured string string string

record authSys =
  asService :: Service
  asTables :: authTables
  asVerifier :: verifier
  asTasks :: "authTask list"
  asPresented :: "string \<rightharpoonup> string \<times> string"
  asSudoBy :: "string \<rightharpoonup> string \<times> instant"

text \<open>What a task that holds the lock for reading captured under it.\<close>

fun underLock :: "authTask \<Rightarrow> captured option" where
  "underLock (LoginQueued c r) = Some c"
| "underLock (LoginHashing c r) = Some c"
| "underLock (SudoAuthenticated sid pw ip) = None"
| "underLock (SudoQueued c sid pw ip) = Some c"
| "underLock (SudoHashing c sid pw ip) = Some c"

fun hashing :: "authTask \<Rightarrow> bool" where
  "hashing (LoginHashing c r) = True"
| "hashing (SudoHashing c sid pw ip) = True"
| "hashing _ = False"

definition afterLogin :: "(string \<Rightarrow> string) \<Rightarrow> loginRequest \<Rightarrow> (authError, Session) result \<Rightarrow>
    (string \<rightharpoonup> string \<times> string) \<Rightarrow> (string \<rightharpoonup> string \<times> string)" where
  "afterLogin th r res presented =
     (case res of
        Inl _ \<Rightarrow> presented
      | Inr sn \<Rightarrow> presented(th (snToken sn) \<mapsto> (lrUsername r, lrPassword r)))"

inductive authStep :: "IDKey \<Rightarrow> (string \<Rightarrow> string) \<Rightarrow> authSys \<Rightarrow> authSys \<Rightarrow> bool" for idKey th where
  loginStart:
    "\<lbrakk>\<not> lockedOut now (loginKey (lrUsername r) (lrIP r)) (svAttempts (asService s));
      enterQueue (asVerifier s) = Some v\<rbrakk> \<Longrightarrow>
     authStep idKey th s
       (s\<lparr>asVerifier := v, asTasks := LoginQueued (capture now (asService s)) r # asTasks s\<rparr>)"
| loginSlot:
    "\<lbrakk>asTasks s = xs @ LoginQueued c r # ys; takeSlot (asVerifier s) = Some v\<rbrakk> \<Longrightarrow>
     authStep idKey th s (s\<lparr>asVerifier := v, asTasks := xs @ LoginHashing c r # ys\<rparr>)"
| loginEnd:
    "\<lbrakk>asTasks s = xs @ LoginHashing c r # ys;
      loginFinish idKey th w c r (svAttempts (asService s)) (asTables s) = (res, m, tbl)\<rbrakk> \<Longrightarrow>
     authStep idKey th s
       (s\<lparr>asVerifier := leaveVerifier (asVerifier s), asTasks := xs @ ys,
          asService := (asService s)\<lparr>svAttempts := m\<rparr>, asTables := tbl,
          asPresented := afterLogin th r res (asPresented s)\<rparr>)"
| authenticate:
    "Authenticate th qerr werr now token (asTables s) = (res, tbl) \<Longrightarrow>
     authStep idKey th s (s\<lparr>asTables := tbl\<rparr>)"
| sudoAuthenticate:
    "Authenticate th qerr werr now token (asTables s) = (Inr (identity, csrf), tbl) \<Longrightarrow>
     authStep idKey th s
       (s\<lparr>asTables := tbl, asTasks := SudoAuthenticated (idSession identity) password ip # asTasks s\<rparr>)"
| sudoRefused:
    "asTasks s = xs @ SudoAuthenticated sid password ip # ys \<Longrightarrow>
     lockedOut now (sudoKey sid ip) (svAttempts (asService s)) \<or> enterQueue (asVerifier s) = None \<Longrightarrow>
     authStep idKey th s (s\<lparr>asTasks := xs @ ys\<rparr>)"
| sudoStart:
    "\<lbrakk>asTasks s = xs @ SudoAuthenticated sid password ip # ys;
      \<not> lockedOut now (sudoKey sid ip) (svAttempts (asService s)); enterQueue (asVerifier s) = Some v\<rbrakk> \<Longrightarrow>
     authStep idKey th s
       (s\<lparr>asVerifier := v, asTasks := SudoQueued (capture now (asService s)) sid password ip # xs @ ys\<rparr>)"
| sudoSlot:
    "\<lbrakk>asTasks s = xs @ SudoQueued c sid password ip # ys; takeSlot (asVerifier s) = Some v\<rbrakk> \<Longrightarrow>
     authStep idKey th s (s\<lparr>asVerifier := v, asTasks := xs @ SudoHashing c sid password ip # ys\<rparr>)"
| sudoEnd:
    "\<lbrakk>asTasks s = xs @ SudoHashing c sid password ip # ys;
      sudoFinish idKey later c sid password ip (asService s) = (err, sv)\<rbrakk> \<Longrightarrow>
     authStep idKey th s
       (s\<lparr>asVerifier := leaveVerifier (asVerifier s), asTasks := xs @ ys, asService := sv,
          asSudoBy := (if err = None then (asSudoBy s)(sid \<mapsto> (password, later)) else asSudoBy s)\<rparr>)"
| logout:
    "Logout th err token (asService s) (asTables s) = (e, sv, tbl) \<Longrightarrow>
     authStep idKey th s (s\<lparr>asService := sv, asTables := tbl\<rparr>)"
| privileged:
    "AllowsPrivileged now identity (asService s) = (b, sv) \<Longrightarrow> authStep idKey th s (s\<lparr>asService := sv\<rparr>)"
| prune:
    "authStep idKey th s (s\<lparr>asTables := PruneExpired err now (asTables s)\<rparr>)"
| rotate:
    "\<lbrakk>\<forall>t\<in>set (asTasks s). underLock t = None; rwRevoke w = None;
      Reconfigure w cfg (asService s) (asTables s) = (err, sv, tbl)\<rbrakk> \<Longrightarrow>
     authStep idKey th s (s\<lparr>asService := sv, asTables := tbl\<rparr>)"
| restart:
    "\<lbrakk>rwRevoke w = None; New w cfg (asTables s) = (Inr sv, tbl)\<rbrakk> \<Longrightarrow>
     authStep idKey th s
       (s\<lparr>asService := sv, asTables := tbl, asVerifier := newVerifier, asTasks := []\<rparr>)"

text \<open>The first start on an empty database.\<close>

definition noAuthTables :: authTables where
  "noAuthTables = \<lparr>tbUser = None, tbSessions = Map.empty\<rparr>"

definition started :: "Service \<Rightarrow> authTables \<Rightarrow> authSys" where
  "started sv tbl = \<lparr>asService = sv, asTables = tbl, asVerifier = newVerifier, asTasks = [],
     asPresented = Map.empty, asSudoBy = Map.empty\<rparr>"

inductive authReachable :: "IDKey \<Rightarrow> (string \<Rightarrow> string) \<Rightarrow> authSys \<Rightarrow> bool" for idKey th where
  first: "New w cfg noAuthTables = (Inr sv, tbl) \<Longrightarrow> authReachable idKey th (started sv tbl)"
| more: "authReachable idKey th s \<Longrightarrow> authStep idKey th s s' \<Longrightarrow> authReachable idKey th s'"

text \<open>The interface an invariant of the service has to meet.\<close>

locale auth_invariant =
  fixes idKey :: IDKey and th :: "string \<Rightarrow> string" and I :: "authSys \<Rightarrow> bool"
  assumes initially: "New w cfg noAuthTables = (Inr sv, tbl) \<Longrightarrow> I (started sv tbl)"
    and kept: "I s \<Longrightarrow> authStep idKey th s s' \<Longrightarrow> I s'"
begin

lemma always: "authReachable idKey th s \<Longrightarrow> I s"
  by (induction rule: authReachable.induct) (auto intro: initially kept)

end

section \<open>Sessions belong to the configured credentials\<close>

definition configured :: "Service \<Rightarrow> authTables \<Rightarrow> bool" where
  "configured sv tbl \<longleftrightarrow>
     (\<exists>u. tbUser tbl = Some u \<and> usUsername u = svUsername sv \<and> parseArgon2ID (usPasswordHash u) = Inr (svParams sv))"

definition presentedNow :: "IDKey \<Rightarrow> Service \<Rightarrow> (string \<times> string) option \<Rightarrow> bool" where
  "presentedNow idKey sv p \<longleftrightarrow>
     (\<exists>pw. p = Some (svUsername sv, pw) \<and> verifyPassword idKey (svParams sv) pw)"

definition sessionsInv :: "IDKey \<Rightarrow> authSys \<Rightarrow> bool" where
  "sessionsInv idKey s \<longleftrightarrow>
     (\<forall>sid\<in>dom (tbSessions (asTables s)). presentedNow idKey (asService s) (asPresented s sid))"

definition windowOK :: "IDKey \<Rightarrow> Service \<Rightarrow> (string \<times> instant) option \<Rightarrow> instant \<Rightarrow> bool" where
  "windowOK idKey sv p until \<longleftrightarrow>
     (\<exists>pw opened. p = Some (pw, opened) \<and> verifyPassword idKey (svParams sv) pw \<and> until = opened + 5 * Minute)"

definition sudoInv :: "IDKey \<Rightarrow> authSys \<Rightarrow> bool" where
  "sudoInv idKey s \<longleftrightarrow>
     (\<forall>sid until. svSudoUntil (asService s) sid = Some until \<longrightarrow> windowOK idKey (asService s) (asSudoBy s sid) until)"

definition capturedOK :: "Service \<Rightarrow> authTask \<Rightarrow> bool" where
  "capturedOK sv t \<longleftrightarrow> (\<forall>c. underLock t = Some c \<longrightarrow> cpUsername c = svUsername sv \<and> cpParams c = svParams sv)"

definition credInv :: "IDKey \<Rightarrow> authSys \<Rightarrow> bool" where
  "credInv idKey s \<longleftrightarrow> configured (asService s) (asTables s) \<and> sessionsInv idKey s \<and> sudoInv idKey s \<and>
     list_all (capturedOK (asService s)) (asTasks s)"

definition sameCredentials :: "Service \<Rightarrow> Service \<Rightarrow> bool" where
  "sameCredentials sv sv' \<longleftrightarrow> svUsername sv' = svUsername sv \<and> svParams sv' = svParams sv"

lemma sameCredentials_simps:
  assumes "sameCredentials sv sv'"
  shows "presentedNow idKey sv' p = presentedNow idKey sv p" "windowOK idKey sv' q t = windowOK idKey sv q t"
    "capturedOK sv' = capturedOK sv" "configured sv' tbl = configured sv tbl"
  using assms
  by (simp_all add: sameCredentials_def presentedNow_def windowOK_def capturedOK_def configured_def fun_eq_iff)

text \<open>
  A step that leaves the credentials alone, loses sessions and windows at most, and keeps the tasks that
  hold the lock.
\<close>

lemma credInv_frame:
  assumes inv: "credInv idKey s" and cred: "sameCredentials (asService s) (asService s')"
    and tbl: "configured (asService s) (asTables s')"
    and sessions: "dom (tbSessions (asTables s')) \<subseteq> dom (tbSessions (asTables s))" "asPresented s' = asPresented s"
    and sudo: "svSudoUntil (asService s') \<subseteq>\<^sub>m svSudoUntil (asService s)" "asSudoBy s' = asSudoBy s"
    and tasks: "list_all (capturedOK (asService s)) (asTasks s')"
  shows "credInv idKey s'"
proof -
  have "sessionsInv idKey s'"
    using inv sessions unfolding credInv_def sessionsInv_def sameCredentials_simps[OF cred] by auto
  moreover have "sudoInv idKey s'"
    using inv sudo unfolding credInv_def sudoInv_def sameCredentials_simps[OF cred] map_le_def dom_def by fastforce
  ultimately show ?thesis using tbl tasks by (simp add: credInv_def sameCredentials_simps[OF cred])
qed

lemma sameCredentials_refl [simp]: "sameCredentials sv sv" "sameCredentials sv (sv\<lparr>svAttempts := m\<rparr>)"
  "sameCredentials sv (sv\<lparr>svSudoUntil := u\<rparr>)" "sameCredentials sv (sv\<lparr>svAttempts := m, svSudoUntil := u\<rparr>)"
  by (simp_all add: sameCredentials_def)

lemma configured_sessions: "tbUser tbl' = tbUser tbl \<Longrightarrow> configured sv tbl' = configured sv tbl"
  by (simp add: configured_def)

lemma Authenticate_tables:
  assumes "Authenticate th qerr werr now token tbl = (res, tbl')"
  shows "tbUser tbl' = tbUser tbl" "dom (tbSessions tbl') \<subseteq> dom (tbSessions tbl)"
  using assms by (auto simp: Authenticate_def deleteSession_def split: if_splits option.splits)

lemma PruneExpired_tables: "tbUser (PruneExpired err now tbl) = tbUser tbl"
    "dom (tbSessions (PruneExpired err now tbl)) \<subseteq> dom (tbSessions tbl)"
  by (auto simp: PruneExpired_def split: option.splits)

lemma Logout_frame:
  assumes "Logout th err token sv tbl = (e, sv', tbl')"
  shows "sameCredentials sv sv'" "svSudoUntil sv' \<subseteq>\<^sub>m svSudoUntil sv" "tbUser tbl' = tbUser tbl"
    "dom (tbSessions tbl') \<subseteq> dom (tbSessions tbl)"
  using assms by (auto simp: Logout_def deleteSession_def map_le_def split: if_splits)

lemma AllowsPrivileged_frame:
  assumes "AllowsPrivileged now identity sv = (b, sv')"
  shows "sameCredentials sv sv'" "svSudoUntil sv' \<subseteq>\<^sub>m svSudoUntil sv"
  using assms by (auto simp: AllowsPrivileged_def map_le_def split: if_splits option.splits)

lemma capturedOK_capture: "underLock t = Some (capture now sv) \<Longrightarrow> capturedOK sv t"
  by (simp add: capturedOK_def capture_def)

lemma issueSession_cases:
  assumes "issueSession th w ttl now r tbl = (res, tbl')"
  obtains (failed) err where "res = Inl err" "tbl' = tbl"
  | (issued) sn row where "res = Inr sn"
      "tbl' = PruneExpired (lwPrune w) (lwLater w)
        (touchUser (lwUpdate w) now (tbl\<lparr>tbSessions := (tbSessions tbl)(th (snToken sn) \<mapsto> row)\<rparr>))"
  using assms by (auto simp: issueSession_def insertSession_def split: sum.splits option.splits if_splits)

lemma touchUser_tables [simp]: "configured sv (touchUser err now t) = configured sv t"
  "tbSessions (touchUser err now t) = tbSessions t"
  by (cases "tbUser t"; simp add: touchUser_def configured_def)+

lemma configured_Prune [simp]: "configured sv (PruneExpired err now t) = configured sv t"
  by (rule configured_sessions) (rule PruneExpired_tables)

lemma configured_update [simp]: "configured sv (t\<lparr>tbSessions := m\<rparr>) = configured sv t"
  by (simp add: configured_def)

lemma issueSession_tables:
  assumes "issueSession th w ttl now r tbl = (res, tbl')"
  shows "configured sv tbl' = configured sv tbl"
    and "dom (tbSessions tbl') \<subseteq> (case res of Inl _ \<Rightarrow> {} | Inr sn \<Rightarrow> {th (snToken sn)}) \<union> dom (tbSessions tbl)"
proof -
  show "configured sv tbl' = configured sv tbl" using assms by (cases rule: issueSession_cases) simp_all
  show "dom (tbSessions tbl') \<subseteq> (case res of Inl _ \<Rightarrow> {} | Inr sn \<Rightarrow> {th (snToken sn)}) \<union> dom (tbSessions tbl)"
    using assms
  proof (cases rule: issueSession_cases)
    case (issued sn row)
    then show ?thesis
      using PruneExpired_tables(2)[of "lwPrune w" "lwLater w"
          "touchUser (lwUpdate w) now (tbl\<lparr>tbSessions := (tbSessions tbl)(th (snToken sn) \<mapsto> row)\<rparr>)"] by simp
  qed simp
qed

lemma credInv_loginEnd:
  assumes inv: "credInv idKey s" and t: "asTasks s = xs @ LoginHashing c r # ys"
    and fin: "loginFinish idKey th w c r (svAttempts (asService s)) (asTables s) = (res, m, tbl)"
  shows "credInv idKey
       (s\<lparr>asVerifier := v, asTasks := xs @ ys, asService := (asService s)\<lparr>svAttempts := m\<rparr>, asTables := tbl,
          asPresented := afterLogin th r res (asPresented s)\<rparr>)"
proof -
  define sv where "sv = asService s"
  have c: "cpUsername c = svUsername sv" "cpParams c = svParams sv"
    using inv t by (auto simp: credInv_def capturedOK_def sv_def)
  have conf: "configured sv (asTables s)" using inv by (simp add: credInv_def sv_def)
  have valid: "loginValid idKey c r" if "res = Inr sn" for sn
    using fin that by (auto simp: loginFinish_def Let_def split: if_splits)
  have "configured sv tbl" and
    dom: "dom (tbSessions tbl) \<subseteq> (case res of Inl _ \<Rightarrow> {} | Inr sn \<Rightarrow> {th (snToken sn)}) \<union> dom (tbSessions (asTables s))"
    using fin conf issueSession_tables[of th w "cpTTL c" "cpNow c" r "asTables s"]
    by (auto simp: loginFinish_def Let_def split: if_splits prod.splits)
  moreover have "presentedNow idKey sv (afterLogin th r res (asPresented s) sid)" if "sid \<in> dom (tbSessions tbl)" for sid
  proof (cases res)
    case (Inl e)
    then show ?thesis using that dom inv by (auto simp: afterLogin_def credInv_def sessionsInv_def sv_def)
  next
    case (Inr sn)
    then show ?thesis using that dom inv valid[OF Inr] c
      by (auto simp: afterLogin_def credInv_def sessionsInv_def presentedNow_def loginValid_def sv_def)
  qed
  ultimately show ?thesis using inv t
    by (simp add: credInv_def sessionsInv_def sudoInv_def sv_def sameCredentials_simps[OF sameCredentials_refl(2)])
qed

lemma credInv_sudoEnd:
  assumes inv: "credInv idKey s" and t: "asTasks s = xs @ SudoHashing c sid password ip # ys"
    and fin: "sudoFinish idKey later c sid password ip (asService s) = (err, sv)"
  shows "credInv idKey
       (s\<lparr>asVerifier := v, asTasks := xs @ ys, asService := sv,
          asSudoBy := (if err = None then (asSudoBy s)(sid \<mapsto> (password, later)) else asSudoBy s)\<rparr>)"
proof -
  have c: "cpParams c = svParams (asService s)" using inv t by (auto simp: credInv_def capturedOK_def)
  have same: "sameCredentials (asService s) sv" using fin by (auto simp: sudoFinish_def split: if_splits)
  have "windowOK idKey (asService s) ((if err = None then (asSudoBy s)(sid \<mapsto> (password, later)) else asSudoBy s) k) until"
    if "svSudoUntil sv k = Some until" for k until
    using that fin c inv by (auto simp: sudoFinish_def windowOK_def credInv_def sudoInv_def split: if_splits)
  then show ?thesis using inv t
    by (simp add: credInv_def sessionsInv_def sudoInv_def sameCredentials_simps[OF same])
qed

lemma validateAuth_parses: "validateAuth cfg = Inr (hash, params, ttl) \<Longrightarrow> parseArgon2ID hash = Inr params"
  by (auto simp: validateAuth_def split: sum.splits if_splits)

text \<open>A rotation keeps the credentials, or ends everything the old ones authorised.\<close>

lemma Reconfigure_outcome:
  assumes "Reconfigure w cfg sv tbl = (err, sv', tbl')" and "rwRevoke w = None" and "configured sv tbl"
  shows "sameCredentials sv sv' \<and> configured sv tbl' \<and> tbSessions tbl' = tbSessions tbl \<and>
      svSudoUntil sv' = svSudoUntil sv \<or>
    configured sv' tbl' \<and> tbSessions tbl' = Map.empty \<and> svSudoUntil sv' = Map.empty"
proof -
  obtain u where u: "tbUser tbl = Some u" "usUsername u = svUsername sv" "parseArgon2ID (usPasswordHash u) = Inr (svParams sv)"
    using assms(3) by (auto simp: configured_def)
  show ?thesis
    using assms u validateAuth_parses
    by (auto simp: Reconfigure_def credentialsDiffer_def Let_def updateUser_def revokeEverythingLocked_def
        sameCredentials_def configured_def split: sum.splits prod.splits option.splits if_splits)
qed

lemma New_outcome:
  assumes "New w cfg tbl = (Inr sv', tbl')"
  shows "configured sv' tbl'" "svSudoUntil sv' = Map.empty"
    "configured sv tbl \<Longrightarrow> sameCredentials sv sv' \<and> tbSessions tbl' = tbSessions tbl \<or> tbSessions tbl' = Map.empty"
    "tbUser tbl = None \<Longrightarrow> tbSessions tbl' = tbSessions tbl"
  using assms
  by (auto simp: New_def credentialsDiffer_def Let_def upsertUser_def sameCredentials_def configured_def
      split: sum.splits option.splits if_splits)

lemma credInv_empty:
  assumes "configured (asService s) (asTables s)" "tbSessions (asTables s) = Map.empty"
    and "svSudoUntil (asService s) = Map.empty" "list_all (capturedOK (asService s)) (asTasks s)"
  shows "credInv idKey s"
  using assms by (simp add: credInv_def sessionsInv_def sudoInv_def)

lemma credInv_step:
  assumes "credInv idKey s" and "authStep idKey th s s'"
  shows "credInv idKey s'"
  using assms(2,1)
proof (induction rule: authStep.induct)
  case (loginEnd s xs c r ys w res m tbl)
  then show ?case by (rule credInv_loginEnd[rotated])
next
  case (sudoEnd s xs c sid password ip ys later err sv)
  then show ?case by (rule credInv_sudoEnd[rotated])
next
  case (rotate s w cfg err sv tbl)
  have conf: "configured (asService s) (asTables s)" using rotate.prems by (simp add: credInv_def)
  have tasks: "list_all (capturedOK sv') (asTasks s)" for sv'
    using rotate.hyps(1) by (simp add: list_all_iff capturedOK_def)
  show ?case using Reconfigure_outcome[OF rotate.hyps(3,2) conf]
  proof (elim disjE conjE)
    assume "sameCredentials (asService s) sv" "configured (asService s) tbl"
      "tbSessions tbl = tbSessions (asTables s)" "svSudoUntil sv = svSudoUntil (asService s)"
    then show ?thesis by (intro credInv_frame[OF rotate.prems]) (simp_all add: tasks)
  next
    assume "configured sv tbl" "tbSessions tbl = Map.empty" "svSudoUntil sv = Map.empty"
    then show ?thesis by (intro credInv_empty) (simp_all add: tasks)
  qed
next
  case (restart w cfg s sv tbl)
  note out = New_outcome[OF restart.hyps(2)]
  have conf: "configured (asService s) (asTables s)" using restart.prems by (simp add: credInv_def)
  show ?case using out(3)[OF conf]
  proof (elim disjE conjE)
    assume same: "sameCredentials (asService s) sv" "tbSessions tbl = tbSessions (asTables s)"
    then show ?thesis using out(1,2)
      by (intro credInv_frame[OF restart.prems]) (simp_all add: sameCredentials_simps(4)[OF same(1)])
  next
    assume "tbSessions tbl = Map.empty"
    then show ?thesis using out(1,2) by (intro credInv_empty) simp_all
  qed
next
  case (loginStart now r s v)
  then show ?case
    by (intro credInv_frame[OF loginStart.prems]) (auto simp: credInv_def intro: capturedOK_capture)
next
  case (loginSlot s xs c r ys v)
  then show ?case by (intro credInv_frame[OF loginSlot.prems]) (auto simp: credInv_def capturedOK_def)
next
  case (authenticate qerr werr now token s res tbl)
  note frame = Authenticate_tables[OF authenticate.hyps]
  show ?case using authenticate.prems frame
    by (intro credInv_frame[OF authenticate.prems]) (simp_all add: credInv_def configured_sessions[OF frame(1)])
next
  case (sudoAuthenticate qerr werr now token s identity csrf tbl password ip)
  note frame = Authenticate_tables[OF sudoAuthenticate.hyps]
  show ?case using sudoAuthenticate.prems frame
    by (intro credInv_frame[OF sudoAuthenticate.prems])
       (simp_all add: credInv_def configured_sessions[OF frame(1)] capturedOK_def)
next
  case (sudoRefused s xs sid password ip ys now)
  show ?case using sudoRefused.prems sudoRefused.hyps(1)
    by (intro credInv_frame[OF sudoRefused.prems]) (simp_all add: credInv_def)
next
  case (sudoStart s xs sid password ip ys now v)
  show ?case using sudoStart.prems sudoStart.hyps(1)
    by (intro credInv_frame[OF sudoStart.prems]) (simp_all add: credInv_def capturedOK_capture)
next
  case (sudoSlot s xs c sid password ip ys v)
  show ?case using sudoSlot.prems sudoSlot.hyps(1)
    by (intro credInv_frame[OF sudoSlot.prems]) (simp_all add: credInv_def capturedOK_def)
next
  case (logout err token s e sv tbl)
  note frame = Logout_frame[OF logout.hyps]
  show ?case using logout.prems frame
    by (intro credInv_frame[OF logout.prems]) (simp_all add: credInv_def configured_sessions[OF frame(3)])
next
  case (privileged now identity s b sv)
  note frame = AllowsPrivileged_frame[OF privileged.hyps]
  show ?case using privileged.prems frame
    by (intro credInv_frame[OF privileged.prems]) (simp_all add: credInv_def)
next
  case (prune s err now)
  show ?case using prune.prems
    by (intro credInv_frame[OF prune.prems]) (simp_all add: credInv_def PruneExpired_tables)
qed

interpretation credentials: auth_invariant idKey th "credInv idKey" for idKey th
proof
  fix w cfg sv tbl
  assume new: "New w cfg noAuthTables = (Inr sv, tbl)"
  show "credInv idKey (started sv tbl)"
    using New_outcome(1,2)[OF new] New_outcome(4)[OF new]
    by (intro credInv_empty) (simp_all add: started_def noAuthTables_def)
qed (rule credInv_step)

section \<open>The pool\<close>

definition poolInv :: "authSys \<Rightarrow> bool" where
  "poolInv s \<longleftrightarrow>
     vSlots (asVerifier s) = length (filter hashing (asTasks s)) \<and>
     vWaiting (asVerifier s) = length (filter (\<lambda>t. underLock t \<noteq> None) (asTasks s)) \<and>
     vSlots (asVerifier s) \<le> maxConcurrentVerifications \<and>
     vWaiting (asVerifier s) \<le> maxConcurrentVerifications + maxQueuedVerifications"

lemma enterQueue_Some: "enterQueue v = Some v' \<longleftrightarrow>
    vWaiting v < maxQueuedVerifications + maxConcurrentVerifications \<and> v' = v\<lparr>vWaiting := vWaiting v + 1\<rparr>"
  by (auto simp: enterQueue_def)

lemma takeSlot_Some: "takeSlot v = Some v' \<longleftrightarrow>
    vSlots v < maxConcurrentVerifications \<and> v' = v\<lparr>vSlots := vSlots v + 1, vAdmitted := vAdmitted v + 1\<rparr>"
  by (auto simp: takeSlot_def)

lemma poolInv_step:
  assumes "poolInv s" and "authStep idKey th s s'"
  shows "poolInv s'"
  using assms(2,1)
  by (induction rule: authStep.induct)
     (auto simp: poolInv_def enterQueue_Some takeSlot_Some leaveVerifier_def newVerifier_def)

interpretation pool: auth_invariant idKey th poolInv for idKey th
  by standard (simp add: poolInv_def started_def newVerifier_def, rule poolInv_step)

section \<open>A concrete run\<close>

text \<open>The administrator alice logs in to a freshly started service and opens a sudo window.\<close>

definition phcExample :: "string \<Rightarrow> string" where
  "phcExample pw = phcText DefaultHashCost (replicate 16 CHR ''s'') (toyKey pw [] 0 0 0 32)"

definition paramsExample :: "string \<Rightarrow> argonParams" where
  "paramsExample pw = \<lparr>apMemory = hcMemoryKiB DefaultHashCost, apIterations = hcIterations DefaultHashCost,
     apParallelism = hcParallelism DefaultHashCost, apSalt = replicate 16 CHR ''s'', apHash = toyKey pw [] 0 0 0 32\<rparr>"

definition configExample :: "string \<Rightarrow> AuthConfig" where
  "configExample pw = \<lparr>acUsername = ''alice'', acPasswordHash = phcExample pw, acResolved = Map.empty, acSessionTTL = []\<rparr>"

lemma validate_example: "validateAuth (configExample pw) = Inr (phcExample pw, paramsExample pw, 30 * 24 * Hour)"
proof -
  have "parseArgon2ID (phcExample pw) = Inr (paramsExample pw)"
    unfolding phcExample_def paramsExample_def
    by (rule parse_phcText) (simp_all add: checkCost_def DefaultHashCost_def length_toyKey)
  moreover have "matchRef (phcExample pw) = None"
    by (simp add: matchRef_def HasPrefix_def phcExample_def phcText_def refOpen_def)
  ultimately show ?thesis
    by (simp add: validateAuth_def configExample_def resolvePasswordHash_def parseTTL_def TrimSpace_def isSpace_def)
qed

definition serviceExample :: Service where
  "serviceExample = \<lparr>svUsername = ''alice'', svParams = paramsExample ''hunter2'', svTTL = 30 * 24 * Hour,
     svAttempts = [], svSudoUntil = Map.empty\<rparr>"

definition quiet :: rotateWorld where
  "quiet = \<lparr>rwQuery = None, rwUpdate = None, rwRevoke = None\<rparr>"

definition rowExample :: userRow where
  "rowExample = \<lparr>usUsername = ''alice'', usPasswordHash = phcExample ''hunter2'', usLastLogin = None\<rparr>"

lemma New_example:
  "New quiet (configExample ''hunter2'') noAuthTables =
     (Inr serviceExample, \<lparr>tbUser = Some rowExample, tbSessions = Map.empty\<rparr>)"
  using validate_example[of "''hunter2''"]
  by (auto simp: New_def validateAuth_def quiet_def credentialsDiffer_def noAuthTables_def upsertUser_def
      serviceExample_def rowExample_def configExample_def Let_def split: sum.splits if_splits)

definition startedExample :: authSys where
  "startedExample = started serviceExample \<lparr>tbUser = Some rowExample, tbSessions = Map.empty\<rparr>"

definition queuedExample :: authSys where
  "queuedExample = startedExample\<lparr>asVerifier := \<lparr>vSlots = 0, vWaiting = 1, vAdmitted = 0\<rparr>,
     asTasks := [LoginQueued (capture 5 serviceExample) alice]\<rparr>"

lemma queuedExample_step: "authStep toyKey id startedExample queuedExample"
proof -
  have "\<not> lockedOut 5 (loginKey (lrUsername alice) (lrIP alice)) (svAttempts (asService startedExample))"
    by (simp add: startedExample_def started_def serviceExample_def lockedOut_def attemptsOf_def noAttempts_def zeroTime_def
        Second_def)
  moreover have "enterQueue (asVerifier startedExample) = Some \<lparr>vSlots = 0, vWaiting = 1, vAdmitted = 0\<rparr>"
    by (simp add: startedExample_def started_def newVerifier_def enterQueue_def maxQueuedVerifications_def)
  ultimately show ?thesis
    using authStep.loginStart[of 5 alice startedExample] by (simp add: queuedExample_def startedExample_def started_def)
qed

definition hashingExample :: authSys where
  "hashingExample = (started serviceExample \<lparr>tbUser = Some rowExample, tbSessions = Map.empty\<rparr>)
     \<lparr>asVerifier := \<lparr>vSlots = 1, vWaiting = 1, vAdmitted = 1\<rparr>,
      asTasks := [LoginHashing (capture 5 serviceExample) alice]\<rparr>"

lemma hashingExample_reachable: "authReachable toyKey id hashingExample"
proof -
  have "authReachable toyKey id startedExample" unfolding startedExample_def by (rule authReachable.first[OF New_example])
  moreover have "authStep toyKey id queuedExample hashingExample"
    using authStep.loginSlot[of queuedExample "[]" "capture 5 serviceExample" alice "[]" "\<lparr>vSlots = 1, vWaiting = 1, vAdmitted = 1\<rparr>" toyKey id]
    by (simp add: queuedExample_def startedExample_def hashingExample_def takeSlot_Some maxConcurrentVerifications_def)
  ultimately show ?thesis using queuedExample_step by (blast intro: authReachable.more)
qed

definition tokenExample :: string where
  "tokenExample = RawURLEncode ''token''"

lemma login_example:
  "\<exists>res tbl s row. authReachable toyKey id s \<and> asService s = serviceExample \<and> asTables s = tbl \<and>
     tbSessions tbl tokenExample = Some row \<and> ssExpires row = Some (5 + 30 * 24 * Hour) \<and>
     map_option usUsername (tbUser tbl) = Some ''alice''"
proof -
  obtain res m tbl where fin: "loginFinish toyKey id quietWorld (capture 5 serviceExample) alice [] (asTables hashingExample) = (res, m, tbl)"
    by (metis prod_cases3)
  have valid: "loginValid toyKey (capture 5 serviceExample) alice"
    by (simp add: loginValid_def capture_def serviceExample_def alice_def verifyPassword_def paramsExample_def toyKey_def)
  have "\<not> textLe (5 + 30 * 24 * Hour) 0"
    using textLe_late[of "5 + 30 * 24 * Hour" 0] by (auto simp: Hour_def Minute_def Second_def)
  then have "m = []" "\<exists>row. tbSessions tbl tokenExample = Some row \<and> ssExpires row = Some (5 + 30 * 24 * Hour)"
      "map_option usUsername (tbUser tbl) = Some ''alice''"
    using fin valid
    by (auto simp: loginFinish_def Let_def issueSession_def quietWorld_def randomToken_def insertSession_def
        hashingExample_def started_def capture_def serviceExample_def PruneExpired_def touchUser_def
        deleteSource_def tokenExample_def rowExample_def split: prod.splits)
  moreover have "authStep toyKey id hashingExample
      (hashingExample\<lparr>asVerifier := leaveVerifier (asVerifier hashingExample), asTasks := [],
        asService := serviceExample, asTables := tbl, asPresented := afterLogin id alice res (asPresented hashingExample)\<rparr>)"
    using authStep.loginEnd[of hashingExample "[]" "capture 5 serviceExample" alice "[]" toyKey id quietWorld res m tbl] fin \<open>m = []\<close>
    by (simp add: hashingExample_def started_def serviceExample_def)
  then have "authReachable toyKey id
      (hashingExample\<lparr>asVerifier := leaveVerifier (asVerifier hashingExample), asTasks := [],
        asService := serviceExample, asTables := tbl, asPresented := afterLogin id alice res (asPresented hashingExample)\<rparr>)"
    by (rule authReachable.more[OF hashingExample_reachable])
  ultimately show ?thesis by fastforce
qed

section \<open>Properties\<close>

text \<open>
  C3. Changing the credentials ends what the old ones authorised.  In every state the service reaches, with
  any number of logins and sudo requests in flight across rotations and restarts (whose revoking statement
  goes through), a token that authenticates belongs to a session that was opened with the user name and a
  password the service is configured with now, and whoever is allowed a privileged operation presented, less
  than five minutes before, a password that is valid now.
\<close>

theorem sessions_match_credentials:
  assumes "authReachable idKey th s"
  shows "(Authenticate th qerr werr now token (asTables s) = (Inr (identity, csrf), tbl) \<longrightarrow>
      idUsername identity = svUsername (asService s) \<and>
      (\<exists>pw. asPresented s (th token) = Some (svUsername (asService s), pw) \<and>
        verifyPassword idKey (svParams (asService s)) pw)) \<and>
    (fst (AllowsPrivileged now identity (asService s)) \<longrightarrow>
      (\<exists>pw opened. asSudoBy s (idSession identity) = Some (pw, opened) \<and>
        verifyPassword idKey (svParams (asService s)) pw \<and> now < opened + 5 * Minute))"
proof -
  have inv: "credInv idKey s" using assms by (rule credentials.always)
  have "idUsername identity = svUsername (asService s) \<and> presentedNow idKey (asService s) (asPresented s (th token))"
    if "Authenticate th qerr werr now token (asTables s) = (Inr (identity, csrf), tbl)"
    using that inv
    by (auto simp: Authenticate_def credInv_def sessionsInv_def configured_def split: if_splits option.splits)
  moreover have "\<exists>until. windowOK idKey (asService s) (asSudoBy s (idSession identity)) until \<and> now < until"
    if "fst (AllowsPrivileged now identity (asService s))"
    using that inv by (auto simp: AllowsPrivileged_def credInv_def sudoInv_def split: if_splits option.splits)
  ultimately show ?thesis unfolding presentedNow_def windowOK_def by blast
qed

theorem sessions_match_credentials_witness:
  "\<exists>s identity csrf tbl pw. authReachable toyKey id s \<and>
     Authenticate id None None 6 tokenExample (asTables s) = (Inr (identity, csrf), tbl) \<and>
     asPresented s tokenExample = Some (''alice'', pw) \<and> verifyPassword toyKey (paramsExample ''hunter2'') pw"
proof -
  obtain s row where s: "authReachable toyKey id s" "asService s = serviceExample"
    "tbSessions (asTables s) tokenExample = Some row" "ssExpires row = Some (5 + 30 * 24 * Hour)"
    "map_option usUsername (tbUser (asTables s)) = Some ''alice''"
    using login_example by metis
  then obtain identity csrf tbl where
    a: "Authenticate id None None 6 tokenExample (asTables s) = (Inr (identity, csrf), tbl)"
    by (auto simp: Authenticate_def tokenExample_def RawURLEncode_def Hour_def Minute_def Second_def)
  then have "\<exists>pw. asPresented s tokenExample = Some (''alice'', pw) \<and> verifyPassword toyKey (paramsExample ''hunter2'') pw"
    using sessions_match_credentials[OF s(1), of None None 6 tokenExample identity csrf tbl] s(2)
    by (simp add: serviceExample_def)
  with s(1) a show ?thesis by blast
qed

text \<open>
  C15. Password hashing is bounded: in every reachable state at most two hashes are being computed and at most
  ten requests are in the pool, whatever the number of requests; and the counters of the pool are exact, so
  no slot is lost.
\<close>

theorem hashing_bounded:
  assumes "authReachable idKey th s"
  shows "length (filter hashing (asTasks s)) \<le> 2 \<and>
    length (filter (\<lambda>t. underLock t \<noteq> None) (asTasks s)) \<le> 10 \<and>
    vSlots (asVerifier s) = length (filter hashing (asTasks s)) \<and>
    vWaiting (asVerifier s) = length (filter (\<lambda>t. underLock t \<noteq> None) (asTasks s))"
  using pool.always[OF assms]
  by (simp add: poolInv_def maxConcurrentVerifications_def maxQueuedVerifications_def)

theorem hashing_bounded_witness:
  "length (filter hashing (asTasks hashingExample)) = 1 \<and> vSlots (asVerifier hashingExample) = 1"
  using hashing_bounded[OF hashingExample_reachable] by (simp add: hashingExample_def)












text \<open>
  A rotation whose revoking statement fails is not repeated.  The user row is updated before the sessions
  are deleted and the two are separate statements: when the second fails, \<open>Reconfigure\<close> reports the error with
  the new credentials in place, and every later \<open>Reconfigure\<close> or \<open>New\<close> with them finds nothing changed and
  leaves the sessions of the old credentials alive.
\<close>

theorem failed_revocation_not_retried:
  assumes "validateAuth cfg = Inr (hash, params, ttl)" and "tbUser tbl \<noteq> None"
    and "credentialsDiffer None (acUsername cfg) hash tbl = Inr True"
    and "w = \<lparr>rwQuery = None, rwUpdate = None, rwRevoke = Some e\<rparr>"
  shows "\<exists>sv' tbl'. Reconfigure w cfg sv tbl = (Some (ErrStatement e), sv', tbl') \<and>
    svParams sv' = params \<and> tbSessions tbl' = tbSessions tbl \<and> svSudoUntil sv' = svSudoUntil sv \<and>
    (\<forall>w2 sv2. fst (Reconfigure (w2\<lparr>rwQuery := None, rwUpdate := None\<rparr>) cfg sv2 tbl') = None \<and>
       tbSessions (snd (snd (Reconfigure w2 cfg sv2 tbl'))) = tbSessions tbl \<and>
       tbSessions (snd (New w2 cfg tbl')) = tbSessions tbl)"
proof -
  define sv' where "sv' = sv\<lparr>svUsername := acUsername cfg, svParams := params, svTTL := ttl\<rparr>"
  define tbl' where "tbl' = updateUser (acUsername cfg) hash tbl"
  have first: "Reconfigure w cfg sv tbl = (Some (ErrStatement e), sv', tbl')"
    using assms by (simp add: Reconfigure_def credentialsDiffer_def sv'_def tbl'_def revokeEverythingLocked_def Let_def)
  obtain u where u: "tbUser tbl = Some u" using assms(2) by auto
  have same: "credentialsDiffer err (acUsername cfg) hash tbl' \<noteq> Inr True" for err
    using u by (simp add: credentialsDiffer_def tbl'_def updateUser_def split: option.split)
  have user: "tbSessions tbl' = tbSessions tbl" "tbUser tbl' \<noteq> None"
    using u by (simp_all add: tbl'_def updateUser_def)
  have hash: "resolvePasswordHash (acPasswordHash cfg) (acResolved cfg) = Inr hash"
    using assms(1) by (auto simp: validateAuth_def split: sum.splits if_splits)
  have "tbSessions (snd (snd (Reconfigure w2 cfg sv2 tbl'))) = tbSessions tbl" for w2 sv2
    using same[of "rwQuery w2"] user(1) assms(1)
    by (auto simp: Reconfigure_def Let_def updateUser_def split: sum.split option.split)
  moreover have "tbSessions (snd (New w2 cfg tbl')) = tbSessions tbl" for w2
    using same[of "rwQuery w2"] user(1) hash
    by (auto simp: New_def Let_def upsertUser_def split: sum.split option.split)
  moreover have "fst (Reconfigure (w2\<lparr>rwQuery := None, rwUpdate := None\<rparr>) cfg sv2 tbl') = None" for w2 :: rotateWorld and sv2
    using same[of None] assms(1) user(2)
    by (auto simp: Reconfigure_def Let_def credentialsDiffer_def split: sum.split option.split)
  ultimately show ?thesis using first user by (auto simp: sv'_def)
qed

theorem failed_revocation_not_retried_witness:
  "\<exists>sv tbl. Reconfigure \<lparr>rwQuery = None, rwUpdate = None, rwRevoke = Some ''disk I/O error''\<rparr> (configExample ''hunter3'')
       serviceExample aliceTables = (Some (ErrStatement ''disk I/O error''), sv, tbl) \<and>
     svParams sv = paramsExample ''hunter3'' \<and>
     tbSessions (snd (snd (Reconfigure quiet (configExample ''hunter3'') sv tbl))) = tbSessions aliceTables"
proof -
  have "credentialsDiffer None (acUsername (configExample ''hunter3'')) (phcExample ''hunter3'') aliceTables = Inr True"
    by (simp add: credentialsDiffer_def aliceTables_def configExample_def phcExample_def phcText_def)
  moreover have "tbUser aliceTables \<noteq> None" by (simp add: aliceTables_def)
  ultimately show ?thesis
    using failed_revocation_not_retried[OF validate_example _ _ refl, of aliceTables "''hunter3''" "''disk I/O error''" serviceExample]
    by blast
qed

end
