(* ===== verification/Netip.thy ===== *)
theory Netip
  imports Encodings "HOL-Library.Word"
begin

unbundle bit_operations_syntax

text \<open>
  What the sources use of \<open>net\<close> and \<open>net/netip\<close>: splitting a host and port, parsing addresses and prefixes,
  and membership of an address in a prefix.
\<close>

section \<open>SplitHostPort\<close>

definition IndexByte :: "char \<Rightarrow> string \<Rightarrow> nat option" where
  "IndexByte c s = (if c \<in> set s then Some (length (takeWhile (\<lambda>d. d \<noteq> c) s)) else None)"

definition LastIndexByte :: "char \<Rightarrow> string \<Rightarrow> nat option" where
  "LastIndexByte c s = (if c \<in> set s then Some (length s - 1 - length (takeWhile (\<lambda>d. d \<noteq> c) (rev s))) else None)"

definition SplitHostPort :: "string \<Rightarrow> (string \<times> string) option" where
  "SplitHostPort hostport =
     (case LastIndexByte CHR '':'' hostport of
        None \<Rightarrow> None
      | Some i \<Rightarrow>
          if hd hostport = CHR ''[''
          then (case IndexByte CHR '']'' hostport of
                  None \<Rightarrow> None
                | Some e \<Rightarrow>
                    if e + 1 \<noteq> i \<or> CHR ''['' \<in> set (drop 1 hostport) \<or> CHR '']'' \<in> set (drop (e + 1) hostport) then None
                    else Some (take (e - 1) (drop 1 hostport), drop (i + 1) hostport))
          else if CHR '':'' \<in> set (take i hostport) \<or> CHR ''['' \<in> set hostport \<or> CHR '']'' \<in> set hostport then None
          else Some (take i hostport, drop (i + 1) hostport))"

section \<open>Addresses\<close>

text \<open>A parsed address; the zone of an IPv4 address is always empty.\<close>

datatype Addr = Addr4 "32 word" | Addr6 "128 word" string

definition bytesWord :: "nat list \<Rightarrow> 'w :: len word" where
  "bytesWord bs = word_of_nat (foldl (\<lambda>n b. n * 256 + b) 0 bs)"

text \<open>\<open>parseIPv4Fields\<close>: four decimal fields up to 255 without leading zeros.\<close>

definition parseOctet :: "string \<Rightarrow> nat option" where
  "parseOctet f =
     (if f = [] \<or> (hd f = CHR ''0'' \<and> length f > 1) then None
      else case ParseUint 32 f of None \<Rightarrow> None | Some n \<Rightarrow> if n > 255 \<or> length f > 3 then None else Some n)"

definition parseIPv4Fields :: "string \<Rightarrow> nat list option" where
  "parseIPv4Fields s =
     (case traverseOption parseOctet (Split CHR ''.'' s) of
        None \<Rightarrow> None
      | Some bs \<Rightarrow> if length bs = 4 then Some bs else None)"

definition hexValue :: "char \<Rightarrow> nat option" where
  "hexValue c =
     (let n = of_char c in
      if 48 \<le> n \<and> n \<le> 57 then Some (n - 48)
      else if 97 \<le> n \<and> n \<le> 102 then Some (n - 87)
      else if 65 \<le> n \<and> n \<le> 70 then Some (n - 55) else None)"

definition hexNumber :: "string \<Rightarrow> nat" where
  "hexNumber ds = foldl (\<lambda>n c. n * 16 + the (hexValue c)) 0 ds"

text \<open>
  The loop of \<open>parseIPv6\<close>: the bytes so far, where the \<open>::\<close> stood, and the rest of the text.  Each round adds
  two bytes, so eight rounds suffice.
\<close>

function ipv6Loop :: "nat list \<Rightarrow> nat option \<Rightarrow> string \<Rightarrow> (nat list \<times> nat option) option" where
  "ipv6Loop ip ellipsis s =
     (if length ip \<ge> 16 then (if s = [] then Some (ip, ellipsis) else None)
      else let digits = takeWhile isHex s; rest = dropWhile isHex s in
           if digits = [] \<or> length digits > 4 then None
           else if rest \<noteq> [] \<and> hd rest = CHR ''.''
           then (if (ellipsis = None \<and> length ip \<noteq> 12) \<or> length ip + 4 > 16 then None
                 else map_option (\<lambda>bs. (ip @ bs, ellipsis)) (parseIPv4Fields s))
           else let ip = ip @ [hexNumber digits div 256, hexNumber digits mod 256] in
                if rest = [] then Some (ip, ellipsis)
                else if hd rest \<noteq> CHR '':'' \<or> length rest = 1 then None
                else if hd (tl rest) = CHR '':''
                then (if ellipsis \<noteq> None then None
                      else if length rest = 2 then Some (ip, Some (length ip))
                      else ipv6Loop ip (Some (length ip)) (drop 2 rest))
                else ipv6Loop ip ellipsis (tl rest))"
  by pat_completeness auto
termination by (relation "measure (\<lambda>(ip, _, _). 16 - length ip)") auto

declare ipv6Loop.simps [simp del]

definition expandEllipsis :: "nat list \<times> nat option \<Rightarrow> nat list option" where
  "expandEllipsis r =
     (case r of
        (ip, None) \<Rightarrow> if length ip < 16 then None else Some ip
      | (ip, Some e) \<Rightarrow>
          if length ip < 16 then Some (take e ip @ replicate (16 - length ip) 0 @ drop e ip) else None)"

definition parseIPv6 :: "string \<Rightarrow> Addr option" where
  "parseIPv6 s =
     (let zoned = (case Cut CHR ''%'' s of None \<Rightarrow> Some (s, []) | Some (a, z) \<Rightarrow> if z = [] then None else Some (a, z)) in
      case zoned of
        None \<Rightarrow> None
      | Some (a, zone) \<Rightarrow>
          if a = ''::'' then Some (Addr6 0 zone)
          else let parsed = (if HasPrefix a ''::'' then ipv6Loop [] (Some 0) (drop 2 a) else ipv6Loop [] None a) in
               (case parsed of
                  None \<Rightarrow> None
                | Some r \<Rightarrow> map_option (\<lambda>bs. Addr6 (bytesWord bs) zone) (expandEllipsis r)))"

fun ParseAddrScan :: "string \<Rightarrow> string \<Rightarrow> Addr option" where
  "ParseAddrScan s [] = None"
| "ParseAddrScan s (c # cs) =
     (if c = CHR ''.'' then map_option (\<lambda>bs. Addr4 (bytesWord bs)) (parseIPv4Fields s)
      else if c = CHR '':'' then parseIPv6 s
      else if c = CHR ''%'' then None
      else ParseAddrScan s cs)"

definition ParseAddr :: "string \<Rightarrow> Addr option" where
  "ParseAddr s = ParseAddrScan s s"

section \<open>Prefixes\<close>

datatype Prefix = Prefix4 "32 word" nat | Prefix6 "128 word" nat

definition prefixBits :: "nat \<Rightarrow> string \<Rightarrow> nat option" where
  "prefixBits maxBits s =
     (if length s > 1 \<and> \<not> (CHR ''1'' \<le> hd s \<and> hd s \<le> CHR ''9'') then None
      else case ParseUint 63 s of None \<Rightarrow> None | Some n \<Rightarrow> if n \<le> maxBits then Some n else None)"

definition ParsePrefix :: "string \<Rightarrow> Prefix option" where
  "ParsePrefix s =
     (case LastIndexByte CHR ''/'' s of
        None \<Rightarrow> None
      | Some i \<Rightarrow>
          (case ParseAddr (take i s) of
             None \<Rightarrow> None
           | Some (Addr4 a) \<Rightarrow> map_option (Prefix4 a) (prefixBits 32 (drop (i + 1) s))
           | Some (Addr6 a zone) \<Rightarrow>
               if zone \<noteq> [] then None else map_option (Prefix6 a) (prefixBits 128 (drop (i + 1) s))))"

definition topBits :: "nat \<Rightarrow> 'w :: len word" where
  "topBits n = push_bit (LENGTH('w) - n) (mask n)"

fun Masked :: "Prefix \<Rightarrow> Prefix" where
  "Masked (Prefix4 a n) = Prefix4 (a AND topBits n) n"
| "Masked (Prefix6 a n) = Prefix6 (a AND topBits n) n"

text \<open>\<open>netip.PrefixFrom(a, a.BitLen())\<close> drops the zone.\<close>

fun singleAddress :: "Addr \<Rightarrow> Prefix" where
  "singleAddress (Addr4 a) = Prefix4 a 32"
| "singleAddress (Addr6 a zone) = Prefix6 a 128"

fun PrefixContains :: "Prefix \<Rightarrow> Addr \<Rightarrow> bool" where
  "PrefixContains (Prefix4 p n) (Addr4 a) \<longleftrightarrow> drop_bit (32 - n) (a XOR p) = 0"
| "PrefixContains (Prefix6 p n) (Addr6 a zone) \<longleftrightarrow> zone = [] \<and> (a XOR p) AND topBits n = 0"
| "PrefixContains _ _ \<longleftrightarrow> False"

section \<open>Membership\<close>

text \<open>The specification: same family, no zone, and the same leading bits.\<close>

fun inNetwork :: "Prefix \<Rightarrow> Addr \<Rightarrow> bool" where
  "inNetwork (Prefix4 p n) (Addr4 a) \<longleftrightarrow> (\<forall>i. i < 32 \<and> 32 \<le> i + n \<longrightarrow> bit a i = bit p i)"
| "inNetwork (Prefix6 p n) (Addr6 a zone) \<longleftrightarrow> zone = [] \<and> (\<forall>i. i < 128 \<and> 128 \<le> i + n \<longrightarrow> bit a i = bit p i)"
| "inNetwork _ _ \<longleftrightarrow> False"

lemma bit_topBits: "bit (topBits n :: 'w :: len word) i \<longleftrightarrow> i < LENGTH('w) \<and> LENGTH('w) - n \<le> i"
  by (auto simp: topBits_def bit_push_bit_iff bit_mask_iff)

lemma drop_bit_zero_iff:
  fixes w :: "'w :: len word"
  shows "drop_bit k w = 0 \<longleftrightarrow> (\<forall>i. i < LENGTH('w) \<and> k \<le> i \<longrightarrow> \<not> bit w i)"
proof
  assume z: "drop_bit k w = 0"
  show "\<forall>i. i < LENGTH('w) \<and> k \<le> i \<longrightarrow> \<not> bit w i"
  proof (intro allI impI)
    fix i assume i: "i < LENGTH('w) \<and> k \<le> i"
    have "bit (drop_bit k w) (i - k) = bit w (k + (i - k))" by (rule bit_drop_bit_eq[THEN fun_cong, unfolded comp_def])
    then show "\<not> bit w i" using z i by simp
  qed
next
  assume "\<forall>i. i < LENGTH('w) \<and> k \<le> i \<longrightarrow> \<not> bit w i"
  then show "drop_bit k w = 0"
    by (intro bit_word_eqI) (auto simp: bit_drop_bit_eq dest: bit_imp_le_length)
qed

lemma and_topBits_zero_iff:
  fixes w :: "'w :: len word"
  shows "w AND topBits n = 0 \<longleftrightarrow> (\<forall>i. i < LENGTH('w) \<and> LENGTH('w) \<le> i + n \<longrightarrow> \<not> bit w i)"
  by (auto simp: bit_eq_iff bit_and_iff bit_topBits dest: bit_imp_le_length)

lemma PrefixContains_iff: "PrefixContains p a \<longleftrightarrow> inNetwork p a"
proof (cases "(p, a)" rule: PrefixContains.cases)
  case (1 q n b)
  then show ?thesis by (simp only: prod.inject PrefixContains.simps inNetwork.simps drop_bit_zero_iff) (auto simp: bit_xor_iff le_diff_conv)
qed (auto simp: and_topBits_zero_iff bit_xor_iff)

lemma inNetwork_Masked: "inNetwork (Masked p) a \<longleftrightarrow> inNetwork p a"
  by (cases "(p, a)" rule: PrefixContains.cases) (auto simp: bit_and_iff bit_topBits le_diff_conv)

lemma inNetwork_single: "inNetwork (singleAddress b) a \<longleftrightarrow>
    (case (b, a) of (Addr4 x, Addr4 y) \<Rightarrow> x = y | (Addr6 x _, Addr6 y zone) \<Rightarrow> zone = [] \<and> x = y | _ \<Rightarrow> False)"
  by (cases b; cases a) (auto simp: bit_eq_iff dest: bit_imp_le_length)

end
