(* ===== verification/Gateway.thy ===== *)
theory Gateway
  imports AuthSystem Netip Outbox
begin

text \<open>
  The edge of the HTTP server: forward authentication (\<open>internal/auth/forward.go\<close>), the refusal to listen
  publicly without authentication (\<open>internal/api/server.go\<close>), the middleware that lets a request through to
  the API, and the handlers of the authentication routes (\<open>internal/api/auth.go\<close>).

  Arguments of the model: \<open>url.Parse\<close> as far as the host of an origin is concerned, name resolution, the
  clock and the outcome of database statements, and the JSON decoder's result on a request body.
\<close>

section \<open>Requests\<close>

text \<open>The header map holds the first value of each canonical key, which is what \<open>Header.Get\<close> returns.\<close>

record httpRequest =
  hrMethod :: string
  hrPath :: string
  hrHost :: string
  hrRemote :: string
  hrHeader :: "string \<rightharpoonup> string"
  hrCookies :: "string \<rightharpoonup> string"

definition headerGet :: "httpRequest \<Rightarrow> string \<Rightarrow> string" where
  "headerGet r name = (case hrHeader r (CanonicalHeaderKey name) of Some v \<Rightarrow> v | None \<Rightarrow> [])"

text \<open>\<open>strings.EqualFold\<close> on ASCII text.\<close>

definition EqualFold :: "string \<Rightarrow> string \<Rightarrow> bool" where
  "EqualFold a b \<longleftrightarrow> map lower_byte a = map lower_byte b"

definition ClientIP :: "httpRequest \<Rightarrow> string" where
  "ClientIP r = (case SplitHostPort (hrRemote r) of Some (host, _) \<Rightarrow> host | None \<Rightarrow> hrRemote r)"

section \<open>Forward authentication\<close>

record ForwardConfig =
  fcTrustedProxies :: "string list"
  fcUserHeader :: string
  fcGroupsHeader :: string
  fcAdminGroups :: "string list"
  fcPrivilegedOperations :: string

record forwardGeneration =
  fgTrusted :: "Prefix list"
  fgUserHeader :: string
  fgGroupsHeader :: string
  fgAdminGroups :: "string list"
  fgPrivilegedOperations :: string

datatype forwardError = InvalidTrustedProxy string | NoTrustedProxy | AdminGroupIncomplete

definition parsePrefix :: "string \<Rightarrow> Prefix option" where
  "parsePrefix rw =
     (case ParsePrefix rw of
        Some p \<Rightarrow> Some (Masked p)
      | None \<Rightarrow> map_option singleAddress (ParseAddr rw))"

fun trustedNetworks :: "string list \<Rightarrow> (forwardError, Prefix list) result" where
  "trustedNetworks [] = Inr []"
| "trustedNetworks (rw # rws) =
     (case parsePrefix rw of
        None \<Rightarrow> Inl (InvalidTrustedProxy rw)
      | Some p \<Rightarrow> map_sum id ((#) p) (trustedNetworks rws))"

definition orDefault :: "string \<Rightarrow> string \<Rightarrow> string" where
  "orDefault v d = (if v = [] then d else v)"

definition forwardReconfigure :: "ForwardConfig \<Rightarrow> (forwardError, forwardGeneration) result" where
  "forwardReconfigure cfg =
     (case trustedNetworks (fcTrustedProxies cfg) of
        Inl err \<Rightarrow> Inl err
      | Inr trusted \<Rightarrow>
          let generation =
                \<lparr>fgTrusted = trusted,
                 fgUserHeader = CanonicalHeaderKey (orDefault (fcUserHeader cfg) ''Remote-User''),
                 fgGroupsHeader = CanonicalHeaderKey (fcGroupsHeader cfg),
                 fgAdminGroups = fcAdminGroups cfg,
                 fgPrivilegedOperations = orDefault (fcPrivilegedOperations cfg) ''cli-only''\<rparr> in
          if trusted = [] then Inl NoTrustedProxy
          else if fgPrivilegedOperations generation = ''admin-group'' \<and>
            (fgGroupsHeader generation = [] \<or> fgAdminGroups generation = [])
          then Inl AdminGroupIncomplete
          else Inr generation)"

definition peerAddress :: "string \<Rightarrow> Addr option" where
  "peerAddress remote = (case SplitHostPort remote of None \<Rightarrow> None | Some (host, _) \<Rightarrow> ParseAddr host)"

definition containsAddr :: "Prefix list \<Rightarrow> Addr \<Rightarrow> bool" where
  "containsAddr networks address = list_ex (\<lambda>p. PrefixContains p address) networks"

definition splitGroups :: "string \<Rightarrow> string list" where
  "splitGroups rw = (if rw = [] then [] else filter (\<lambda>g. g \<noteq> []) (map TrimSpace (Split CHR '','' rw)))"

definition forwardAuthenticate ::
    "(string \<Rightarrow> string) \<Rightarrow> forwardGeneration \<Rightarrow> httpRequest \<Rightarrow> (authError, Identity) result" where
  "forwardAuthenticate th g r =
     (case peerAddress (hrRemote r) of
        None \<Rightarrow> Inl ErrNoSession
      | Some peer \<Rightarrow>
          if \<not> containsAddr (fgTrusted g) peer then Inl ErrNoSession
          else let username = TrimSpace (headerGet r (fgUserHeader g)) in
               if username = [] \<or> length username > 256 then Inl ErrNoSession
               else let groups = splitGroups (headerGet r (fgGroupsHeader g)) in
                    Inr \<lparr>idUsername = username, idSession = th (''forward'' @ [CHR 0x00] @ username),
                         idMode = ''forward'', idAdmin = list_ex (\<lambda>gr. gr \<in> set (fgAdminGroups g)) groups,
                         idGroups = groups\<rparr>)"

definition forwardAllowsPrivileged :: "forwardGeneration \<Rightarrow> Identity \<Rightarrow> bool" where
  "forwardAllowsPrivileged g identity \<longleftrightarrow> fgPrivilegedOperations g = ''admin-group'' \<and> idAdmin identity"

definition CheckMutation :: "(string \<rightharpoonup> string) \<Rightarrow> httpRequest \<Rightarrow> authError option" where
  "CheckMutation urlHost r =
     (if EqualFold (headerGet r ''Sec-Fetch-Site'') ''cross-site'' then Some ErrCSRF
      else let origin = headerGet r ''Origin'' in
           if origin = [] then None
           else case urlHost origin of
                  None \<Rightarrow> Some ErrCSRF
                | Some host \<Rightarrow> if EqualFold host (hrHost r) then None else Some ErrCSRF)"

section \<open>The listen address\<close>

text \<open>\<open>net.IP\<close> reads an IPv4-mapped IPv6 address as the IPv4 address in it.\<close>

definition mapped4 :: "128 word \<Rightarrow> bool" where
  "mapped4 a \<longleftrightarrow> drop_bit 32 a = 0xFFFF"

fun IsLoopback :: "Addr \<Rightarrow> bool" where
  "IsLoopback (Addr4 a) \<longleftrightarrow> drop_bit 24 a = 127"
| "IsLoopback (Addr6 a _) \<longleftrightarrow> (if mapped4 a then drop_bit 24 (ucast a :: 32 word) = 127 else a = 1)"

fun IsUnspecified :: "Addr \<Rightarrow> bool" where
  "IsUnspecified (Addr4 a) \<longleftrightarrow> a = 0"
| "IsUnspecified (Addr6 a _) \<longleftrightarrow> a = 0 \<or> (mapped4 a \<and> (ucast a :: 32 word) = 0)"

definition ParseIP :: "string \<Rightarrow> Addr option" where
  "ParseIP s =
     (case ParseAddr s of
        Some (Addr6 a zone) \<Rightarrow> if zone = [] then Some (Addr6 a []) else None
      | r \<Rightarrow> r)"

text \<open>\<open>lookupIP\<close> is name resolution; \<open>None\<close> is a name that does not resolve.\<close>

definition isPublicAddr :: "(string \<rightharpoonup> Addr list) \<Rightarrow> string \<Rightarrow> bool option" where
  "isPublicAddr lookupIP addr =
     (case SplitHostPort addr of
        None \<Rightarrow> None
      | Some (host, _) \<Rightarrow>
          if host = [] then Some True
          else case ParseIP host of
                 None \<Rightarrow>
                   (case lookupIP host of
                      None \<Rightarrow> Some True
                    | Some ips \<Rightarrow> Some (list_ex (\<lambda>ip. \<not> IsLoopback ip) ips))
               | Some ip \<Rightarrow> if IsUnspecified ip then Some True else Some (\<not> IsLoopback ip))"

datatype serverError = BothFixturesAndConfigStore | ListenAddress string | ErrPublicWithoutAuth

record serverConfig =
  scListen :: string
  scAuthConfigured :: bool
  scAllowPublicWithoutAuth :: bool
  scPassword :: bool
  scForward :: "forwardGeneration option"
  scFixtures :: bool
  scConfigStore :: bool
  scAuthMode :: string

definition newServer :: "(string \<rightharpoonup> Addr list) \<Rightarrow> serverConfig \<Rightarrow> (serverError, serverConfig) result" where
  "newServer lookupIP cfg =
     (if scFixtures cfg \<and> scConfigStore cfg then Inl BothFixturesAndConfigStore
      else let cfg = cfg\<lparr>scListen := orDefault (scListen cfg) ''127.0.0.1:8099'',
                         scAuthConfigured := scPassword cfg \<or> scForward cfg \<noteq> None \<or> scAuthConfigured cfg\<rparr> in
           case isPublicAddr lookupIP (scListen cfg) of
             None \<Rightarrow> Inl (ListenAddress (scListen cfg))
           | Some public \<Rightarrow>
               if public \<and> \<not> scAuthConfigured cfg \<and> \<not> scAllowPublicWithoutAuth cfg
               then Inl ErrPublicWithoutAuth else Inr cfg)"

section \<open>The middleware\<close>

definition isAPIPath :: "string \<Rightarrow> bool" where
  "isAPIPath path \<longleftrightarrow> path = ''/api'' \<or> path = ''/api/'' \<or> (length path > 5 \<and> take 5 path = ''/api/'')"

definition safeMethod :: "string \<Rightarrow> bool" where
  "safeMethod method \<longleftrightarrow> method \<in> {''GET'', ''HEAD'', ''OPTIONS''}"

definition publicRoute :: "bool \<Rightarrow> httpRequest \<Rightarrow> bool" where
  "publicRoute password r \<longleftrightarrow>
     hrPath r = ''/api/v1/health'' \<or> hrPath r = ''/api/v1/version'' \<or> hrPath r = ''/api/v1/notices'' \<or>
     (hrPath r = ''/api/v1/auth/session'' \<and> hrMethod r = ''POST'' \<and> password) \<or> \<not> isAPIPath (hrPath r)"

text \<open>The world of one request: the clock, and the outcome of the statements of \<open>Authenticate\<close>.\<close>

record requestWorld =
  qwNow :: instant
  qwQuery :: "string option"
  qwWrite :: "string option"

definition requestIdentity ::
    "(string \<Rightarrow> string) \<Rightarrow> (string \<rightharpoonup> string) \<Rightarrow> requestWorld \<Rightarrow> forwardGeneration option \<Rightarrow> httpRequest \<Rightarrow>
     authTables \<Rightarrow> (authError, Identity) result \<times> authTables" where
  "requestIdentity th urlHost w fwd r tbl =
     (case fwd of
        Some g \<Rightarrow>
          ((case forwardAuthenticate th g r of
              Inl err \<Rightarrow> Inl err
            | Inr identity \<Rightarrow>
                if safeMethod (hrMethod r) then Inr identity
                else (case CheckMutation urlHost r of Some err \<Rightarrow> Inl err | None \<Rightarrow> Inr identity)), tbl)
      | None \<Rightarrow>
          (case hrCookies r ''veduta_session'' of
             None \<Rightarrow> (Inl ErrNoSession, tbl)
           | Some token \<Rightarrow>
               if safeMethod (hrMethod r)
               then (case Authenticate th (qwQuery w) (qwWrite w) (qwNow w) token tbl of
                       (res, tbl) \<Rightarrow> (map_sum id fst res, tbl))
               else (case hrCookies r ''veduta_csrf'' of
                       None \<Rightarrow> (Inl ErrCSRF, tbl)
                     | Some csrf \<Rightarrow>
                         CheckCSRF th (qwQuery w) (qwWrite w) (qwNow w) token csrf (headerGet r ''X-CSRF-Token'') tbl)))"

text \<open>What the middleware does with a request: pass it on, with an identity or without, or answer it.\<close>

datatype verdict = Pass "Identity option" | Reject nat authError

definition authenticateRequest ::
    "(string \<Rightarrow> string) \<Rightarrow> (string \<rightharpoonup> string) \<Rightarrow> requestWorld \<Rightarrow> serverConfig \<Rightarrow> httpRequest \<Rightarrow> authTables \<Rightarrow>
     verdict \<times> authTables" where
  "authenticateRequest th urlHost w cfg r tbl =
     (if (\<not> scPassword cfg \<and> scForward cfg = None) \<or> publicRoute (scPassword cfg) r then (Pass None, tbl)
      else case requestIdentity th urlHost w (scForward cfg) r tbl of
             (Inr identity, tbl) \<Rightarrow> (Pass (Some identity), tbl)
           | (Inl err, tbl) \<Rightarrow> (Reject (if err = ErrCSRF then 403 else 401) err, tbl))"

definition allowsPrivileged :: "instant \<Rightarrow> serverConfig \<Rightarrow> Identity \<Rightarrow> Service \<Rightarrow> bool \<times> Service" where
  "allowsPrivileged now cfg identity sv =
     (if scPassword cfg then AllowsPrivileged now identity sv
      else case scForward cfg of
             Some g \<Rightarrow> (forwardAllowsPrivileged g identity, sv)
           | None \<Rightarrow> (False, sv))"

section \<open>The authentication routes\<close>

record auditEntry =
  aeActor :: string
  aeIP :: string
  aeAction :: string
  aeTarget :: string
  aeOutcome :: string
  aeDetail :: "json option"

record cookie =
  ckName :: string
  ckValue :: string
  ckExpires :: instant
  ckMaxAge :: int
  ckHttpOnly :: bool
  ckSecure :: bool

record response =
  rsStatus :: nat
  rsHeader :: "(string \<times> string) list"
  rsCookies :: "cookie list"
  rsBody :: "json option"

definition errorBody :: "string \<Rightarrow> json option" where
  "errorBody msg = Some (JObject [(''error'', JString msg)])"

definition writeJSON :: "nat \<Rightarrow> json option \<Rightarrow> response" where
  "writeJSON status body = \<lparr>rsStatus = status,
     rsHeader = [(''Content-Type'', ''application/json; charset=utf-8''), (''X-Content-Type-Options'', ''nosniff'')],
     rsCookies = [], rsBody = body\<rparr>"

fun errorText :: "authError \<Rightarrow> string" where
  "errorText ErrInvalidCredentials = ''invalid username or password''"
| "errorText ErrRateLimited = ''too many login attempts; try again later''"
| "errorText ErrNoSession = ''authentication required''"
| "errorText ErrCSRF = ''invalid CSRF token''"
| "errorText ErrBusy = ''too many authentication requests in flight; try again shortly''"
| "errorText (ErrStatement e) = e"
| "errorText ErrUnresolvedHash = ''auth: configured password hash secret is unresolved''"
| "errorText ErrSessionTTL = ''auth: invalid sessionTTL''"
| "errorText ErrUsername = ''auth: username is required''"
| "errorText _ = []"

definition authStatus :: "authError \<Rightarrow> nat \<times> (string \<times> string) list" where
  "authStatus err =
     (case err of
        ErrRateLimited \<Rightarrow> (429, [(''Retry-After'', ''900'')])
      | ErrBusy \<Rightarrow> (503, [(''Retry-After'', ''1'')])
      | _ \<Rightarrow> (401, []))"

text \<open>\<open>time.Until(expires).Seconds()\<close> converted to an integer truncates towards zero.\<close>

definition truncSeconds :: "int \<Rightarrow> int" where
  "truncSeconds d = (if d < 0 then - (- d div Second) else d div Second)"

definition authCookies :: "bool \<Rightarrow> instant \<Rightarrow> Session \<Rightarrow> cookie list" where
  "authCookies secure later sn =
     [\<lparr>ckName = ''veduta_session'', ckValue = snToken sn, ckExpires = snExpires sn,
       ckMaxAge = truncSeconds (snExpires sn - later), ckHttpOnly = True, ckSecure = secure\<rparr>,
      \<lparr>ckName = ''veduta_csrf'', ckValue = snCSRF sn, ckExpires = snExpires sn,
       ckMaxAge = truncSeconds (snExpires sn - later), ckHttpOnly = False, ckSecure = secure\<rparr>]"

text \<open>\<open>POST /api/v1/auth/session\<close>; \<open>body\<close> is the decoded user name and password, \<open>login\<close> the service.\<close>

definition handleLogin ::
    "bool \<Rightarrow> instant \<Rightarrow> (string \<times> string) option \<Rightarrow> (loginRequest \<Rightarrow> (authError, Session) result \<times> 's) \<Rightarrow>
     httpRequest \<Rightarrow> response \<times> auditEntry list \<times> 's option" where
  "handleLogin tls later body login r =
     (case body of
        None \<Rightarrow> (writeJSON 400 (errorBody ''invalid login request''), [], None)
      | Some (username, password) \<Rightarrow>
          (case login \<lparr>lrUsername = username, lrPassword = password, lrUserAgent = headerGet r ''User-Agent'',
                      lrIP = ClientIP r\<rparr> of
             (Inl err, s) \<Rightarrow>
               ((writeJSON (fst (authStatus err)) (errorBody (errorText err)))
                  \<lparr>rsHeader := snd (authStatus err) @ rsHeader (writeJSON 0 None)\<rparr>,
                [\<lparr>aeActor = username, aeIP = ClientIP r, aeAction = ''auth.login'', aeTarget = [],
                  aeOutcome = ''failure'', aeDetail = None\<rparr>], Some s)
           | (Inr sn, s) \<Rightarrow>
               ((writeJSON 201 (Some (JObject [(''capabilities'', JArray [JString ''admin'']),
                   (''csrfToken'', JString (snCSRF sn)), (''mode'', JString ''password''),
                   (''username'', JString username)])))\<lparr>rsCookies := authCookies tls later sn\<rparr>,
                [\<lparr>aeActor = username, aeIP = ClientIP r, aeAction = ''auth.login'', aeTarget = [],
                  aeOutcome = ''success'', aeDetail = None\<rparr>], Some s)))"

definition handleSudo ::
    "string option \<Rightarrow> (string \<Rightarrow> string \<Rightarrow> string \<Rightarrow> authError option \<times> 's) \<Rightarrow> Identity \<Rightarrow> httpRequest \<Rightarrow>
     response \<times> auditEntry list \<times> 's option" where
  "handleSudo body openSudo identity r =
     (let entry = (\<lambda>outcome. \<lparr>aeActor = idUsername identity, aeIP = ClientIP r, aeAction = ''auth.sudo'',
            aeTarget = [], aeOutcome = outcome, aeDetail = None\<rparr>) in
      case body of
        None \<Rightarrow> (writeJSON 400 (errorBody ''invalid sudo request''), [], None)
      | Some password \<Rightarrow>
          (case hrCookies r ''veduta_session'' of
             None \<Rightarrow> (writeJSON 401 (errorBody (errorText ErrNoSession)), [], None)
           | Some token \<Rightarrow>
               (case openSudo token password (ClientIP r) of
                  (Some err, s) \<Rightarrow>
                    ((writeJSON (fst (authStatus err))
                        (errorBody (errorText (if err = ErrRateLimited \<or> err = ErrBusy then err else ErrInvalidCredentials))))
                       \<lparr>rsHeader := snd (authStatus err) @ rsHeader (writeJSON 0 None)\<rparr>, [entry ''failure''], Some s)
                | (None, s) \<Rightarrow> ((writeJSON 204 None)\<lparr>rsHeader := []\<rparr>, [entry ''success''], Some s))))"

definition clearAuthCookies :: "bool \<Rightarrow> cookie list" where
  "clearAuthCookies secure =
     map (\<lambda>name. \<lparr>ckName = name, ckValue = [], ckExpires = Second, ckMaxAge = -1,
            ckHttpOnly = (name = ''veduta_session''), ckSecure = secure\<rparr>) [''veduta_session'', ''veduta_csrf'']"

definition handleLogout ::
    "bool \<Rightarrow> (string \<Rightarrow> authError option \<times> 's) \<Rightarrow> 's \<Rightarrow> Identity \<Rightarrow> httpRequest \<Rightarrow> response \<times> auditEntry list \<times> 's" where
  "handleLogout tls logout s identity r =
     (let ok = ((writeJSON 204 None)\<lparr>rsHeader := [], rsCookies := clearAuthCookies tls\<rparr>,
            [\<lparr>aeActor = idUsername identity, aeIP = ClientIP r, aeAction = ''auth.logout'', aeTarget = [],
              aeOutcome = ''success'', aeDetail = None\<rparr>]) in
      case hrCookies r ''veduta_session'' of
        None \<Rightarrow> (fst ok, snd ok, s)
      | Some token \<Rightarrow>
          (case logout token of
             (Some _, s) \<Rightarrow> (writeJSON 500 (errorBody ''logout failed''), [], s)
           | (None, s) \<Rightarrow> (fst ok, snd ok, s)))"

section \<open>Lemmas\<close>

lemma Authenticate_fst_cong:
  assumes "fst (Authenticate th q w1 now token tbl) = Inr x"
  shows "fst (Authenticate th q w2 now token tbl) = Inr x"
  using assms by (auto simp: Authenticate_def split: if_splits option.splits)

lemma CheckCSRF_Inr:
  assumes "CheckCSRF th q w now token cookieToken headerToken tbl = (Inr identity, tbl')"
  shows "\<exists>csrf. fst (Authenticate th q w now token tbl) = Inr (identity, csrf) \<and> csrf \<noteq> [] \<and>
    cookieToken = csrf \<and> headerToken = csrf"
  using assms by (cases "Authenticate th q w now token tbl") (auto simp: CheckCSRF_def split: sum.splits if_splits)

lemma requestIdentity_password:
  assumes "requestIdentity th urlHost w None r tbl = (Inr identity, tbl')"
  shows "\<exists>token csrf. hrCookies r ''veduta_session'' = Some token \<and>
    fst (Authenticate th (qwQuery w) (qwWrite w) (qwNow w) token tbl) = Inr (identity, csrf) \<and>
    (safeMethod (hrMethod r) \<or>
     csrf \<noteq> [] \<and> hrCookies r ''veduta_csrf'' = Some csrf \<and> headerGet r ''X-CSRF-Token'' = csrf)"
proof -
  obtain token where token: "hrCookies r ''veduta_session'' = Some token"
    using assms by (auto simp: requestIdentity_def split: option.splits)
  show ?thesis
  proof (cases "safeMethod (hrMethod r)")
    case True
    then show ?thesis using assms token
      by (cases "Authenticate th (qwQuery w) (qwWrite w) (qwNow w) token tbl")
         (auto simp: requestIdentity_def map_sum_def split: sum.splits)
  next
    case False
    then obtain c where "hrCookies r ''veduta_csrf'' = Some c"
      "CheckCSRF th (qwQuery w) (qwWrite w) (qwNow w) token c (headerGet r ''X-CSRF-Token'') tbl = (Inr identity, tbl')"
      using assms token by (auto simp: requestIdentity_def split: option.splits)
    then show ?thesis using token CheckCSRF_Inr[of th "qwQuery w" "qwWrite w" "qwNow w" token c] by metis
  qed
qed

lemma requestIdentity_forward:
  assumes "requestIdentity th urlHost w (Some g) r tbl = (Inr identity, tbl')"
  shows "forwardAuthenticate th g r = Inr identity \<and>
    (safeMethod (hrMethod r) \<or> CheckMutation urlHost r = None)"
  using assms by (auto simp: requestIdentity_def split: sum.splits if_splits option.splits)

lemma containsAddr_iff: "containsAddr ps a \<longleftrightarrow> (\<exists>p\<in>set ps. inNetwork p a)"
  by (auto simp: containsAddr_def list_ex_iff PrefixContains_iff)

lemma trustedNetworks_set:
  "trustedNetworks rws = Inr ps \<Longrightarrow> set ps = {p. \<exists>rw\<in>set rws. parsePrefix rw = Some p}"
proof (induction rws arbitrary: ps)
  case (Cons rw rws)
  then show ?case by (cases "trustedNetworks rws") (auto split: option.splits)
qed simp

lemma inNetwork_parsePrefix:
  assumes "parsePrefix rw = Some p"
  shows "inNetwork p a \<longleftrightarrow>
    (case ParsePrefix rw of
       Some q \<Rightarrow> inNetwork q a
     | None \<Rightarrow> (\<exists>b. ParseAddr rw = Some b \<and> inNetwork (singleAddress b) a))"
  using assms by (auto simp: parsePrefix_def inNetwork_Masked split: option.splits)

lemma forwardAuthenticate_Inr:
  assumes "forwardAuthenticate th g r = Inr identity"
  shows "\<exists>peer. peerAddress (hrRemote r) = Some peer \<and> (\<exists>p\<in>set (fgTrusted g). inNetwork p peer)"
    and "idUsername identity = TrimSpace (headerGet r (fgUserHeader g))" "idUsername identity \<noteq> []"
    and "idAdmin identity \<longleftrightarrow>
      (\<exists>gr\<in>set (splitGroups (headerGet r (fgGroupsHeader g))). gr \<in> set (fgAdminGroups g))"
  using assms by (auto simp: forwardAuthenticate_def Let_def containsAddr_iff list_ex_iff split: option.splits if_splits)

section \<open>Properties\<close>

text \<open>The networks and addresses that the configured proxies name.\<close>

definition trustedPeer :: "ForwardConfig \<Rightarrow> Addr \<Rightarrow> bool" where
  "trustedPeer cfg a \<longleftrightarrow>
     (\<exists>rw\<in>set (fcTrustedProxies cfg). case ParsePrefix rw of
        Some q \<Rightarrow> inNetwork q a
      | None \<Rightarrow> (\<exists>b. ParseAddr rw = Some b \<and> inNetwork (singleAddress b) a))"

text \<open>
  C4. Every API request is authenticated.  With authentication configured, the middleware passes a request
  for an API path other than health, version, notices and the password login only with an identity.  Under
  password authentication the session cookie then names a live session, and a method other than GET, HEAD and
  OPTIONS carries the CSRF token stored with it in both the cookie and the header.  Under forward
  authentication the direct peer is an address of a configured proxy network, and such a method is neither
  marked cross-site nor from a foreign origin.
\<close>

theorem api_requests_authenticated:
  assumes "authenticateRequest th urlHost w cfg r tbl = (Pass who, tbl')"
    and "isAPIPath (hrPath r)" and "hrPath r \<notin> {''/api/v1/health'', ''/api/v1/version'', ''/api/v1/notices''}"
    and "\<not> (hrPath r = ''/api/v1/auth/session'' \<and> hrMethod r = ''POST'')"
  shows "(scForward cfg = None \<and> scPassword cfg \<longrightarrow>
      (\<exists>identity token csrf. who = Some identity \<and> hrCookies r ''veduta_session'' = Some token \<and>
        fst (Authenticate th (qwQuery w) (qwWrite w) (qwNow w) token tbl) = Inr (identity, csrf) \<and>
        (safeMethod (hrMethod r) \<or>
         csrf \<noteq> [] \<and> hrCookies r ''veduta_csrf'' = Some csrf \<and> headerGet r ''X-CSRF-Token'' = csrf))) \<and>
    (\<forall>fcfg g. forwardReconfigure fcfg = Inr g \<and> scForward cfg = Some g \<longrightarrow>
      (\<exists>identity peer. who = Some identity \<and> peerAddress (hrRemote r) = Some peer \<and> trustedPeer fcfg peer \<and>
        idUsername identity \<noteq> [] \<and> (safeMethod (hrMethod r) \<or> CheckMutation urlHost r = None)))"
proof -
  have guarded: "\<not> publicRoute b r" for b using assms(2-4) by (auto simp: publicRoute_def)
  have got: "\<exists>identity. who = Some identity \<and>
      requestIdentity th urlHost w (scForward cfg) r tbl = (Inr identity, tbl')"
    if "scPassword cfg \<or> scForward cfg \<noteq> None"
    using assms(1) that guarded by (auto simp: authenticateRequest_def split: prod.splits sum.splits)
  have "\<exists>identity peer. who = Some identity \<and> peerAddress (hrRemote r) = Some peer \<and> trustedPeer fcfg peer \<and>
      idUsername identity \<noteq> [] \<and> (safeMethod (hrMethod r) \<or> CheckMutation urlHost r = None)"
    if g: "forwardReconfigure fcfg = Inr g" "scForward cfg = Some g" for fcfg g
  proof -
    obtain identity where i: "who = Some identity" "requestIdentity th urlHost w (Some g) r tbl = (Inr identity, tbl')"
      using got g(2) by auto
    note f = requestIdentity_forward[OF i(2)]
    obtain peer p where peer: "peerAddress (hrRemote r) = Some peer" "p \<in> set (fgTrusted g)" "inNetwork p peer"
      using forwardAuthenticate_Inr(1)[OF conjunct1[OF f]] by auto
    have "trustedNetworks (fcTrustedProxies fcfg) = Inr (fgTrusted g)"
      using g(1) by (auto simp: forwardReconfigure_def Let_def split: sum.splits if_splits)
    then obtain rw where "rw \<in> set (fcTrustedProxies fcfg)" "parsePrefix rw = Some p"
      using trustedNetworks_set peer(2) by blast
    then have "trustedPeer fcfg peer" using inNetwork_parsePrefix peer(3) unfolding trustedPeer_def by blast
    then show ?thesis using i(1) peer(1) f forwardAuthenticate_Inr(3)[OF conjunct1[OF f]] by blast
  qed
  moreover have "\<exists>identity token csrf. who = Some identity \<and> hrCookies r ''veduta_session'' = Some token \<and>
        fst (Authenticate th (qwQuery w) (qwWrite w) (qwNow w) token tbl) = Inr (identity, csrf) \<and>
        (safeMethod (hrMethod r) \<or>
         csrf \<noteq> [] \<and> hrCookies r ''veduta_csrf'' = Some csrf \<and> headerGet r ''X-CSRF-Token'' = csrf)"
    if "scForward cfg = None \<and> scPassword cfg"
    using got that requestIdentity_password[of th urlHost w r tbl] by fastforce
  ultimately show ?thesis by blast
qed

definition proxyExample :: ForwardConfig where
  "proxyExample = \<lparr>fcTrustedProxies = [''10.0.0.0/8''], fcUserHeader = [], fcGroupsHeader = ''Remote-Groups'',
     fcAdminGroups = [''admins''], fcPrivilegedOperations = ''admin-group''\<rparr>"

definition generationExample :: forwardGeneration where
  "generationExample = \<lparr>fgTrusted = [Prefix4 0x0A000000 8], fgUserHeader = ''Remote-User'',
     fgGroupsHeader = ''Remote-Groups'', fgAdminGroups = [''admins''], fgPrivilegedOperations = ''admin-group''\<rparr>"

definition proxiedRequest :: httpRequest where
  "proxiedRequest = \<lparr>hrMethod = ''GET'', hrPath = ''/api/v1/cards'', hrHost = ''h'', hrRemote = ''10.9.9.9:40000'',
     hrHeader = [''Remote-User'' \<mapsto> ''alice'', ''Remote-Groups'' \<mapsto> ''users, admins''], hrCookies = Map.empty\<rparr>"

definition proxiedServer :: serverConfig where
  "proxiedServer = \<lparr>scListen = [], scAuthConfigured = True, scAllowPublicWithoutAuth = False, scPassword = False,
     scForward = Some generationExample, scFixtures = False, scConfigStore = True, scAuthMode = ''forward''\<rparr>"

lemmas address_eval = ParsePrefix_def LastIndexByte_def IndexByte_def ParseAddr_def parseIPv4Fields_def parseOctet_def
  ParseUint_def decimalDigit_def prefixBits_def less_eq_char_def SplitHostPort_def

lemma proxy_parsed: "forwardReconfigure proxyExample = Inr generationExample"
proof -
  have "ParsePrefix ''10.0.0.0/8'' = Some (Prefix4 (bytesWord [10, 0, 0, 0]) 8)" by (simp add: address_eval)
  moreover have "bytesWord [10, 0, 0, 0] AND topBits 8 = (0x0A000000 :: 32 word)"
    by (simp add: bytesWord_def topBits_def mask_eq_exp_minus_1)
  moreover have "CanonicalHeaderKey ''Remote-User'' = ''Remote-User''" "CanonicalHeaderKey ''Remote-Groups'' = ''Remote-Groups''"
    by code_simp+
  ultimately show ?thesis
    by (simp add: forwardReconfigure_def proxyExample_def generationExample_def parsePrefix_def orDefault_def)
qed

lemma proxied_passes:
  "\<exists>identity. authenticateRequest id Map.empty w proxiedServer proxiedRequest tbl = (Pass (Some identity), tbl)"
proof -
  have "peerAddress ''10.9.9.9:40000'' = Some (Addr4 (bytesWord [10, 9, 9, 9]))"
    by (simp add: address_eval peerAddress_def)
  moreover have "containsAddr [Prefix4 0x0A000000 8] (Addr4 (bytesWord [10, 9, 9, 9]))"
    by (simp add: containsAddr_def bytesWord_def)
  moreover have "CanonicalHeaderKey ''Remote-User'' = ''Remote-User''" by code_simp
  moreover have "TrimSpace ''alice'' = ''alice''" by code_simp
  ultimately have "\<exists>identity. forwardAuthenticate id generationExample proxiedRequest = Inr identity"
    by (simp add: forwardAuthenticate_def generationExample_def proxiedRequest_def headerGet_def Let_def)
  then show ?thesis
    by (auto simp: authenticateRequest_def proxiedServer_def publicRoute_def proxiedRequest_def isAPIPath_def
        requestIdentity_def safeMethod_def)
qed

theorem api_requests_authenticated_witness:
  "\<exists>identity peer. authenticateRequest id Map.empty \<lparr>qwNow = 0, qwQuery = None, qwWrite = None\<rparr> proxiedServer proxiedRequest
       aliceTables = (Pass (Some identity), aliceTables) \<and>
     peerAddress (hrRemote proxiedRequest) = Some peer \<and> trustedPeer proxyExample peer"
proof -
  obtain identity where i: "authenticateRequest id Map.empty \<lparr>qwNow = 0, qwQuery = None, qwWrite = None\<rparr>
      proxiedServer proxiedRequest aliceTables = (Pass (Some identity), aliceTables)" using proxied_passes by metis
  have "isAPIPath (hrPath proxiedRequest)"
    "hrPath proxiedRequest \<notin> {''/api/v1/health'', ''/api/v1/version'', ''/api/v1/notices''}"
    "\<not> (hrPath proxiedRequest = ''/api/v1/auth/session'' \<and> hrMethod proxiedRequest = ''POST'')"
    by (simp_all add: proxiedRequest_def isAPIPath_def)
  from api_requests_authenticated[OF i this] proxy_parsed
  have "\<exists>peer. peerAddress (hrRemote proxiedRequest) = Some peer \<and> trustedPeer proxyExample peer"
    by (simp add: proxiedServer_def) blast
  with i show ?thesis by blast
qed

text \<open>
  C23. The server does not listen publicly without authentication: when it starts with neither kind of
  authentication and without the override, its listen address names a host all of whose addresses are
  loopback addresses.
\<close>

theorem public_listen_needs_auth:
  assumes "newServer lookupIP cfg = Inr cfg'" and "\<not> scPassword cfg" "scForward cfg = None" "\<not> scAuthConfigured cfg"
    and "\<not> scAllowPublicWithoutAuth cfg"
  shows "\<exists>host port. SplitHostPort (scListen cfg') = Some (host, port) \<and> host \<noteq> [] \<and>
    (case ParseIP host of
       Some ip \<Rightarrow> IsLoopback ip
     | None \<Rightarrow> (\<exists>ips. lookupIP host = Some ips \<and> (\<forall>ip\<in>set ips. IsLoopback ip)))"
proof -
  have "isPublicAddr lookupIP (scListen cfg') = Some False"
    using assms by (auto simp: newServer_def Let_def split: if_splits option.splits)
  then show ?thesis by (auto simp: isPublicAddr_def list_ex_iff split: option.splits if_splits)
qed

definition localServer :: serverConfig where
  "localServer = \<lparr>scListen = [], scAuthConfigured = False, scAllowPublicWithoutAuth = False, scPassword = False,
     scForward = None, scFixtures = True, scConfigStore = False, scAuthMode = []\<rparr>"

theorem public_listen_needs_auth_witness:
  "\<exists>cfg. newServer Map.empty localServer = Inr cfg \<and>
     newServer Map.empty (localServer\<lparr>scListen := ''0.0.0.0:80''\<rparr>) = Inl ErrPublicWithoutAuth \<and>
     (\<exists>host port. SplitHostPort (scListen cfg) = Some (host, port) \<and> host \<noteq> [])"
proof -
  have ip: "ParseIP ''127.0.0.1'' = Some (Addr4 (bytesWord [127, 0, 0, 1]))" "ParseIP ''0.0.0.0'' = Some (Addr4 (bytesWord [0, 0, 0, 0]))"
    by (simp_all add: address_eval ParseIP_def)
  have "SplitHostPort ''127.0.0.1:8099'' = Some (''127.0.0.1'', ''8099'')" "SplitHostPort ''0.0.0.0:80'' = Some (''0.0.0.0'', ''80'')"
    by (simp_all add: address_eval)
  then have "isPublicAddr Map.empty ''127.0.0.1:8099'' = Some False" "isPublicAddr Map.empty ''0.0.0.0:80'' = Some True"
    by (simp_all add: isPublicAddr_def ip bytesWord_def)
  then obtain cfg where n: "newServer Map.empty localServer = Inr cfg"
    and "newServer Map.empty (localServer\<lparr>scListen := ''0.0.0.0:80''\<rparr>) = Inl ErrPublicWithoutAuth"
    by (simp add: newServer_def localServer_def orDefault_def)
  then show ?thesis using public_listen_needs_auth[OF n] by (auto simp: localServer_def)
qed

end
