(* ===== verification/Contracts.thy ===== *)
theory Contracts
  imports RoutePath GoTime Utf8
begin

text \<open>
  The parts of \<open>internal/contracts\<close> that stand on their own: semantic versions (\<open>helpers.go\<close>), and from
  \<open>semantic.go\<close> glob and template coverage, written independently of the loader's \<open>routepath\<close>, and the lexer
  that finds the code of a rule expression.
\<close>

section \<open>Semantic versions\<close>

definition isAllDigits :: "string \<Rightarrow> bool" where
  "isAllDigits s \<longleftrightarrow> list_all isDigit s \<and> s \<noteq> []"

definition numericIdent :: "string \<Rightarrow> bool" where
  "numericIdent n \<longleftrightarrow> \<not> (n = [] \<or> (length n > 1 \<and> hd n = CHR ''0'')) \<and> isAllDigits n"

definition alphanumericIdent :: "string \<Rightarrow> bool" where
  "alphanumericIdent s \<longleftrightarrow> list_all (\<lambda>c. isDigit c \<or> isAlpha c \<or> c = CHR ''-'') s"

definition splitNonEmpty :: "string \<Rightarrow> string list" where
  "splitNonEmpty s = (if s = [] then [] else Split CHR ''.'' s)"

definition cutOrAll :: "char \<Rightarrow> string \<Rightarrow> string \<times> string" where
  "cutOrAll sep s = (if sep \<in> set s then (takeWhile (\<lambda>c. c \<noteq> sep) s, tl (dropWhile (\<lambda>c. c \<noteq> sep) s)) else (s, []))"

definition ValidSemver :: "string \<Rightarrow> bool" where
  "ValidSemver v =
     (let (core0, build) = cutOrAll CHR ''+'' v;
          (core, pre) = cutOrAll CHR ''-'' core0;
          nums = Split CHR ''.'' core in
      length nums = 3 \<and> list_all numericIdent nums \<and>
      \<not> (CHR ''-'' \<in> set v \<and> pre = []) \<and>
      list_all (\<lambda>i. i \<noteq> [] \<and> alphanumericIdent i \<and> \<not> (isAllDigits i \<and> length i > 1 \<and> hd i = CHR ''0'')) (splitNonEmpty pre) \<and>
      \<not> (CHR ''+'' \<in> set v \<and> build = []) \<and>
      list_all (\<lambda>i. i \<noteq> [] \<and> alphanumericIdent i) (splitNonEmpty build))"

section \<open>Globs and templates\<close>

text \<open>
  The regular expression of \<open>GlobMatch\<close>: the literal parts, with \<open>[^/]*\<close> between them, from the beginning of
  the text to its end.  It is matched by code points, and a segment that is not valid UTF-8 does not compile.
\<close>

fun quotedMatch :: "'a \<Rightarrow> 'a list list \<Rightarrow> 'a list \<Rightarrow> bool" where
  "quotedMatch slash [] s \<longleftrightarrow> s = []"
| "quotedMatch slash [p] s \<longleftrightarrow> s = p"
| "quotedMatch slash (p # q # ps) s \<longleftrightarrow>
     take (length p) s = p \<and>
     (let rest = drop (length p) s in
      list_ex (\<lambda>k. slash \<notin> set (take k rest) \<and> quotedMatch slash (q # ps) (drop k rest)) [0..<Suc (length rest)])"

definition globSegment :: "string \<Rightarrow> string \<Rightarrow> bool" where
  "globSegment p s \<longleftrightarrow> p = s \<or>
     (CHR ''*'' \<in> set p \<and> validUTF8 p \<and>
      quotedMatch (of_char CHR ''/'') (map decodeRunes (Split CHR ''*'' p)) (decodeRunes s))"

definition GlobMatch :: "string \<Rightarrow> string \<Rightarrow> bool" where
  "GlobMatch pattern path = list_all2 globSegment (Split CHR ''/'' pattern) (Split CHR ''/'' path)"

definition placeholderSegment :: "string \<Rightarrow> bool" where
  "placeholderSegment seg \<longleftrightarrow>
     (case seg of
        [] \<Rightarrow> False
      | c # cs \<Rightarrow> c = CHR ''{'' \<and> cs \<noteq> [] \<and> last cs = CHR ''}'' \<and> butlast cs \<noteq> [] \<and> isAlpha (hd (butlast cs)) \<and>
          list_all isWordByte (tl (butlast cs)) \<and> length (tl (butlast cs)) \<le> 31)"

fun placeholdersOf :: "string list \<Rightarrow> string list option" where
  "placeholdersOf [] = Some []"
| "placeholdersOf (seg # segs) =
     (if \<not> ContainsAny seg ''{}'' then placeholdersOf segs
      else if \<not> placeholderSegment seg then None
      else map_option ((#) (take (length seg - 2) (drop 1 seg))) (placeholdersOf segs))"

definition pathPlaceholders :: "string \<Rightarrow> string list option" where
  "pathPlaceholders path = placeholdersOf (Split CHR ''/'' path)"

definition templateCovered :: "string \<Rightarrow> string \<Rightarrow> bool" where
  "templateCovered pattern path =
     (let pp = Split CHR ''/'' pattern; sp = Split CHR ''/'' path in
      length pp = length sp \<and> list_all2 (\<lambda>p s. HasPrefix s ''{'' \<longrightarrow> p = ''*'') pp sp \<and>
      GlobMatch pattern (Join ''/'' (map (\<lambda>s. if HasPrefix s ''{'' then ''x'' else s) sp)))"

section \<open>The lexer of rule expressions\<close>

text \<open>The position after the closing quote \<open>q\<close>, possibly past the end of the text.\<close>

function skipQuoted :: "string \<Rightarrow> char \<Rightarrow> nat \<Rightarrow> nat" where
  "skipQuoted expr q i =
     (if i < length expr \<and> expr ! i \<noteq> q
      then skipQuoted expr q (if expr ! i = CHR 0x5C then i + 2 else i + 1) else i + 1)"
  by pat_completeness auto
termination by (relation "measure (\<lambda>(expr, _, i). length expr - i)") auto

declare skipQuoted.simps [simp del]

lemma skipQuoted_later: "i < skipQuoted expr q i"
  by (induction expr q i rule: skipQuoted.induct) (subst skipQuoted.simps, auto)

function spansFrom :: "string \<Rightarrow> nat \<Rightarrow> nat \<Rightarrow> (nat \<times> nat) list" where
  "spansFrom expr start i =
     (if i < length expr
      then if expr ! i = CHR 0x22 \<or> expr ! i = CHR 0x27
           then let j = skipQuoted expr (expr ! i) (i + 1) in (start, i) # spansFrom expr j j
           else spansFrom expr start (i + 1)
      else [(start, length expr)])"
  by pat_completeness auto
termination
proof (relation "measure (\<lambda>(expr, _, i). length expr - i)", goal_cases)
  case (2 expr start i x)
  then show ?case using skipQuoted_later[of "i + 1" expr "expr ! i"] by simp
qed auto

declare spansFrom.simps [simp del]

definition CodeSpans :: "string \<Rightarrow> (nat \<times> nat) list" where
  "CodeSpans expr = filter (\<lambda>(a, b). a < b \<and> b \<le> length expr) (spansFrom expr 0 0)"

section \<open>Agreement with the loader\<close>

lemma quotedMatch_map:
  assumes "inj f"
  shows "quotedMatch (f slash) (map (map f) ps) (map f s) \<longleftrightarrow> quotedMatch slash ps s"
proof (induction slash ps s rule: quotedMatch.induct)
  case (3 slash p q ps s)
  have "map f (take (length p) s) = map f p \<longleftrightarrow> take (length p) s = p" using assms by (rule inj_map_eq_map)
  moreover have "quotedMatch (f slash) (map (map f) (q # ps)) (drop k (drop (length p) (map f s))) \<longleftrightarrow>
      quotedMatch slash (q # ps) (drop k (drop (length p) s))" if "k \<in> set [0..<Suc (length (drop (length p) s))]" for k
    using 3[OF refl that] by (simp only: drop_map)
  moreover have "f slash \<in> set (take k (drop (length p) (map f s))) \<longleftrightarrow> slash \<in> set (take k (drop (length p) s))" for k
    using assms by (auto simp: take_map drop_map inj_image_mem_iff)
  ultimately show ?case
    by (simp add: Let_def list_ex_iff take_map del: upt_Suc drop_drop)
qed (use assms in \<open>auto simp: inj_map_eq_map\<close>)

abbreviation byteMatch :: "string list \<Rightarrow> string \<Rightarrow> bool" where
  "byteMatch \<equiv> quotedMatch CHR ''/''"

lemma byteMatch_Cons:
  "byteMatch ((c # h) # t) s \<longleftrightarrow> (\<exists>s'. s = c # s' \<and> byteMatch (h # t) s')"
  by (cases t; cases s) auto

lemma byteMatch_star:
  assumes "CHR ''/'' \<notin> set s"
  shows "byteMatch ([] # q # ps) s \<longleftrightarrow> (\<exists>u r. s = u @ r \<and> byteMatch (q # ps) r)"
proof
  assume "byteMatch ([] # q # ps) s"
  then have "\<exists>k. byteMatch (q # ps) (drop k s)" by (simp only: quotedMatch.simps Let_def list_ex_iff list.size drop_0) blast
  then obtain k where "byteMatch (q # ps) (drop k s)" by blast
  then show "\<exists>u r. s = u @ r \<and> byteMatch (q # ps) r" by (metis append_take_drop_id)
next
  assume "\<exists>u r. s = u @ r \<and> byteMatch (q # ps) r"
  then obtain u r where "s = u @ r" "byteMatch (q # ps) r" by blast
  then show "byteMatch ([] # q # ps) s" using assms
    by (auto simp: list_ex_iff intro!: bexI[of _ "length u"])
qed

lemma byteMatch_glob: "CHR ''/'' \<notin> set s \<Longrightarrow> byteMatch (Split CHR ''*'' p) s \<longleftrightarrow> globMatches p s"
proof (induction p arbitrary: s)
  case (Cons c p)
  obtain h t where split: "Split CHR ''*'' p = h # t" by (cases "Split CHR ''*'' p") auto
  show ?case
  proof (cases "c = CHR ''*''")
    case True
    have "byteMatch (h # t) r \<longleftrightarrow> globMatches p r" if "s = u @ r" for u r
      using Cons that split by simp
    then show ?thesis using True split byteMatch_star[OF Cons.prems, of h t] globMatches_star[of p s]
      by (auto simp del: globMatches.simps quotedMatch.simps)
  next
    case False
    then show ?thesis using Cons split by (cases s) (auto simp: byteMatch_Cons simp del: quotedMatch.simps)
  qed
qed simp

lemma Split_ascii: "ascii p \<Longrightarrow> q \<in> set (Split c p) \<Longrightarrow> ascii q"
proof (induction p arbitrary: q)
  case (Cons x p)
  obtain h t where "Split c p = h # t" by (cases "Split c p") auto
  then show ?case using Cons by (auto split: if_splits)
qed simp

lemma quotedMatch_ascii:
  assumes "ascii p" "ascii s"
  shows "quotedMatch (of_char CHR ''/'') (map decodeRunes (Split CHR ''*'' p)) (decodeRunes s) \<longleftrightarrow> byteMatch (Split CHR ''*'' p) s"
proof -
  have parts: "map decodeRunes (Split CHR ''*'' p) = map (map of_char) (Split CHR ''*'' p)"
    using Split_ascii[OF assms(1)] by (auto simp: decodeRunes_ascii)
  have "inj (of_char :: char \<Rightarrow> nat)" by (auto intro: injI simp: of_char_eq_iff)
  from quotedMatch_map[OF this] show ?thesis unfolding parts decodeRunes_ascii[OF assms(2)] .
qed

lemma globSegment_glob:
  assumes s: "CHR ''/'' \<notin> set s" and bytes: "ascii p" "ascii s"
  shows "globSegment p s \<longleftrightarrow> globMatches p s"
proof -
  have "globMatches p p"
  proof (induction p)
    case (Cons c p)
    then show ?case using globMatches_star[of p "c # p"]
      by (cases "c = CHR ''*''") (force simp del: globMatches.simps, simp)
  qed simp
  moreover have "globMatches p s \<longleftrightarrow> p = s" if "CHR ''*'' \<notin> set p"
    using globMatches_literal[OF that, of "[]" s] by auto
  ultimately show ?thesis using byteMatch_glob[OF s, of p] quotedMatch_ascii[OF bytes] validUTF8_ascii[OF bytes(1)]
    by (auto simp: globSegment_def)
qed

lemma list_all2_cong_both:
  "(\<And>x y. x \<in> set xs \<Longrightarrow> y \<in> set ys \<Longrightarrow> P x y = Q x y) \<Longrightarrow> list_all2 P xs ys = list_all2 Q xs ys"
  by (auto simp: list_all2_conv_all_nth)

lemma GlobMatch_absolute:
  assumes "ascii g" "ascii p"
  shows "GlobMatch (CHR ''/'' # g) (CHR ''/'' # p) = Match (CHR ''/'' # g) (CHR ''/'' # p)"
proof -
  have "list_all2 globSegment (Split CHR ''/'' g) (Split CHR ''/'' p) =
      list_all2 matchSegment (Split CHR ''/'' g) (Split CHR ''/'' p)"
    using Split_ascii[OF assms(1)] Split_ascii[OF assms(2)]
    by (intro list_all2_cong_both) (simp add: matchSegment_glob globSegment_glob Split_no_sep)
  moreover have "globSegment [] []" by (simp add: globSegment_def)
  ultimately show ?thesis
    by (auto simp: GlobMatch_def Match_def Let_def TrimPrefix_def HasPrefix_def list_all2_lengthD)
qed

text \<open>A parsed template written down again.\<close>

definition printSegment :: "templateSegment \<Rightarrow> string" where
  "printSegment s = (if placeholder s \<noteq> [] then ''{'' @ placeholder s @ ''}'' else literal s)"

definition printTemplate :: "Template \<Rightarrow> string" where
  "printTemplate t = ''/'' @ Join ''/'' (map printSegment (Template.segments t))"

definition printable :: "templateSegment \<Rightarrow> bool" where
  "printable s \<longleftrightarrow>
     (if placeholder s \<noteq> [] then placeholderName (placeholder s)
      else segmentNormalises (literal s) (literal s) \<and> \<not> ContainsAny (literal s) ''{}'' \<and> ascii (literal s))"

lemma placeholderName_bytes: "placeholderName n \<Longrightarrow> c \<in> set n \<Longrightarrow> isWordByte c"
  by (cases n) (auto simp: placeholderName_def isWordByte_def list_all_iff)

lemma printSegment_no_slash: "printable s \<Longrightarrow> CHR ''/'' \<notin> set (printSegment s)"
proof -
  assume p: "printable s"
  have "\<not> isWordByte CHR ''/''" by (simp add: isWordByte_def isAlpha_def less_eq_char_def)
  then show ?thesis using p segmentNormalises_no_slash[of "literal s" "literal s"] placeholderName_bytes[of "placeholder s"]
    by (auto simp: printable_def printSegment_def split: if_splits)
qed

lemma printSegment_brace: "printable s \<Longrightarrow> HasPrefix (printSegment s) ''{'' \<longleftrightarrow> placeholder s \<noteq> []"
  by (cases "literal s") (auto simp: printable_def printSegment_def HasPrefix_def ContainsAny_def)

lemma placeholder_word: "placeholderName n \<Longrightarrow> placeholderSegment (''{'' @ n @ ''}'')"
  by (cases n) (auto simp: placeholderName_def placeholderSegment_def list_all_iff isWordByte_def)

lemma placeholdersOf_print:
  "list_all printable ss \<Longrightarrow> placeholdersOf (map printSegment ss) = Some (filter (\<lambda>n. n \<noteq> []) (map placeholder ss))"
proof (induction ss)
  case (Cons s ss)
  then show ?case
    by (auto simp: printable_def printSegment_def placeholder_word[unfolded append.simps] ContainsAny_def)
qed simp

lemma Split_printTemplate:
  assumes "list_all printable (Template.segments t)" "Template.segments t \<noteq> []"
  shows "Split CHR ''/'' (printTemplate t) = [] # map printSegment (Template.segments t)"
proof -
  have "Split CHR ''/'' (Join ''/'' (map printSegment (Template.segments t))) = map printSegment (Template.segments t)"
    using assms printSegment_no_slash by (intro Split_Join) (auto simp: list_all_iff)
  then show ?thesis by (simp add: printTemplate_def)
qed

lemma templateCovered_segments:
  assumes t: "list_all printable (Template.segments t)" "Template.segments t \<noteq> []" and g: "ascii g"
  shows "templateCovered (CHR ''/'' # g) (printTemplate t) \<longleftrightarrow> list_all2 coveredSegment (Split CHR ''/'' g) (Template.segments t)"
proof -
  define ss where "ss = Template.segments t"
  define stand where "stand = (\<lambda>s :: templateSegment. if placeholder s \<noteq> [] then ''x'' else literal s)"
  have stand: "map (\<lambda>s. if HasPrefix s ''{'' then ''x'' else s) (map printSegment ss) = map stand ss"
    using t(1) printSegment_brace by (auto simp: stand_def ss_def list_all_iff printSegment_def)
  have noslash: "\<forall>s\<in>set ss. CHR ''/'' \<notin> set (stand s)"
  proof
    fix s assume "s \<in> set ss"
    then have "printable s" using t(1) by (simp add: ss_def list_all_iff)
    from printSegment_no_slash[OF this] show "CHR ''/'' \<notin> set (stand s)" by (auto simp: stand_def printSegment_def split: if_splits)
  qed
  then have join: "Split CHR ''/'' (Join ''/'' ([] # map stand ss)) = [] # map stand ss" by (intro Split_Join) auto
  have masked: "map (\<lambda>s. if HasPrefix s ''{'' then ''x'' else s) ([] # map printSegment ss) = [] # map stand ss"
    using stand by (simp add: HasPrefix_def)
  have "templateCovered (CHR ''/'' # g) (printTemplate t) \<longleftrightarrow>
      length (Split CHR ''/'' g) = length ss \<and>
      list_all2 (\<lambda>p s. HasPrefix (printSegment s) ''{'' \<longrightarrow> p = ''*'') (Split CHR ''/'' g) ss \<and>
      list_all2 (\<lambda>p s. globSegment p (stand s)) (Split CHR ''/'' g) ss"
    unfolding templateCovered_def Let_def Split_printTemplate[OF t] ss_def[symmetric] masked GlobMatch_def join
    by (simp add: list_all2_map2 globSegment_def HasPrefix_def)
  also have "\<dots> \<longleftrightarrow>
      list_all2 (\<lambda>p s. (HasPrefix (printSegment s) ''{'' \<longrightarrow> p = ''*'') \<and> globSegment p (stand s)) (Split CHR ''/'' g) ss"
    by (auto simp: list_all2_conv_all_nth)
  also have "\<dots> \<longleftrightarrow> list_all2 coveredSegment (Split CHR ''/'' g) ss"
  proof (rule list_all2_cong_both)
    fix p s assume p: "p \<in> set (Split CHR ''/'' g)" and s: "s \<in> set ss"
    then have pr: "printable s" using t(1) by (simp add: ss_def list_all_iff)
    show "((HasPrefix (printSegment s) ''{'' \<longrightarrow> p = ''*'') \<and> globSegment p (stand s)) = coveredSegment p s"
      using noslash s printSegment_brace[OF pr] globMatches_single_star globSegment_glob[OF _ Split_ascii[OF g p], of "stand s"] pr
      by (auto simp: matchSegment_glob stand_def printable_def)
  qed
  finally show ?thesis by (simp add: ss_def)
qed

section \<open>The reference lexer\<close>

text \<open>
  The state of a reader of expressions: outside of strings, inside a string with the given quote, or just
  after a backslash inside it.  \<open>codeMask\<close> marks the bytes that belong to no string literal.
\<close>

datatype lexState = Outside | Inside char | Escaped char

definition isQuote :: "char \<Rightarrow> bool" where
  "isQuote c \<longleftrightarrow> c = CHR 0x22 \<or> c = CHR 0x27"

fun codeMask :: "lexState \<Rightarrow> string \<Rightarrow> bool list" where
  "codeMask st [] = []"
| "codeMask Outside (c # s) = (if isQuote c then False # codeMask (Inside c) s else True # codeMask Outside s)"
| "codeMask (Inside q) (c # s) =
     False # codeMask (if c = q then Outside else if c = CHR 0x5C then Escaped q else Inside q) s"
| "codeMask (Escaped q) (c # s) = False # codeMask (Inside q) s"

lemma length_codeMask [simp]: "length (codeMask st s) = length s"
  by (induction st s rule: codeMask.induct) auto

lemma drop_Cons_nth: "i < length s \<Longrightarrow> drop i s = s ! i # drop (Suc i) s"
  by (rule Cons_nth_drop_Suc[symmetric])

text \<open>Inside a string the mask is false up to where \<open>skipQuoted\<close> ends.\<close>

lemma codeMask_skip:
  "codeMask (Inside q) (drop i expr) =
     replicate (min (skipQuoted expr q i) (length expr) - i) False @ codeMask Outside (drop (skipQuoted expr q i) expr)"
  if "i \<le> length expr"
  using that
proof (induction expr q i rule: skipQuoted.induct)
  case (1 expr q i)
  show ?case
  proof (cases "i < length expr \<and> expr ! i \<noteq> q")
    case False
    then have "skipQuoted expr q i = i + 1" by (subst skipQuoted.simps) (simp only: if_False)
    then show ?thesis using False 1(2) by (cases "i < length expr") (simp_all add: drop_Cons_nth min_def)
  next
    case True
    define j where "j = (if expr ! i = CHR 0x5C then i + 2 else i + 1)"
    have s: "skipQuoted expr q i = skipQuoted expr q j"
      unfolding j_def by (subst skipQuoted.simps) (simp only: True if_True simp_thms)
    have later: "j < skipQuoted expr q j" by (rule skipQuoted_later)
    show ?thesis
    proof (cases "j \<le> length expr")
      case True2: True
      have "codeMask (Inside q) (drop i expr) = replicate (j - i) False @ codeMask (Inside q) (drop j expr)"
        using True True2 by (auto simp: j_def drop_Cons_nth numeral_2_eq_2)
      also have "\<dots> = replicate (j - i) False @ replicate (min (skipQuoted expr q j) (length expr) - j) False @
          codeMask Outside (drop (skipQuoted expr q j) expr)"
        using 1(1)[OF True] True2 by (simp add: j_def)
      also have "\<dots> = replicate (min (skipQuoted expr q j) (length expr) - i) False @
          codeMask Outside (drop (skipQuoted expr q j) expr)"
        using later True2 by (simp add: j_def flip: append_assoc replicate_add)
      finally show ?thesis using s by simp
    next
      case False2: False
      then have "expr ! i = CHR 0x5C" "length expr = Suc i" "j = i + 2" using True by (auto simp: j_def split: if_splits)
      then show ?thesis using True s later by (simp add: drop_Cons_nth min_def)
    qed
  qed
qed

lemma spansFrom_mask:
  assumes "start \<le> i" "i \<le> length expr \<or> start = i"
  shows "(\<exists>(a, b)\<in>set (spansFrom expr start i). a \<le> k \<and> k < b \<and> b \<le> length expr) \<longleftrightarrow>
    start \<le> k \<and> k < i \<and> i \<le> length expr \<or> i \<le> k \<and> k < length expr \<and> codeMask Outside (drop i expr) ! (k - i)"
  using assms
proof (induction expr start i rule: spansFrom.induct)
  case (1 expr start i)
  show ?case
  proof (cases "i < length expr")
    case False
    then have "spansFrom expr start i = [(start, length expr)]" by (subst spansFrom.simps) simp
    then show ?thesis using False 1(3,4) by auto
  next
    case in_: True
    show ?thesis
    proof (cases "isQuote (expr ! i)")
      case False
      then have s: "spansFrom expr start i = spansFrom expr start (i + 1)"
        using in_ by (subst spansFrom.simps) (simp add: isQuote_def)
      have m: "codeMask Outside (drop i expr) = True # codeMask Outside (drop (i + 1) expr)"
        using False in_ by (simp add: drop_Cons_nth)
      have ih: "(\<exists>(a, b)\<in>set (spansFrom expr start (i + 1)). a \<le> k \<and> k < b \<and> b \<le> length expr) \<longleftrightarrow>
          start \<le> k \<and> k < i + 1 \<or> i + 1 \<le> k \<and> k < length expr \<and> codeMask Outside (drop (i + 1) expr) ! (k - (i + 1))"
        using 1(2)[OF in_] 1(3) in_ False by (simp add: isQuote_def)
      show ?thesis unfolding s m ih using 1(3) in_ by (auto simp: nth_Cons' Suc_le_eq)
    next
      case True
      define j where "j = skipQuoted expr (expr ! i) (i + 1)"
      have s: "spansFrom expr start i = (start, i) # spansFrom expr j j"
        using in_ True by (subst spansFrom.simps) (simp add: isQuote_def j_def Let_def)
      have later: "i + 1 < j" unfolding j_def by (rule skipQuoted_later)
      have m: "codeMask Outside (drop i expr) =
          False # replicate (min j (length expr) - (i + 1)) False @ codeMask Outside (drop j expr)"
        using True in_ codeMask_skip[of "i + 1" expr "expr ! i"] by (simp add: drop_Cons_nth j_def)
      have ih: "(\<exists>(a, b)\<in>set (spansFrom expr j j). a \<le> k \<and> k < b \<and> b \<le> length expr) \<longleftrightarrow>
          j \<le> k \<and> k < length expr \<and> codeMask Outside (drop j expr) ! (k - j)"
        using 1(1)[OF in_, of j] True by (auto simp: isQuote_def j_def)
      have nth: "codeMask Outside (drop i expr) ! (k - i) \<longleftrightarrow> j \<le> k \<and> codeMask Outside (drop j expr) ! (k - j)"
        if "i \<le> k" "k < length expr" unfolding m using that later
        by (auto simp: nth_Cons' nth_append min_def not_less Suc_diff_Suc split: if_splits)
      show ?thesis unfolding s using ih nth later in_ by auto
    qed
  qed
qed

section \<open>The grammar of semantic versions\<close>

definition buildIdent :: "string \<Rightarrow> bool" where
  "buildIdent i \<longleftrightarrow> i \<noteq> [] \<and> alphanumericIdent i"

definition preIdent :: "string \<Rightarrow> bool" where
  "preIdent i \<longleftrightarrow> i \<noteq> [] \<and> alphanumericIdent i \<and> \<not> (isAllDigits i \<and> length i > 1 \<and> hd i = CHR ''0'')"

text \<open>
  A version of SemVer 2.0.0: three numbers, then a pre-release and a build part that may be absent, each one
  or more identifiers.
\<close>

definition semverParts :: "string list \<Rightarrow> string list option \<Rightarrow> string list option \<Rightarrow> bool" where
  "semverParts nums pre build \<longleftrightarrow>
     length nums = 3 \<and> list_all numericIdent nums \<and>
     (case pre of None \<Rightarrow> True | Some ids \<Rightarrow> ids \<noteq> [] \<and> list_all preIdent ids) \<and>
     (case build of None \<Rightarrow> True | Some ids \<Rightarrow> ids \<noteq> [] \<and> list_all buildIdent ids)"

definition optionalPart :: "char \<Rightarrow> string list option \<Rightarrow> string" where
  "optionalPart c ids = (case ids of None \<Rightarrow> [] | Some ids \<Rightarrow> c # Join ''.'' ids)"

definition semverText :: "string list \<Rightarrow> string list option \<Rightarrow> string list option \<Rightarrow> string" where
  "semverText nums pre build = Join ''.'' nums @ optionalPart CHR ''-'' pre @ optionalPart CHR ''+'' build"

lemma ident_bytes:
  "numericIdent i \<Longrightarrow> c \<in> set i \<Longrightarrow> c \<noteq> CHR ''.'' \<and> c \<noteq> CHR ''-'' \<and> c \<noteq> CHR ''+''"
  "alphanumericIdent i \<Longrightarrow> c \<in> set i \<Longrightarrow> c \<noteq> CHR ''.'' \<and> c \<noteq> CHR ''+''"
  by (auto simp: numericIdent_def isAllDigits_def alphanumericIdent_def list_all_iff isDigit_def isAlpha_def less_eq_char_def)

lemma set_Join_dot: "c \<in> set (Join ''.'' ps) \<Longrightarrow> c = CHR ''.'' \<or> (\<exists>p\<in>set ps. c \<in> set p)"
  by (induction "''.''" ps rule: Join.induct) auto

lemma cutOrAll_append: "sep \<notin> set a \<Longrightarrow> cutOrAll sep (a @ sep # b) = (a, b)"
  by (simp add: cutOrAll_def takeWhile_append dropWhile_append)

lemma cutOrAll_none: "sep \<notin> set a \<Longrightarrow> cutOrAll sep a = (a, [])"
  by (simp add: cutOrAll_def)

lemma cutOrAll_join:
  assumes "cutOrAll sep s = (a, b)" "sep \<in> set s"
  shows "s = a @ sep # b \<and> sep \<notin> set a"
proof -
  obtain x y where s: "s = x @ sep # y" "sep \<notin> set x" using assms(2) by (metis split_list_first)
  then show ?thesis using assms(1) cutOrAll_append[of sep x y] by simp
qed

lemma Split_dot_idents: "ids \<noteq> [] \<Longrightarrow> list_all (\<lambda>i. CHR ''.'' \<notin> set i) ids \<Longrightarrow> Split CHR ''.'' (Join ''.'' ids) = ids"
  by (rule Split_Join) (auto simp: list_all_iff)

lemma splitNonEmpty_idents:
  assumes "ids \<noteq> []" "list_all (\<lambda>i. i \<noteq> [] \<and> alphanumericIdent i) ids"
  shows "splitNonEmpty (Join ''.'' ids) = ids" "Join ''.'' ids \<noteq> []"
proof -
  have s: "Split CHR ''.'' (Join ''.'' ids) = ids"
    using assms ident_bytes(2) by (intro Split_dot_idents) (auto simp: list_all_iff)
  show ne: "Join ''.'' ids \<noteq> []"
  proof
    assume "Join ''.'' ids = []"
    then have "ids = [[]]" using s by simp
    then show False using assms(2) by simp
  qed
  then show "splitNonEmpty (Join ''.'' ids) = ids" using s by (simp add: splitNonEmpty_def)
qed

lemma splitNonEmpty_Join:
  "s \<noteq> [] \<Longrightarrow> Join ''.'' (splitNonEmpty s) = s \<and> splitNonEmpty s \<noteq> []"
  by (simp add: splitNonEmpty_def Join_Split)

definition hyphenOnlyInBuild :: "string list option \<Rightarrow> string list option \<Rightarrow> bool" where
  "hyphenOnlyInBuild pre build \<longleftrightarrow> pre = None \<and> CHR ''-'' \<in> set (optionalPart CHR ''+'' build)"

lemma semver_text_valid:
  assumes parts: "semverParts nums pre build"
  shows "ValidSemver (semverText nums pre build) \<longleftrightarrow> \<not> hyphenOnlyInBuild pre build"
proof -
  define core where "core = Join ''.'' nums"
  define p where "p = optionalPart CHR ''-'' pre"
  have core: "CHR ''-'' \<notin> set core" "CHR ''+'' \<notin> set core"
    using parts ident_bytes(1) set_Join_dot by (fastforce simp: core_def semverParts_def list_all_iff)+
  have split: "Split CHR ''.'' core = nums"
    unfolding core_def using parts ident_bytes(1) by (intro Split_dot_idents) (auto simp: semverParts_def list_all_iff)
  have preIds: "ids \<noteq> []" "list_all (\<lambda>i. i \<noteq> [] \<and> alphanumericIdent i) ids" "list_all preIdent ids" if "pre = Some ids" for ids
    using parts that by (auto simp: semverParts_def preIdent_def list_all_iff)
  have buildIds: "ids \<noteq> []" "list_all (\<lambda>i. i \<noteq> [] \<and> alphanumericIdent i) ids" if "build = Some ids" for ids
    using parts that by (auto simp: semverParts_def buildIdent_def list_all_iff)
  have "CHR ''+'' \<notin> set (Join ''.'' ids)" if "pre = Some ids" for ids
    using preIds(2)[OF that] ident_bytes(2) set_Join_dot[of "CHR ''+''" ids] by (auto simp: list_all_iff)
  then have plus: "CHR ''+'' \<notin> set (core @ p)" using core by (auto simp: p_def optionalPart_def split: option.splits)
  have cut1: "cutOrAll CHR ''+'' (core @ p @ optionalPart CHR ''+'' build) =
      (core @ p, case build of None \<Rightarrow> [] | Some ids \<Rightarrow> Join ''.'' ids)"
    using cutOrAll_append[OF plus] cutOrAll_none[OF plus] by (cases build) (simp_all add: optionalPart_def)
  have cut2: "cutOrAll CHR ''-'' (core @ p) = (core, case pre of None \<Rightarrow> [] | Some ids \<Rightarrow> Join ''.'' ids)"
    using cutOrAll_append[OF core(1)] cutOrAll_none[OF core(1)] by (cases pre) (simp_all add: p_def optionalPart_def)
  have v: "ValidSemver (core @ p @ optionalPart CHR ''+'' build) \<longleftrightarrow>
      \<not> (CHR ''-'' \<in> set (core @ p @ optionalPart CHR ''+'' build) \<and> (case pre of None \<Rightarrow> [] | Some ids \<Rightarrow> Join ''.'' ids) = [])"
    unfolding ValidSemver_def cut1 cut2 Let_def prod.case split
    using parts splitNonEmpty_idents[OF preIds(1,2)] splitNonEmpty_idents[OF buildIds] preIds(3) plus
    by (cases pre; cases build)
       (auto simp: semverParts_def splitNonEmpty_def optionalPart_def preIdent_def buildIdent_def list_all_iff)
  show ?thesis unfolding semverText_def core_def[symmetric] p_def[symmetric] v
    using splitNonEmpty_idents(2)[OF preIds(1,2)] core
    by (cases pre) (auto simp: hyphenOnlyInBuild_def p_def optionalPart_def)
qed

lemma valid_semver_text:
  assumes "ValidSemver v"
  obtains nums pre build where "semverParts nums pre build" "v = semverText nums pre build"
proof -
  obtain core0 build where c1: "cutOrAll CHR ''+'' v = (core0, build)" by fastforce
  obtain core pre where c2: "cutOrAll CHR ''-'' core0 = (core, pre)" by fastforce
  define ob where "ob = (if CHR ''+'' \<in> set v then Some (splitNonEmpty build) else None)"
  define op where "op = (if CHR ''-'' \<in> set core0 then Some (splitNonEmpty pre) else None)"
  note v = assms[unfolded ValidSemver_def c1 c2 Let_def prod.case]
  have b: "v = core0 @ optionalPart CHR ''+'' ob" "CHR ''+'' \<in> set v \<Longrightarrow> build \<noteq> []"
    using v cutOrAll_join[OF c1] cutOrAll_none[of "CHR ''+''" v] c1 splitNonEmpty_Join[of build]
    by (auto simp: ob_def optionalPart_def)
  have "CHR ''-'' \<in> set core0 \<Longrightarrow> CHR ''-'' \<in> set v" using b(1) by simp
  then have p: "core0 = core @ optionalPart CHR ''-'' op" "CHR ''-'' \<in> set core0 \<Longrightarrow> pre \<noteq> []"
    using v cutOrAll_join[OF c2] cutOrAll_none[of "CHR ''-''" core0] c2 splitNonEmpty_Join[of pre]
    by (auto simp: op_def optionalPart_def)
  have "semverParts (Split CHR ''.'' core) op ob"
    using v splitNonEmpty_Join b(2) p(2)
    by (auto simp: semverParts_def op_def ob_def preIdent_def buildIdent_def list_all_iff)
  moreover have "v = semverText (Split CHR ''.'' core) op ob"
    using b(1) p(1) by (simp add: semverText_def Join_Split)
  ultimately show thesis by (rule that)
qed

section \<open>Properties\<close>

text \<open>
  \<open>ValidSemver\<close> accepts exactly the versions of SemVer 2.0.0, except those without a pre-release part whose
  build part contains a hyphen: \<open>1.0.0+a-b\<close> is a version and is refused.
\<close>

theorem ValidSemver_grammar:
  "(ValidSemver v \<longleftrightarrow>
     (\<exists>nums pre build. semverParts nums pre build \<and> v = semverText nums pre build \<and> \<not> hyphenOnlyInBuild pre build)) \<and>
   semverParts [''1'', ''0'', ''0''] None (Some [''a-b'']) \<and>
   semverText [''1'', ''0'', ''0''] None (Some [''a-b'']) = ''1.0.0+a-b'' \<and> \<not> ValidSemver ''1.0.0+a-b''"
proof -
  have ex: "semverParts [''1'', ''0'', ''0''] None (Some [''a-b''])"
    "semverText [''1'', ''0'', ''0''] None (Some [''a-b'']) = ''1.0.0+a-b''" "hyphenOnlyInBuild None (Some [''a-b''])"
    by (simp_all add: semverParts_def semverText_def optionalPart_def hyphenOnlyInBuild_def buildIdent_def numericIdent_def
        isAllDigits_def alphanumericIdent_def isDigit_def isAlpha_def less_eq_char_def)
  moreover have "\<not> ValidSemver ''1.0.0+a-b''" using semver_text_valid[OF ex(1)] ex(2,3) by simp
  moreover have "ValidSemver v \<longleftrightarrow>
     (\<exists>nums pre build. semverParts nums pre build \<and> v = semverText nums pre build \<and> \<not> hyphenOnlyInBuild pre build)"
  proof
    assume v: "ValidSemver v"
    then obtain nums pre build where "semverParts nums pre build" "v = semverText nums pre build"
      by (rule valid_semver_text)
    then show "\<exists>nums pre build. semverParts nums pre build \<and> v = semverText nums pre build \<and> \<not> hyphenOnlyInBuild pre build"
      using v semver_text_valid by blast
  qed (use semver_text_valid in blast)
  ultimately show ?thesis by blast
qed

text \<open>
  The byte ranges of \<open>CodeSpans\<close> hold exactly the bytes that a reader of the expression finds outside of
  string literals: quotes, their contents and escaped quotes are in no range, also when a string is not
  closed or ends with a backslash.
\<close>

theorem CodeSpans_exact:
  "(\<exists>(a, b)\<in>set (CodeSpans expr). a \<le> k \<and> k < b) \<longleftrightarrow> k < length expr \<and> codeMask Outside expr ! k"
proof -
  have "(\<exists>(a, b)\<in>set (CodeSpans expr). a \<le> k \<and> k < b) \<longleftrightarrow>
      (\<exists>(a, b)\<in>set (spansFrom expr 0 0). a \<le> k \<and> k < b \<and> b \<le> length expr)"
    unfolding CodeSpans_def by (auto intro: less_le_trans le_less_trans)
  then show ?thesis using spansFrom_mask[of 0 0 expr k] by simp
qed

theorem CodeSpans_exact_witness:
  "\<not> (\<exists>(a, b)\<in>set (CodeSpans [CHR ''x'', CHR 0x22, CHR ''y'', CHR 0x22]). a \<le> 2 \<and> 2 < b)"
  using CodeSpans_exact[of "[CHR ''x'', CHR 0x22, CHR ''y'', CHR 0x22]" 2] by (simp add: isQuote_def)

text \<open>
  C31. The two implementations of coverage agree on what the manifest schema admits.  On absolute ASCII paths the
  checker's \<open>GlobMatch\<close> is the loader's \<open>Match\<close>; and for a parsed template other than the root, written down in
  canonical form with ASCII literals, the checker finds the loader's placeholders and decides coverage by an ASCII
  pattern in canonical form as the loader does.
\<close>

theorem checker_agrees_with_loader:
  assumes "list_all printable (Template.segments t)" and "Template.segments t \<noteq> []" and "Canonicalise g = Inr g"
    and "ascii g" "ascii x" "ascii y"
  shows "GlobMatch (CHR ''/'' # x) (CHR ''/'' # y) = Match (CHR ''/'' # x) (CHR ''/'' # y) \<and>
    pathPlaceholders (printTemplate t) = Some (Placeholders t) \<and>
    templateCovered g (printTemplate t) = CoveredBy t g"
proof -
  obtain g' where g: "g = CHR ''/'' # g'" using assms(3) by (cases rule: canonical_cases) auto
  have bytes: "ascii g'" using assms(4) g by simp
  have "templateCovered g (printTemplate t) \<longleftrightarrow> CoveredBy t g"
    using assms(3)
  proof (cases rule: canonical_cases)
    case 1
    obtain s ss where ss: "Template.segments t = s # ss" using assms(2) by (cases "Template.segments t") auto
    have "literal s \<noteq> []" if "placeholder s = []"
      using assms(1) ss that segmentNormalises_not_Nil[of "literal s" "literal s"] by (auto simp: printable_def)
    then have "\<not> coveredSegment [] s" by (auto simp: matchSegment_glob)
    then show ?thesis
      using templateCovered_segments[OF assms(1,2) bytes] g 1(1) ss
      by (auto simp: CoveredBy_def assms(3)[unfolded 1(1)])
  next
    case (2 segs)
    have "Split CHR ''/'' g' = segs" using 2(5) g by (simp add: TrimPrefix_def HasPrefix_def)
    then show ?thesis
      using templateCovered_segments[OF assms(1,2) bytes] CoveredBy_segments[OF assms(3,2)] g 2(4) by simp
  qed
  moreover have "pathPlaceholders (printTemplate t) = Some (Placeholders t)"
    using placeholdersOf_print[OF assms(1)]
    by (simp add: pathPlaceholders_def Split_printTemplate[OF assms(1,2)] Placeholders_def ContainsAny_def)
  ultimately show ?thesis using GlobMatch_absolute[OF assms(5,6)] by simp
qed

definition exampleTemplate :: Template where
  "exampleTemplate = \<lparr>raw = ''/items/{id}'', segments = [\<lparr>literal = ''items'', placeholder = []\<rparr>, \<lparr>literal = [], placeholder = ''id''\<rparr>]\<rparr>"

theorem checker_agrees_with_loader_witness:
  "templateCovered ''/items/*'' ''/items/{id}'' = CoveredBy exampleTemplate ''/items/*''"
proof -
  have "list_all printable (Template.segments exampleTemplate)" "Canonicalise ''/items/*'' = Inr ''/items/*''"
    "printTemplate exampleTemplate = ''/items/{id}''" "ascii ''/items/*''"
    by code_simp+
  moreover have "Template.segments exampleTemplate \<noteq> []" by (simp add: exampleTemplate_def)
  ultimately show ?thesis using checker_agrees_with_loader[of exampleTemplate "''/items/*''" "[]" "[]"] by simp
qed

text \<open>
  Outside of that they differ.  The checker compares an escaped pattern as it is written, and a pattern that is
  not UTF-8 gives no regular expression, while the loader canonicalises the one and matches the bytes of the other.
\<close>

theorem checker_differs_from_loader:
  "(\<exists>t. ParseTemplate ''/a'' = Inr t \<and> CoveredBy t ''/%61'' \<and> \<not> templateCovered ''/%61'' ''/a'') \<and>
   Match [CHR ''/'', CHR ''*'', CHR 0xFF] [CHR ''/'', CHR ''a'', CHR 0xFF] \<and>
   \<not> GlobMatch [CHR ''/'', CHR ''*'', CHR 0xFF] [CHR ''/'', CHR ''a'', CHR 0xFF]"
proof -
  have "ParseTemplate ''/a'' = Inr \<lparr>raw = ''/a'', segments = [\<lparr>literal = ''a'', placeholder = []\<rparr>]\<rparr>"
    "CoveredBy \<lparr>raw = ''/a'', segments = [\<lparr>literal = ''a'', placeholder = []\<rparr>]\<rparr> ''/%61''"
    by code_simp+
  moreover have "\<not> templateCovered ''/%61'' ''/a''"
    by (simp add: templateCovered_def GlobMatch_def globSegment_def HasPrefix_def)
  moreover have "Match [CHR ''/'', CHR ''*'', CHR 0xFF] [CHR ''/'', CHR ''a'', CHR 0xFF]"
    by (simp add: Match_def matchSegment_glob TrimPrefix_def HasPrefix_def)
  moreover have "\<not> validUTF8 [CHR ''*'', CHR 0xFF]"
    by (simp add: validUTF8_def decodeRune_def encodeRune_def isScalarValue_def)
  then have "\<not> GlobMatch [CHR ''/'', CHR ''*'', CHR 0xFF] [CHR ''/'', CHR ''a'', CHR 0xFF]"
    by (simp add: GlobMatch_def globSegment_def)
  ultimately show ?thesis by blast
qed

end
