(* ===== verification/CrossChecks.thy ===== *)
theory CrossChecks
  imports Contracts Integrations Encodings
begin

text \<open>
  The cross-document checks of \<open>internal/contracts/semantic.go\<close>: manifests, lock and configuration against
  one another.  A document is a decoded YAML or JSON value; a map is an association list.  A problem is a
  constructor with the values its message prints, and the problems are listed in the order they are found
  (the source sorts the messages).

  Arguments of the model: \<open>mime\<close> (as in \<open>Capabilities\<close>), the parts of \<open>url.Parse\<close> and \<open>time.Parse\<close> that the
  checks look at, the printing of a float, and the canonical digest.
\<close>

section \<open>Documents\<close>

datatype doc = DNull | DBool bool | DNum rat | DStr string | DList "doc list" | DMap "(string \<times> doc) list"

fun asMap :: "doc \<Rightarrow> (string \<times> doc) list" where
  "asMap (DMap m) = m"
| "asMap _ = []"

fun asSlice :: "doc \<Rightarrow> doc list" where
  "asSlice (DList xs) = xs"
| "asSlice _ = []"

definition field :: "(string \<times> doc) list \<Rightarrow> string \<Rightarrow> doc" where
  "field m key = (case map_of m key of Some v \<Rightarrow> v | None \<Rightarrow> DNull)"

definition mapOf :: "(string \<times> doc) list \<Rightarrow> string \<Rightarrow> (string \<times> doc) list" where
  "mapOf m key = asMap (field m key)"

definition sliceOf :: "(string \<times> doc) list \<Rightarrow> string \<Rightarrow> doc list" where
  "sliceOf m key = asSlice (field m key)"

fun strings :: "doc list \<Rightarrow> string list" where
  "strings [] = []"
| "strings (DStr s # ds) = s # strings ds"
| "strings (_ # ds) = strings ds"

definition strOf :: "(string \<times> doc) list \<Rightarrow> string \<Rightarrow> string" where
  "strOf m key = (case field m key of DStr s \<Rightarrow> s | _ \<Rightarrow> [])"

fun toNumber :: "doc \<Rightarrow> rat option" where
  "toNumber (DNum q) = Some q"
| "toNumber _ = None"

definition numberOf :: "(string \<times> doc) list \<Rightarrow> string \<Rightarrow> rat option" where
  "numberOf m key = (case map_of m key of None \<Rightarrow> None | Some v \<Rightarrow> toNumber v)"

definition sortedKeys :: "(string \<times> 'a) list \<Rightarrow> string list" where
  "sortedKeys m = sort (map fst m)"

definition routeUse :: "(string \<times> doc) list \<Rightarrow> string" where
  "routeUse r = (if strOf r ''use'' \<noteq> [] then strOf r ''use'' else ''data'')"

text \<open>What the checks read of a parsed URL.\<close>

record parsedURL =
  puScheme :: string
  puHostname :: string
  puHost :: string
  puPort :: string
  puUser :: bool
  puRawQuery :: string
  puFragment :: string

record contractLib =
  clMime :: mimeLib
  clURL :: "string \<rightharpoonup> parsedURL"
  clTime :: "string \<rightharpoonup> instant"
  clFloat :: "rat \<Rightarrow> string"
  clDigest :: "(doc \<Rightarrow> string option) option"

record Documents =
  dcManifests :: "(string \<times> doc) list"
  dcLock :: "(string \<times> doc) list"
  dcConfig :: "(string \<times> doc) list"
  dcLimits :: "(string \<times> doc) list"

datatype issue =
    BadVersion string string
  | Duplicate string string string
  | LimitAboveMaximum string string
  | DuplicateRoute string string
  | UndeclaredSlot string string
  | WidensBody string
  | BadMediaType string string
  | NeedsHTTP string
  | NeedsAssets string
  | UndeclaredSignal string string
  | AssetWithoutRoute string string
  | PipelineSlot string string
  | PathExpression string
  | PathBrace string string
  | NotCovered string string string
  | Violates string string string
  | PlaceholderUndeclared string string
  | PlaceholderType string string
  | PlaceholderOptional string string
  | NoManifest string
  | RouteNotRequested string string
  | CapabilityNotRequested string string
  | RuntimeDiffers string
  | LimitAboveRequest string string
  | NoEffectiveLimits string
  | EffectiveIncomplete string "string list"
  | EffectiveUnknown string "string list"
  | EffectiveWrong string string
  | NotCanonicalisable string
  | DigestDiffers string
  | BadBaseURL string
  | BaseURLUserinfo string
  | BaseURLQuery string
  | UnknownIntegration string string
  | UndefinedConnection string string
  | UnknownSlot string string
  | WrongKind string string
  | UnboundSlot string string
  | UnknownOperation string string
  | DynamicReference string string
  | UnknownCard string string
  | CardWithoutManifest string string
  | SignalNotDeclared string string
  | UndefinedChannel string string
  | BadTimestamp string string
  | BadURL string string

section \<open>Shared checks\<close>

definition validPort :: "parsedURL \<Rightarrow> bool" where
  "validPort u \<longleftrightarrow> puPort u = [] \<or>
     (case ParseUint 63 (puPort u) of None \<Rightarrow> False | Some n \<Rightarrow> 1 \<le> n \<and> n \<le> 65535)"

definition usableURL :: "contractLib \<Rightarrow> string \<Rightarrow> parsedURL option" where
  "usableURL lib rw =
     (case clURL lib rw of
        None \<Rightarrow> None
      | Some u \<Rightarrow>
          if (puScheme u \<noteq> ''http'' \<and> puScheme u \<noteq> ''https'') \<or> puHostname u = [] \<or> \<not> validPort u then None else Some u)"

definition timeKeys :: "string list" where
  "timeKeys = [''generatedAt'', ''expiresAt'', ''staleSince'', ''nextRunAt'', ''circuitOpenUntil'', ''approvedAt'',
     ''since'', ''timestamp'', ''at'']"

definition urlKeys :: "string list" where
  "urlKeys = [''url'', ''link'', ''homepage'']"

text \<open>\<open>scanValues\<close>: every string below a key that names a time or a URL.\<close>

definition scanString :: "contractLib \<Rightarrow> string \<Rightarrow> string \<Rightarrow> issue list" where
  "scanString lib key t =
     (if key \<in> set timeKeys \<and> clTime lib t = None then [BadTimestamp key t] else []) @
     (if key \<in> set urlKeys \<and> usableURL lib t = None then [BadURL key t] else [])"

fun scanValues :: "contractLib \<Rightarrow> string \<Rightarrow> doc \<Rightarrow> issue list" where
  "scanValues lib key (DMap m) = concat (map (\<lambda>(k, v). scanValues lib k v) m)"
| "scanValues lib key (DList xs) = concat (map (scanValues lib key) xs)"
| "scanValues lib key (DStr t) = scanString lib key t"
| "scanValues lib key _ = []"

fun assetNodes :: "doc \<Rightarrow> (string \<times> doc) list list" where
  "assetNodes (DMap m) =
     (case map_of m ''asset'' of Some (DMap a) \<Rightarrow> [a] | _ \<Rightarrow> []) @ concat (map (\<lambda>(k, v). assetNodes v) m)"
| "assetNodes (DList xs) = concat (map assetNodes xs)"
| "assetNodes _ = []"

fun duplicatesIn :: "string \<Rightarrow> string \<Rightarrow> string list \<Rightarrow> string list \<Rightarrow> issue list" where
  "duplicatesIn scope what [] seen = []"
| "duplicatesIn scope what (v # vs) seen =
     (if v = [] then duplicatesIn scope what vs seen
      else (if v \<in> set seen then [Duplicate scope what v] else []) @ duplicatesIn scope what vs (v # seen))"

definition checkDuplicates :: "string \<Rightarrow> string \<Rightarrow> doc list \<Rightarrow> string \<Rightarrow> issue list" where
  "checkDuplicates scope what items key = duplicatesIn scope what (map (\<lambda>d. strOf (asMap d) key) items) []"

text \<open>The defaults and maxima that \<open>Issues\<close> reads from the limits schema.\<close>

definition limitNumbers :: "string \<Rightarrow> Documents \<Rightarrow> (string \<times> rat) list" where
  "limitNumbers what d =
     List.map_filter (\<lambda>(name, rw). map_option (Pair name) (numberOf (asMap rw) what)) (mapOf (dcLimits d) ''properties'')"

definition bodyCeiling :: "Documents \<Rightarrow> (string \<times> doc) list \<Rightarrow> rat" where
  "bodyCeiling d spec =
     (case numberOf (mapOf spec ''limits'') ''requestBodyKB'' of
        Some v \<Rightarrow> v
      | None \<Rightarrow> (case map_of (limitNumbers ''default'' d) ''requestBodyKB'' of Some v \<Rightarrow> v | None \<Rightarrow> 64))"

fun dedupe :: "string list \<Rightarrow> string list" where
  "dedupe [] = []"
| "dedupe [x] = [x]"
| "dedupe (x # y # xs) = (if x = y then dedupe (y # xs) else x # dedupe (y # xs))"

definition routeIdentity :: "contractLib \<Rightarrow> (string \<times> doc) list \<Rightarrow> rat \<Rightarrow> string" where
  "routeIdentity lib r bodyKB =
     (let qk = (case map_of r ''queryKeys'' of
                  None \<Rightarrow> ''nil''
                | Some rw \<Rightarrow> ''['' @ Join '','' (dedupe (sort (strings (asSlice rw)))) @ '']'');
          ct = (if strOf r ''contentType'' = [] then ''nil''
                else case normaliseMediaType (clMime lib) (strOf r ''contentType'') of
                       None \<Rightarrow> ''<invalid>'' @ strOf r ''contentType''
                     | Some n \<Rightarrow> n);
          body = (case numberOf r ''maxBodyKB'' of Some v \<Rightarrow> v | None \<Rightarrow> bodyKB)
      in ''('' @ strOf r ''slot'' @ '' '' @ strOf r ''method'' @ '' '' @ strOf r ''path'' @ '' use='' @ routeUse r @
         '' query='' @ qk @ '' ct='' @ ct @ '' body='' @ clFloat lib body @ ''KB)'')"

section \<open>Manifests\<close>

definition checkPlaceholderParam :: "string \<Rightarrow> string \<Rightarrow> (string \<times> doc) list \<Rightarrow> issue list" where
  "checkPlaceholderParam oid name params =
     (case map_of (mapOf params ''properties'') name of
        None \<Rightarrow> [PlaceholderUndeclared oid name]
      | Some rw \<Rightarrow>
          let prop = asMap rw in
          (if strOf prop ''type'' \<noteq> ''string'' \<and> strOf prop ''type'' \<noteq> ''integer'' then [PlaceholderType oid name] else []) @
          (if map_of prop ''default'' \<noteq> None \<or> DStr name \<in> set (sliceOf params ''required'') then []
           else [PlaceholderOptional oid name]))"

text \<open>One candidate route of a pipeline request: satisfied, violated, or with an unusable media type.\<close>

datatype candidate = Satisfied | Violated | Unusable string

definition isFormType :: "string \<Rightarrow> bool" where
  "isFormType base \<longleftrightarrow> base = ''application/x-www-form-urlencoded''"

definition isJSONType :: "string \<Rightarrow> bool" where
  "isJSONType base \<longleftrightarrow> base = ''application/json'' \<or> HasSuffix base ''+json''"

definition tryCandidate ::
    "contractLib \<Rightarrow> string list \<Rightarrow> string \<Rightarrow> (string \<times> doc) list \<Rightarrow> candidate" where
  "tryCandidate lib sent bodyKind r =
     (if (case map_of r ''queryKeys'' of
            None \<Rightarrow> False
          | Some keys \<Rightarrow> list_ex (\<lambda>k. k \<notin> set (strings (asSlice keys))) sent)
      then Violated
      else if bodyKind = [] then Satisfied
      else if strOf r ''contentType'' = [] then Violated
      else case normaliseMediaType (clMime lib) (strOf r ''contentType'') of
             None \<Rightarrow> Unusable (strOf r ''contentType'')
           | Some n \<Rightarrow>
               let base = fst (cutOrAll CHR '';'' n) in
               if (bodyKind = ''json'' \<and> \<not> isJSONType base) \<or> (bodyKind = ''form'' \<and> \<not> isFormType base)
               then Violated else Satisfied)"

fun tryCandidates ::
    "contractLib \<Rightarrow> string \<Rightarrow> string \<Rightarrow> string \<Rightarrow> string list \<Rightarrow> string \<Rightarrow> (string \<times> doc) list list \<Rightarrow> issue list" where
  "tryCandidates lib oid method path sent bodyKind [] = [Violates oid method path]"
| "tryCandidates lib oid method path sent bodyKind (r # rs) =
     (case tryCandidate lib sent bodyKind r of
        Satisfied \<Rightarrow> []
      | Violated \<Rightarrow> tryCandidates lib oid method path sent bodyKind rs
      | Unusable ct \<Rightarrow> BadMediaType oid ct # tryCandidates lib oid method path sent bodyKind rs)"

definition bodyKindOf :: "(string \<times> doc) list \<Rightarrow> string" where
  "bodyKindOf body =
     (if map_of body ''json'' \<noteq> None then ''json'' else if map_of body ''form'' \<noteq> None then ''form'' else [])"

definition candidatesFor ::
    "(string \<times> doc) list list \<Rightarrow> string \<Rightarrow> string \<Rightarrow> string \<Rightarrow> (string \<times> doc) list list" where
  "candidatesFor routes slot method path =
     filter (\<lambda>r. strOf r ''slot'' = slot \<and> strOf r ''method'' = method \<and> routeUse r = ''data'' \<and>
       templateCovered (strOf r ''path'') path) routes"

definition checkPipelineStep ::
    "contractLib \<Rightarrow> string \<Rightarrow> (string \<times> doc) list \<Rightarrow> (string \<times> doc) list \<Rightarrow> string list \<Rightarrow> (string \<times> doc) list list \<Rightarrow>
     issue list" where
  "checkPipelineStep lib oid step params slots routes =
     (let req = mapOf step ''request''; slot = strOf req ''slot'' in
      if slot \<notin> set slots then [PipelineSlot oid slot]
      else case field req ''path'' of
             DStr path \<Rightarrow>
               (case pathPlaceholders path of
                  None \<Rightarrow> [PathBrace oid path]
                | Some names \<Rightarrow>
                    concat (map (\<lambda>name. checkPlaceholderParam oid name params) names) @
                    (let method = (case field req ''method'' of DStr m \<Rightarrow> m | _ \<Rightarrow> ''GET'');
                         candidates = candidatesFor routes slot method path in
                     if candidates = [] then [NotCovered oid method path]
                     else tryCandidates lib oid method path (sortedKeys (mapOf req ''query''))
                            (bodyKindOf (mapOf req ''body'')) candidates))
           | _ \<Rightarrow> [PathExpression oid])"

fun checkRouteList ::
    "contractLib \<Rightarrow> string \<Rightarrow> rat \<Rightarrow> string list \<Rightarrow> string list \<Rightarrow> (string \<times> doc) list list \<Rightarrow> issue list" where
  "checkRouteList lib oid bodyKB slots seen [] = []"
| "checkRouteList lib oid bodyKB slots seen (r # rs) =
     (let i = routeIdentity lib r bodyKB in
      (if i \<in> set seen then [DuplicateRoute oid i] else []) @
      (if strOf r ''slot'' \<notin> set slots then [UndeclaredSlot oid (strOf r ''slot'')] else []) @
      (case numberOf r ''maxBodyKB'' of None \<Rightarrow> [] | Some v \<Rightarrow> if v > bodyKB then [WidensBody oid] else []) @
      (if strOf r ''contentType'' \<noteq> [] \<and> normaliseMediaType (clMime lib) (strOf r ''contentType'') = None
       then [BadMediaType oid (strOf r ''contentType'')] else []) @
      checkRouteList lib oid bodyKB slots (i # seen) rs)"

definition checkOperation ::
    "contractLib \<Rightarrow> string \<Rightarrow> string list \<Rightarrow> string list \<Rightarrow> rat \<Rightarrow> (string \<times> doc) list \<Rightarrow> issue list" where
  "checkOperation lib iid slots caps bodyKB op =
     (let oid = iid @ ''/'' @ strOf op ''id'';
          routes = map asMap (sliceOf op ''routes'');
          declared = map (\<lambda>s. strOf (asMap s) ''name'') (sliceOf op ''signals'') in
      checkDuplicates oid ''signal declaration'' (sliceOf op ''signals'') ''name'' @
      checkRouteList lib oid bodyKB slots [] routes @
      (if list_ex (\<lambda>r. routeUse r \<noteq> ''asset'') routes \<and> ''http'' \<notin> set caps then [NeedsHTTP oid] else []) @
      (if list_ex (\<lambda>r. routeUse r = ''asset'') routes \<and> ''assets'' \<notin> set caps then [NeedsAssets oid] else []) @
      concat (map (\<lambda>step. checkPipelineStep lib oid (asMap step) (mapOf op ''params'') slots routes) (sliceOf op ''pipeline'')) @
      map (UndeclaredSignal oid)
        (filter (\<lambda>name. name \<notin> set declared) (sortedKeys (mapOf (mapOf op ''output'') ''signals''))) @
      map (\<lambda>node. AssetWithoutRoute oid (strOf node ''slot''))
        (filter (\<lambda>node. \<not> list_ex (\<lambda>r. strOf r ''slot'' = strOf node ''slot'' \<and> routeUse r = ''asset'') routes)
           (assetNodes (field op ''output''))))"

definition slotNames :: "(string \<times> doc) list \<Rightarrow> string list" where
  "slotNames spec = map (\<lambda>s. strOf (asMap s) ''name'') (sliceOf spec ''slots'')"

definition checkManifest :: "contractLib \<Rightarrow> Documents \<Rightarrow> string \<Rightarrow> doc \<Rightarrow> issue list" where
  "checkManifest lib d iid manifest =
     (let man = asMap manifest; spec = mapOf man ''spec''; version = strOf (mapOf man ''metadata'') ''version'' in
      scanValues lib [] manifest @
      (if \<not> ValidSemver version then [BadVersion iid version] else []) @
      checkDuplicates iid ''slot name'' (sliceOf spec ''slots'') ''name'' @
      checkDuplicates iid ''operation id'' (sliceOf spec ''operations'') ''id'' @
      concat (map (\<lambda>(name, v).
          case (toNumber v, map_of (limitNumbers ''maximum'' d) name) of
            (Some n, Some mx) \<Rightarrow> if n > mx then [LimitAboveMaximum iid name] else []
          | _ \<Rightarrow> []) (mapOf spec ''limits'')) @
      concat (map (\<lambda>op. checkOperation lib iid (slotNames spec) (strings (sliceOf spec ''capabilities''))
          (bodyCeiling d spec) (asMap op)) (sliceOf spec ''operations'')))"

definition checkManifests :: "contractLib \<Rightarrow> Documents \<Rightarrow> issue list" where
  "checkManifests lib d =
     concat (map (\<lambda>iid. checkManifest lib d iid (field (dcManifests d) iid)) (sortedKeys (dcManifests d)))"

section \<open>The lock\<close>

definition orElse :: "rat option \<Rightarrow> rat option \<Rightarrow> rat" where
  "orElse a b = (case a of Some v \<Rightarrow> v | None \<Rightarrow> (case b of Some v \<Rightarrow> v | None \<Rightarrow> 0))"

definition effectiveLimit :: "Documents \<Rightarrow> string \<Rightarrow> (string \<times> doc) list \<Rightarrow> (string \<times> doc) list \<Rightarrow> rat" where
  "effectiveLimit d k manLimits approved =
     (let dflt = map_of (limitNumbers ''default'' d) k;
          want = min (orElse (numberOf manLimits k) dflt) (orElse (numberOf approved k) dflt)
      in case map_of (limitNumbers ''maximum'' d) k of Some mx \<Rightarrow> min want mx | None \<Rightarrow> want)"

definition checkEffective ::
    "Documents \<Rightarrow> string \<Rightarrow> (string \<times> doc) list \<Rightarrow> (string \<times> doc) list \<Rightarrow> (string \<times> doc) list \<Rightarrow> issue list" where
  "checkEffective d iid entry manLimits approved =
     (case field entry ''effectiveLimits'' of
        DNull \<Rightarrow> [NoEffectiveLimits iid]
      | eff \<Rightarrow>
          let effMap = asMap eff; defaults = limitNumbers ''default'' d;
              missing = filter (\<lambda>k. map_of effMap k = None) (sortedKeys defaults);
              unknown = filter (\<lambda>k. map_of defaults k = None) (sortedKeys effMap) in
          (if missing = [] then [] else [EffectiveIncomplete iid missing]) @
          (if unknown = [] then [] else [EffectiveUnknown iid unknown]) @
          concat (map (\<lambda>k. case numberOf effMap k of
                            None \<Rightarrow> []
                          | Some v \<Rightarrow> if v \<noteq> effectiveLimit d k manLimits approved then [EffectiveWrong iid k] else [])
             (sortedKeys effMap)))"

definition requestedRoutes :: "contractLib \<Rightarrow> Documents \<Rightarrow> (string \<times> doc) list \<Rightarrow> string list" where
  "requestedRoutes lib d spec =
     concat (map (\<lambda>op. map (\<lambda>r. routeIdentity lib (asMap r) (bodyCeiling d spec)) (sliceOf (asMap op) ''routes''))
       (sliceOf spec ''operations''))"

definition checkDigest :: "contractLib \<Rightarrow> string \<Rightarrow> doc \<Rightarrow> (string \<times> doc) list \<Rightarrow> issue list" where
  "checkDigest lib iid manifest entry =
     (case clDigest lib of
        None \<Rightarrow> []
      | Some digest \<Rightarrow>
          (case digest (DMap (asMap manifest)) of
             None \<Rightarrow> [NotCanonicalisable iid]
           | Some computed \<Rightarrow> if strOf entry ''manifestSha256'' \<noteq> computed then [DigestDiffers iid] else []))"

definition checkLockEntry :: "contractLib \<Rightarrow> Documents \<Rightarrow> string \<Rightarrow> (string \<times> doc) list \<Rightarrow> issue list" where
  "checkLockEntry lib d iid entry =
     (case map_of (dcManifests d) iid of
        None \<Rightarrow> [NoManifest iid]
      | Some manifest \<Rightarrow>
          let spec = mapOf (asMap manifest) ''spec'';
              approved = mapOf entry ''limits''; manLimits = mapOf spec ''limits'' in
          concat (map (\<lambda>r. let i = routeIdentity lib (asMap r) (bodyCeiling d spec) in
              if i \<notin> set (requestedRoutes lib d spec) then [RouteNotRequested iid i] else []) (sliceOf entry ''routes'')) @
          map (CapabilityNotRequested iid)
            (filter (\<lambda>c. c \<notin> set (strings (sliceOf spec ''capabilities''))) (strings (sliceOf entry ''capabilities''))) @
          (if strOf entry ''runtime'' \<noteq> [] \<and> strOf entry ''runtime'' \<noteq> strOf spec ''runtime'' then [RuntimeDiffers iid] else []) @
          concat (map (\<lambda>k. case numberOf approved k of
              None \<Rightarrow> []
            | Some v \<Rightarrow> if v > orElse (numberOf manLimits k) (map_of (limitNumbers ''default'' d) k)
                then [LimitAboveRequest iid k] else []) (sortedKeys approved)) @
          checkEffective d iid entry manLimits approved @
          checkDigest lib iid manifest entry)"

definition checkLock :: "contractLib \<Rightarrow> Documents \<Rightarrow> issue list" where
  "checkLock lib d =
     (let entries = mapOf (dcLock d) ''integrations'' in
      scanValues lib [] (DMap (dcLock d)) @
      concat (map (\<lambda>iid. checkLockEntry lib d iid (mapOf entries iid)) (sortedKeys entries)))"

section \<open>The configuration\<close>

definition checkConnection :: "contractLib \<Rightarrow> string \<Rightarrow> (string \<times> doc) list \<Rightarrow> issue list" where
  "checkConnection lib cid conn =
     (if strOf conn ''kind'' \<noteq> ''http'' then []
      else case usableURL lib (strOf conn ''baseUrl'') of
             None \<Rightarrow> [BadBaseURL cid]
           | Some u \<Rightarrow>
               (if puUser u \<or> CHR ''@'' \<in> set (puHost u) then [BaseURLUserinfo cid] else []) @
               (if puRawQuery u \<noteq> [] \<or> puFragment u \<noteq> [] then [BaseURLQuery cid] else []))"

text \<open>The checks of one card against the connections and the manifest of its integration.\<close>

definition checkCardManifest :: "string \<Rightarrow> (string \<times> doc) list \<Rightarrow> (string \<times> doc) list \<Rightarrow> (string \<times> doc) list \<Rightarrow> issue list" where
  "checkCardManifest cid cd conns spec =
     (let bindings = mapOf cd ''slots'';
          slots = rev (map (\<lambda>s. (strOf (asMap s) ''name'', asMap s)) (sliceOf spec ''slots'')) in
      concat (map (\<lambda>slot. case map_of slots slot of
          None \<Rightarrow> [UnknownSlot cid slot]
        | Some sm \<Rightarrow>
            (case map_of conns (strOf bindings slot) of
               None \<Rightarrow> []
             | Some cm \<Rightarrow> if strOf (asMap cm) ''kind'' \<noteq> strOf sm ''kind'' then [WrongKind cid slot] else []))
        (sortedKeys bindings)) @
      concat (map (\<lambda>name.
          let required = (case field (the (map_of slots name)) ''required'' of DBool b \<Rightarrow> b | _ \<Rightarrow> True) in
          if required \<and> map_of bindings name = None then [UnboundSlot cid name] else [])
        (sort (remdups (map fst slots)))) @
      (if strOf cd ''operation'' \<in> set (map (\<lambda>op. strOf (asMap op) ''id'') (sliceOf spec ''operations'')) then []
       else [UnknownOperation cid (strOf cd ''operation'')]))"

definition checkCard ::
    "Documents \<Rightarrow> (string \<times> doc) list \<Rightarrow> string list \<Rightarrow> string \<Rightarrow> (string \<times> doc) list \<Rightarrow> issue list" where
  "checkCard d conns declared cid cd =
     (let integration = strOf cd ''integration''; bindings = mapOf cd ''slots'' in
      (if integration \<noteq> [] \<and> integration \<notin> set declared then [UnknownIntegration cid integration] else []) @
      concat (map (\<lambda>slot. if map_of conns (strOf bindings slot) = None then [UndefinedConnection cid slot] else [])
        (sortedKeys bindings)) @
      (case map_of (dcManifests d) integration of
         None \<Rightarrow> []
       | Some manifest \<Rightarrow> checkCardManifest cid cd conns (mapOf (asMap manifest) ''spec'')))"

subsection \<open>Rules\<close>

text \<open>The regular expressions on a text: white space, then one literal, or a quoted argument.\<close>

definition spaceByte :: "char \<Rightarrow> bool" where
  "spaceByte c \<longleftrightarrow> c \<in> {CHR 0x09, CHR 0x0A, CHR 0x0C, CHR 0x0D, CHR 0x20}"

definition expect :: "char \<Rightarrow> string \<Rightarrow> string option" where
  "expect c s = (case dropWhile spaceByte s of [] \<Rightarrow> None | d # rest \<Rightarrow> if d = c then Some rest else None)"

definition quotedArg :: "string \<Rightarrow> (string \<times> string) option" where
  "quotedArg s =
     (case expect CHR 0x22 s of
        None \<Rightarrow> None
      | Some rest \<Rightarrow>
          let arg = takeWhile (\<lambda>c. c \<noteq> CHR 0x22 \<and> c \<noteq> CHR 0x5C) rest;
              after = dropWhile (\<lambda>c. c \<noteq> CHR 0x22 \<and> c \<noteq> CHR 0x5C) rest in
          if arg = [] \<or> after = [] \<or> hd after \<noteq> CHR 0x22 then None else Some (arg, tl after))"

definition strictState :: "string \<Rightarrow> string option" where
  "strictState frag =
     (if \<not> HasPrefix frag ''state('' then None
      else case quotedArg (drop 6 frag) of
             None \<Rightarrow> None
           | Some (cd, rest) \<Rightarrow> if expect CHR '')'' rest = None then None else Some cd)"

definition strictSignal :: "string \<Rightarrow> (string \<times> string) option" where
  "strictSignal frag =
     (if \<not> HasPrefix frag ''signal('' then None
      else case quotedArg (drop 7 frag) of
             None \<Rightarrow> None
           | Some (cd, rest) \<Rightarrow>
               (case expect CHR '','' rest of
                  None \<Rightarrow> None
                | Some rest \<Rightarrow>
                    (case quotedArg rest of
                       None \<Rightarrow> None
                     | Some (name, rest) \<Rightarrow> if expect CHR '')'' rest = None then None else Some (cd, name))))"

text \<open>
  \<open>callStart.FindAllStringIndex\<close>: the positions in a segment where a call of \<open>signal\<close> or \<open>state\<close> starts at a
  word boundary.  Two matches cannot overlap: a match ends with its parenthesis.
\<close>

definition callHere :: "string \<Rightarrow> bool" where
  "callHere s \<longleftrightarrow>
     (HasPrefix s ''signal'' \<and> expect CHR ''('' (drop 6 s) \<noteq> None) \<or> (HasPrefix s ''state'' \<and> expect CHR ''('' (drop 5 s) \<noteq> None)"

fun callStarts :: "bool \<Rightarrow> nat \<Rightarrow> string \<Rightarrow> nat list" where
  "callStarts word i [] = []"
| "callStarts word i (c # s) =
     (if \<not> word \<and> callHere (c # s) then [i] else []) @ callStarts (isWordByte c) (Suc i) s"

definition operationSignals :: "(string \<times> doc) list \<Rightarrow> string \<Rightarrow> string list" where
  "operationSignals spec operation =
     concat (map (\<lambda>op. map (\<lambda>s. strOf (asMap s) ''name'') (sliceOf (asMap op) ''signals''))
       (filter (\<lambda>op. strOf (asMap op) ''id'' = operation) (sliceOf spec ''operations'')))"

definition checkReference :: "Documents \<Rightarrow> (string \<times> (string \<times> doc) list) list \<Rightarrow> string \<Rightarrow> string \<Rightarrow> issue list" where
  "checkReference d cards rule frag =
     (let sm = strictSignal frag; tm = strictState frag in
      if sm = None \<and> tm = None then [DynamicReference rule frag]
      else let cardID = (case sm of Some (cd, _) \<Rightarrow> cd | None \<Rightarrow> the tm) in
           case map_of cards cardID of
             None \<Rightarrow> [UnknownCard rule cardID]
           | Some cd \<Rightarrow>
               (case sm of
                  None \<Rightarrow> []
                | Some (_, signal) \<Rightarrow>
                    (case map_of (dcManifests d) (strOf cd ''integration'') of
                       None \<Rightarrow> [CardWithoutManifest rule cardID]
                     | Some manifest \<Rightarrow>
                         if signal \<in> set (operationSignals (mapOf (asMap manifest) ''spec'') (strOf cd ''operation''))
                         then [] else [SignalNotDeclared rule signal])))"

definition checkRule ::
    "Documents \<Rightarrow> (string \<times> (string \<times> doc) list) list \<Rightarrow> (string \<times> doc) list \<Rightarrow> (string \<times> doc) list \<Rightarrow> issue list" where
  "checkRule d cards channels rule =
     (let expr = strOf rule ''when'' in
      concat (map (\<lambda>(a, b). concat (map (\<lambda>k. checkReference d cards (strOf rule ''id'') (drop (a + k) expr))
          (callStarts False 0 (take (b - a) (drop a expr))))) (CodeSpans expr)) @
      map (UndefinedChannel (strOf rule ''id''))
        (filter (\<lambda>ch. map_of channels ch = None) (strings (sliceOf rule ''notify''))))"

definition cardList :: "Documents \<Rightarrow> doc list" where
  "cardList d = concat (map (\<lambda>sec. sliceOf (asMap sec) ''cards'') (sliceOf (dcConfig d) ''sections''))"

definition cardsOf :: "Documents \<Rightarrow> (string \<times> (string \<times> doc) list) list" where
  "cardsOf d = rev (map (\<lambda>c. (strOf (asMap c) ''id'', asMap c)) (cardList d))"

definition checkConfig :: "contractLib \<Rightarrow> Documents \<Rightarrow> issue list" where
  "checkConfig lib d =
     (let conns = mapOf (dcConfig d) ''connections'';
          integrations = sliceOf (dcConfig d) ''integrations'';
          declared = map (\<lambda>i. strOf (asMap i) ''id'') integrations;
          channels = mapOf (mapOf (dcConfig d) ''notifications'') ''channels'' in
      scanValues lib [] (DMap (dcConfig d)) @
      concat (map (\<lambda>cid. checkConnection lib cid (mapOf conns cid)) (sortedKeys conns)) @
      checkDuplicates ''config'' ''integration id'' integrations ''id'' @
      checkDuplicates ''config'' ''card id'' (cardList d) ''id'' @
      checkDuplicates ''config'' ''rule id'' (sliceOf (dcConfig d) ''rules'') ''id'' @
      concat (map (\<lambda>cid. checkCard d conns declared cid (the (map_of (cardsOf d) cid)))
        (sort (remdups (map fst (cardsOf d))))) @
      concat (map (\<lambda>rule. checkRule d (cardsOf d) channels (asMap rule)) (sliceOf (dcConfig d) ''rules'')))"

definition Issues :: "contractLib \<Rightarrow> Documents \<Rightarrow> issue list" where
  "Issues lib d = checkManifests lib d @ checkLock lib d @ checkConfig lib d"

text \<open>\<open>CardStateIssues\<close>; a problem is told by its number.\<close>

definition CardStateIssues :: "(string \<rightharpoonup> instant) \<Rightarrow> (string \<times> doc) list \<Rightarrow> nat list" where
  "CardStateIssues parse state =
     (let ex = mapOf state ''execution''; openUntil = strOf ex ''circuitOpenUntil''; nextRun = strOf ex ''nextRunAt'' in
      if openUntil = [] then []
      else if nextRun = [] then [0]
      else case (parse openUntil, parse nextRun) of
             (Some a, Some b) \<Rightarrow> if b < a then [1] else []
           | _ \<Rightarrow> [])"

section \<open>Lemmas\<close>

lemma map_of_sortedKeys: "map_of m k = Some v \<Longrightarrow> k \<in> set (sortedKeys m)"
  by (force simp: sortedKeys_def dest: map_of_SomeD)

lemma clean_lock_entry:
  assumes "checkLock lib d = []" "map_of (mapOf (dcLock d) ''integrations'') iid = Some e"
  shows "checkLockEntry lib d iid (asMap e) = []"
proof -
  define entries where "entries = mapOf (dcLock d) ''integrations''"
  have "\<forall>k\<in>set (sortedKeys entries). checkLockEntry lib d k (mapOf entries k) = []"
    using assms(1) by (simp add: checkLock_def Let_def entries_def)
  then have "checkLockEntry lib d iid (mapOf entries iid) = []"
    using map_of_sortedKeys[of entries iid e] assms(2) by (simp add: entries_def)
  moreover have "mapOf entries iid = asMap e"
    using assms(2) unfolding entries_def[symmetric] by (simp add: mapOf_def field_def)
  ultimately show ?thesis by simp
qed

lemma clean_effective:
  assumes "checkEffective d iid entry manLimits approved = []"
  shows "field entry ''effectiveLimits'' \<noteq> DNull"
    and "map_of (limitNumbers ''default'' d) k = Some q \<Longrightarrow> map_of (mapOf entry ''effectiveLimits'') k \<noteq> None"
    and "numberOf (mapOf entry ''effectiveLimits'') k = Some v \<Longrightarrow> v = effectiveLimit d k manLimits approved"
proof -
  define eff where "eff = mapOf entry ''effectiveLimits''"
  show nn: "field entry ''effectiveLimits'' \<noteq> DNull" using assms by (auto simp: checkEffective_def)
  define missing where "missing = filter (\<lambda>k. map_of eff k = None) (sortedKeys (limitNumbers ''default'' d))"
  define wrong where "wrong = concat (map (\<lambda>k. case numberOf eff k of None \<Rightarrow> []
       | Some v \<Rightarrow> if v \<noteq> effectiveLimit d k manLimits approved then [EffectiveWrong iid k] else []) (sortedKeys eff))"
  have "\<exists>us. checkEffective d iid entry manLimits approved =
      (if missing = [] then [] else [EffectiveIncomplete iid missing]) @ us @ wrong"
    using nn unfolding checkEffective_def missing_def wrong_def eff_def mapOf_def Let_def
    by (cases "field entry ''effectiveLimits''") (simp_all only: doc.simps append_assoc[symmetric], blast+)
  then have mw: "missing = []" "wrong = []" using assms by (auto split: if_splits)
  have all: "filter (\<lambda>k. map_of eff k = None) (sortedKeys (limitNumbers ''default'' d)) = []"
    "\<forall>k\<in>set (sortedKeys eff). (case numberOf eff k of None \<Rightarrow> []
       | Some v \<Rightarrow> if v \<noteq> effectiveLimit d k manLimits approved then [EffectiveWrong iid k] else []) = []"
    using mw by (simp_all add: missing_def wrong_def)
  show "map_of (mapOf entry ''effectiveLimits'') k \<noteq> None" if "map_of (limitNumbers ''default'' d) k = Some q"
    using all(1) map_of_sortedKeys[OF that] by (simp add: filter_empty_conv eff_def)
  show "v = effectiveLimit d k manLimits approved" if n: "numberOf (mapOf entry ''effectiveLimits'') k = Some v"
  proof -
    have "k \<in> set (sortedKeys eff)"
      using n map_of_sortedKeys[of eff k] by (auto simp: numberOf_def eff_def split: option.splits)
    then show ?thesis using all(2) n by (auto simp: eff_def split: if_splits)
  qed
qed

lemma effectiveLimit_bounds:
  "effectiveLimit d k manLimits approved \<le> orElse (numberOf manLimits k) (map_of (limitNumbers ''default'' d) k)"
  "effectiveLimit d k manLimits approved \<le> orElse (numberOf approved k) (map_of (limitNumbers ''default'' d) k)"
  "map_of (limitNumbers ''maximum'' d) k = Some mx \<Longrightarrow> effectiveLimit d k manLimits approved \<le> mx"
  by (auto simp: effectiveLimit_def Let_def split: option.splits)

lemma tryCandidates_clean:
  "tryCandidates lib oid mth path sent bodyKind rs = [] \<Longrightarrow>
   \<exists>r\<in>set rs. tryCandidate lib sent bodyKind r = Satisfied"
  by (induction lib oid mth path sent bodyKind rs rule: tryCandidates.induct) (auto split: candidate.splits)

lemma tryCandidate_keys:
  assumes "tryCandidate lib sent bodyKind r = Satisfied" "map_of r ''queryKeys'' = Some keys"
  shows "set sent \<subseteq> set (strings (asSlice keys))"
  using assms by (auto simp: tryCandidate_def list_ex_iff split: if_splits)

lemma clean_operation:
  assumes "checkManifests lib d = []" "map_of (dcManifests d) iid = Some manifest"
    and "op \<in> set (sliceOf (mapOf (asMap manifest) ''spec'') ''operations'')"
  shows "checkOperation lib iid (slotNames (mapOf (asMap manifest) ''spec''))
    (strings (sliceOf (mapOf (asMap manifest) ''spec'') ''capabilities'')) (bodyCeiling d (mapOf (asMap manifest) ''spec''))
    (asMap op) = []"
proof -
  have "checkManifest lib d iid (field (dcManifests d) iid) = []"
    using assms(1,2) map_of_sortedKeys[OF assms(2)] by (auto simp: checkManifests_def)
  then have "checkManifest lib d iid manifest = []" using assms(2) by (simp add: field_def)
  then show ?thesis using assms(3) by (auto simp: checkManifest_def Let_def)
qed

definition clean_lib :: contractLib where
  "clean_lib = \<lparr>clMime = \<lparr>ParseMediaType = (\<lambda>s. Some (s, [])), FormatMediaType = (\<lambda>mt ps. mt)\<rparr>, clURL = (\<lambda>_. None), clTime = (\<lambda>_. None), clFloat = (\<lambda>_. ''64''), clDigest = None\<rparr>"

definition clean_documents :: Documents where
  "clean_documents = \<lparr>
     dcManifests = [(''jf'', DMap [
       (''metadata'', DMap [(''version'', DStr ''1.2.0'')]),
       (''spec'', DMap [
         (''runtime'', DStr ''declarative''), (''capabilities'', DList [DStr ''http'']),
         (''slots'', DList [DMap [(''name'', DStr ''main''), (''kind'', DStr ''http'')]]),
         (''limits'', DMap [(''requests'', DNum 5)]),
         (''operations'', DList [DMap [
           (''id'', DStr ''list''),
           (''routes'', DList [DMap [(''slot'', DStr ''main''), (''method'', DStr ''GET''), (''path'', DStr ''/items/*''),
              (''queryKeys'', DList [DStr ''limit''])]]),
           (''params'', DMap [(''properties'', DMap [(''kind'', DMap [(''type'', DStr ''string'')])]), (''required'', DList [DStr ''kind''])]),
           (''pipeline'', DList [DMap [(''request'', DMap [(''slot'', DStr ''main''), (''path'', DStr ''/items/{kind}''),
              (''query'', DMap [(''limit'', DStr ''10'')])])]])]])])])],
     dcLock = [(''integrations'', DMap [(''jf'', DMap [
       (''capabilities'', DList [DStr ''http'']),
       (''routes'', DList [DMap [(''slot'', DStr ''main''), (''method'', DStr ''GET''), (''path'', DStr ''/items/*''),
          (''queryKeys'', DList [DStr ''limit''])]]),
       (''limits'', DMap [(''requests'', DNum 3)]),
       (''effectiveLimits'', DMap [(''requests'', DNum 3)])])])],
     dcConfig = [],
     dcLimits = [(''properties'', DMap [(''requests'', DMap [(''default'', DNum 4), (''maximum'', DNum 9)])])]\<rparr>"

lemma clean_documents_clean: "Issues clean_lib clean_documents = []"
  by code_simp

section \<open>Properties\<close>

text \<open>
  C20. A clean lock grants nothing that was not requested.  When \<open>Issues\<close> finds nothing, every lock entry has a
  manifest; each approved route is, as a full identity, a route of the manifest; each approved capability is
  requested; and the recorded effective limits cover every limit with a default and exceed neither the
  manifest's value or default, nor the approved value or default, nor the core maximum.
\<close>

theorem clean_lock_within_request:
  assumes "Issues lib d = []" and "map_of (mapOf (dcLock d) ''integrations'') iid = Some e"
  shows "\<exists>manifest spec. map_of (dcManifests d) iid = Some manifest \<and> spec = mapOf (asMap manifest) ''spec'' \<and>
    (\<forall>r\<in>set (sliceOf (asMap e) ''routes''). routeIdentity lib (asMap r) (bodyCeiling d spec) \<in> set (requestedRoutes lib d spec)) \<and>
    set (strings (sliceOf (asMap e) ''capabilities'')) \<subseteq> set (strings (sliceOf spec ''capabilities'')) \<and>
    (\<forall>k q. map_of (limitNumbers ''default'' d) k = Some q \<longrightarrow> map_of (mapOf (asMap e) ''effectiveLimits'') k \<noteq> None) \<and>
    (\<forall>k v. numberOf (mapOf (asMap e) ''effectiveLimits'') k = Some v \<longrightarrow>
       v \<le> orElse (numberOf (mapOf spec ''limits'') k) (map_of (limitNumbers ''default'' d) k) \<and>
       v \<le> orElse (numberOf (mapOf (asMap e) ''limits'') k) (map_of (limitNumbers ''default'' d) k) \<and>
       (\<forall>mx. map_of (limitNumbers ''maximum'' d) k = Some mx \<longrightarrow> v \<le> mx))"
proof -
  have entry: "checkLockEntry lib d iid (asMap e) = []"
    using clean_lock_entry[OF _ assms(2), of lib] assms(1) by (simp add: Issues_def)
  then obtain manifest where m: "map_of (dcManifests d) iid = Some manifest"
    by (auto simp: checkLockEntry_def split: option.splits)
  define spec where "spec = mapOf (asMap manifest) ''spec''"
  have routes: "\<forall>r\<in>set (sliceOf (asMap e) ''routes''). routeIdentity lib (asMap r) (bodyCeiling d spec) \<in> set (requestedRoutes lib d spec)"
    and caps: "set (strings (sliceOf (asMap e) ''capabilities'')) \<subseteq> set (strings (sliceOf spec ''capabilities''))"
    and eff: "checkEffective d iid (asMap e) (mapOf spec ''limits'') (mapOf (asMap e) ''limits'') = []"
    using entry by (auto simp: checkLockEntry_def m Let_def spec_def filter_empty_conv split: if_splits)
  show ?thesis
  proof (intro exI conjI allI impI)
    show "map_of (dcManifests d) iid = Some manifest" by (rule m)
    show "spec = mapOf (asMap manifest) ''spec''" by (rule spec_def)
    show "\<forall>r\<in>set (sliceOf (asMap e) ''routes''). routeIdentity lib (asMap r) (bodyCeiling d spec) \<in> set (requestedRoutes lib d spec)"
      by (rule routes)
    show "set (strings (sliceOf (asMap e) ''capabilities'')) \<subseteq> set (strings (sliceOf spec ''capabilities''))" by (rule caps)
    show "map_of (mapOf (asMap e) ''effectiveLimits'') k \<noteq> None" if "map_of (limitNumbers ''default'' d) k = Some q" for k q
      using clean_effective(2)[OF eff that] .
    fix k v assume n: "numberOf (mapOf (asMap e) ''effectiveLimits'') k = Some v"
    have v: "v = effectiveLimit d k (mapOf spec ''limits'') (mapOf (asMap e) ''limits'')"
      using clean_effective(3)[OF eff n] .
    show "v \<le> orElse (numberOf (mapOf spec ''limits'') k) (map_of (limitNumbers ''default'' d) k)"
      "v \<le> orElse (numberOf (mapOf (asMap e) ''limits'') k) (map_of (limitNumbers ''default'' d) k)"
      unfolding v by (rule effectiveLimit_bounds)+
    show "v \<le> mx" if "map_of (limitNumbers ''maximum'' d) k = Some mx" for mx
      unfolding v using that by (rule effectiveLimit_bounds)
  qed
qed

lemma clean_lock_within_request_witness:
  "\<exists>manifest. map_of (dcManifests clean_documents) ''jf'' = Some manifest \<and>
     {''http''} \<subseteq> set (strings (sliceOf (mapOf (asMap manifest) ''spec'') ''capabilities''))"
proof -
  obtain e where e: "map_of (mapOf (dcLock clean_documents) ''integrations'') ''jf'' = Some e"
      "set (strings (sliceOf (asMap e) ''capabilities'')) = {''http''}"
    by (simp add: clean_documents_def mapOf_def field_def sliceOf_def)
  show ?thesis using clean_lock_within_request[OF clean_documents_clean e(1)] e(2) by metis
qed

text \<open>
  C26. In a clean set of documents every request of a manifest's pipeline names a literal path in a declared
  slot, and a data route of the same operation covers it: the method and the slot agree, the route's pattern
  covers the path, and if the route declares query keys, every key the request sends is one of them.
\<close>

theorem clean_pipeline_covered:
  assumes "Issues lib d = []" and "map_of (dcManifests d) iid = Some manifest"
    and "op \<in> set (sliceOf (mapOf (asMap manifest) ''spec'') ''operations'')"
    and "step \<in> set (sliceOf (asMap op) ''pipeline'')" and "req = mapOf (asMap step) ''request''"
  shows "\<exists>path r. field req ''path'' = DStr path \<and> pathPlaceholders path \<noteq> None \<and>
    strOf req ''slot'' \<in> set (slotNames (mapOf (asMap manifest) ''spec'')) \<and>
    r \<in> asMap ` set (sliceOf (asMap op) ''routes'') \<and> strOf r ''slot'' = strOf req ''slot'' \<and>
    strOf r ''method'' = (case field req ''method'' of DStr m \<Rightarrow> m | _ \<Rightarrow> ''GET'') \<and> routeUse r = ''data'' \<and>
    templateCovered (strOf r ''path'') path \<and>
    (\<forall>keys. map_of r ''queryKeys'' = Some keys \<longrightarrow>
       fst ` set (mapOf req ''query'') \<subseteq> set (strings (asSlice keys)))"
proof -
  define slots where "slots = slotNames (mapOf (asMap manifest) ''spec'')"
  define routes where "routes = map asMap (sliceOf (asMap op) ''routes'')"
  obtain oid where "checkPipelineStep lib oid (asMap step) (mapOf (asMap op) ''params'') slots routes = []"
    using clean_operation[OF _ assms(2,3), of lib] assms(1,4)
    by (auto simp: Issues_def checkOperation_def Let_def slots_def routes_def)
  then obtain path names where path: "strOf req ''slot'' \<in> set slots" "field req ''path'' = DStr path"
      "pathPlaceholders path = Some names"
    and step: "let method = (case field req ''method'' of DStr m \<Rightarrow> m | _ \<Rightarrow> ''GET'');
                 candidates = candidatesFor routes (strOf req ''slot'') method path in
               (if candidates = [] then [NotCovered oid method path]
                else tryCandidates lib oid method path (sortedKeys (mapOf req ''query''))
                       (bodyKindOf (mapOf req ''body'')) candidates) = []"
    unfolding checkPipelineStep_def assms(5)[symmetric] by (auto simp: Let_def split: if_splits doc.splits option.splits)
  obtain r where r: "r \<in> set (candidatesFor routes (strOf req ''slot'') (case field req ''method'' of DStr m \<Rightarrow> m | _ \<Rightarrow> ''GET'') path)"
    "tryCandidate lib (sortedKeys (mapOf req ''query'')) (bodyKindOf (mapOf req ''body'')) r = Satisfied"
    using step tryCandidates_clean unfolding Let_def by (metis list.distinct(1))
  have "fst ` set (mapOf req ''query'') \<subseteq> set (strings (asSlice keys))" if "map_of r ''queryKeys'' = Some keys" for keys
    using tryCandidate_keys[OF r(2) that] by (simp add: sortedKeys_def)
  then show ?thesis using path r(1) by (auto simp: candidatesFor_def routes_def slots_def)
qed


lemma clean_pipeline_covered_witness:
  "\<exists>r. strOf r ''slot'' = ''main'' \<and> routeUse r = ''data'' \<and> templateCovered (strOf r ''path'') ''/items/{kind}''"
proof -
  obtain manifest op step where e: "map_of (dcManifests clean_documents) ''jf'' = Some manifest"
      "op \<in> set (sliceOf (mapOf (asMap manifest) ''spec'') ''operations'')" "step \<in> set (sliceOf (asMap op) ''pipeline'')"
    and r: "field (mapOf (asMap step) ''request'') ''path'' = DStr ''/items/{kind}''"
      "strOf (mapOf (asMap step) ''request'') ''slot'' = ''main''"
    by (simp add: clean_documents_def mapOf_def field_def sliceOf_def strOf_def)
  show ?thesis using clean_pipeline_covered[OF clean_documents_clean e refl] unfolding r by (metis doc.inject(3))
qed

end
