(* ===== verification/Validation.thy ===== *)
theory Validation
  imports RoutePath GoTime
begin

text \<open>
  \<open>internal/widgets/validate.go\<close>: the gate that every produced document passes.  Also \<open>time.Parse\<close> on the
  layout \<open>time.RFC3339Nano\<close>, as the standard library runs it: the hour may have one digit, the fraction may
  follow a comma and have any number of digits (nine count), the zone is \<open>Z\<close> or an offset.

  The JSON decoder and the schema library are arguments: \<open>vlGeneric\<close> tells whether the first JSON value of the
  bytes decodes, \<open>vlSchema\<close> lists what the schema finds in it, \<open>vlUnmarshal\<close> decodes the bytes to a document.
  A problem is a constructor with the position that its message prints.
\<close>

section \<open>time.Parse\<close>

definition leapYear :: "int \<Rightarrow> bool" where
  "leapYear y \<longleftrightarrow> y mod 4 = 0 \<and> (y mod 100 \<noteq> 0 \<or> y mod 400 = 0)"

definition daysIn :: "int \<Rightarrow> int \<Rightarrow> int" where
  "daysIn y m = (if m = 2 then (if leapYear y then 29 else 28) else if m \<in> {4, 6, 9, 11} then 30 else 31)"

text \<open>The days from 1970-01-01 to a date.\<close>

definition dayNumber :: "int \<Rightarrow> int \<Rightarrow> int \<Rightarrow> int" where
  "dayNumber y m d = 365 * (y - 1) + (y - 1) div 4 - (y - 1) div 100 + (y - 1) div 400 +
     sum_list (map (daysIn y) [1..m - 1]) + d - 719163"

text \<open>\<open>getnum\<close>: one or two digits; two when the width is fixed.\<close>

definition getnum :: "bool \<Rightarrow> string \<Rightarrow> (int \<times> string) option" where
  "getnum fixed s =
     (case s of
        a # b # rest \<Rightarrow>
          if \<not> isDigit a then None
          else if isDigit b then Some (10 * digitValue a + digitValue b, rest)
          else if fixed then None else Some (digitValue a, b # rest)
      | [a] \<Rightarrow> if isDigit a \<and> \<not> fixed then Some (digitValue a, []) else None
      | [] \<Rightarrow> None)"

definition expectByte :: "char \<Rightarrow> string \<Rightarrow> string option" where
  "expectByte c s = (case s of d # rest \<Rightarrow> if d = c then Some rest else None | [] \<Rightarrow> None)"

definition rangedNum :: "bool \<Rightarrow> int \<Rightarrow> int \<Rightarrow> string \<Rightarrow> (int \<times> string) option" where
  "rangedNum fixed lo hi s =
     (case getnum fixed s of
        None \<Rightarrow> None
      | Some (n, rest) \<Rightarrow> if lo \<le> n \<and> n \<le> hi then Some (n, rest) else None)"

definition parseYear :: "string \<Rightarrow> (int \<times> string) option" where
  "parseYear s =
     (if length s < 4 \<or> \<not> list_all isDigit (take 4 s) then None
      else Some (foldl (\<lambda>n c. 10 * n + digitValue c) 0 (take 4 s), drop 4 s))"

text \<open>The fraction: nine digits count, missing ones are zero; without one the text goes on.\<close>

definition parseFraction :: "string \<Rightarrow> int \<times> string" where
  "parseFraction s =
     (case s of
        p # d # rest \<Rightarrow>
          if (p = CHR ''.'' \<or> p = CHR '','') \<and> isDigit d
          then let digits = takeWhile isDigit (d # rest) in
               (foldl (\<lambda>n c. 10 * n + digitValue c) 0 (take 9 (digits @ replicate 9 CHR ''0'')),
                dropWhile isDigit (d # rest))
          else (0, s)
      | _ \<Rightarrow> (0, s))"

text \<open>The offset of the zone in seconds.\<close>

definition parseZone :: "string \<Rightarrow> (int \<times> string) option" where
  "parseZone s =
     (case s of
        [] \<Rightarrow> None
      | c # rest \<Rightarrow>
          if c = CHR ''Z'' then Some (0, rest)
          else if length s < 6 \<or> s ! 3 \<noteq> CHR '':'' \<or> (c \<noteq> CHR ''+'' \<and> c \<noteq> CHR ''-'') then None
          else (case (getnum True (take 2 rest), getnum True (take 2 (drop 3 rest))) of
                  (Some (hr, _), Some (mm, _)) \<Rightarrow>
                    if hr > 24 \<or> mm > 60 then None
                    else Some ((if c = CHR ''+'' then 1 else -1) * ((hr * 60 + mm) * 60), drop 5 rest)
                | _ \<Rightarrow> None))"

definition bindParse :: "('a \<times> string) option \<Rightarrow> ('a \<Rightarrow> string \<Rightarrow> 'b option) \<Rightarrow> 'b option" where
  "bindParse r f = (case r of None \<Rightarrow> None | Some (a, s) \<Rightarrow> f a s)"

definition literalByte :: "char \<Rightarrow> string \<Rightarrow> (unit \<times> string) option" where
  "literalByte c s = map_option (Pair ()) (expectByte c s)"

definition ParseRFC3339Nano :: "string \<Rightarrow> instant option" where
  "ParseRFC3339Nano s =
     bindParse (parseYear s) (\<lambda>y s. bindParse (literalByte CHR ''-'' s) (\<lambda>_ s.
     bindParse (rangedNum True 1 12 s) (\<lambda>m s. bindParse (literalByte CHR ''-'' s) (\<lambda>_ s.
     bindParse (getnum True s) (\<lambda>d s. bindParse (literalByte CHR ''T'' s) (\<lambda>_ s.
     bindParse (rangedNum False 0 23 s) (\<lambda>hh s. bindParse (literalByte CHR '':'' s) (\<lambda>_ s.
     bindParse (rangedNum True 0 59 s) (\<lambda>mm s. bindParse (literalByte CHR '':'' s) (\<lambda>_ s.
     bindParse (rangedNum True 0 59 s) (\<lambda>ss s.
       case parseFraction s of (ns, s) \<Rightarrow>
       bindParse (parseZone s) (\<lambda>off s.
         if s \<noteq> [] \<or> d < 1 \<or> d > daysIn y m then None
         else Some ((dayNumber y m d * 86400 + hh * 3600 + mm * 60 + ss - off) * Second + ns)))))))))))))"

section \<open>Raw HTML\<close>

text \<open>
  \<open>rawHTMLTag\<close>: a less-than sign, a letter, name bytes, then white space, a slash or a greater-than sign.  A
  name byte is no terminator, so the expression matches at a position in one way.
\<close>

definition tagNameByte :: "char \<Rightarrow> bool" where
  "tagNameByte c \<longleftrightarrow> isAlpha c \<or> isDigit c \<or> c = CHR ''-''"

definition tagEnd :: "char \<Rightarrow> bool" where
  "tagEnd c \<longleftrightarrow> c \<in> {CHR 0x09, CHR 0x0A, CHR 0x0C, CHR 0x0D, CHR 0x20, CHR ''/'', CHR ''>''}"

definition tagHere :: "string \<Rightarrow> string option" where
  "tagHere s =
     (case s of
        lt # c # rest \<Rightarrow>
          if lt = CHR ''<'' \<and> isAlpha c
          then (case dropWhile tagNameByte rest of
                  e # _ \<Rightarrow> if tagEnd e then Some (lt # c # takeWhile tagNameByte rest @ [e]) else None
                | [] \<Rightarrow> None)
          else None
      | _ \<Rightarrow> None)"

fun findTag :: "string \<Rightarrow> string option" where
  "findTag [] = None"
| "findTag (c # s) = (case tagHere (c # s) of Some tag \<Rightarrow> Some tag | None \<Rightarrow> findTag s)"

section \<open>The checks on a decoded document\<close>

datatype problem =
    NotATimestamp string "nat list" string
  | BoundTwice nat string string
  | MinNotBelowMax nat
  | NotAfterPrevious "nat list" string
  | MarkdownTooLong nat
  | RawHTML nat string
  | TooLarge nat int
  | NotJSON string
  | SchemaProblem string
  | DecodeFailed string

definition maxDocumentBytes :: int where "maxDocumentBytes = 64 * 1024"
definition maxMarkdownBytes :: nat where "maxMarkdownBytes = 2048"
definition MaxDocumentBytesHardCap :: int where "MaxDocumentBytesHardCap = 256 * 1024"

definition checkTime :: "string \<Rightarrow> nat list \<Rightarrow> string \<Rightarrow> problem list" where
  "checkTime what pos v = (if v = [] \<or> ParseRFC3339Nano v \<noteq> None then [] else [NotATimestamp what pos v])"

text \<open>The points of one line, up to the first problem.\<close>

fun checkPoints :: "nat \<Rightarrow> nat \<Rightarrow> nat \<Rightarrow> instant option \<Rightarrow> SeriesPoint list \<Rightarrow> problem list" where
  "checkPoints i j k prev [] = []"
| "checkPoints i j k prev (pt # pts) =
     (case ParseRFC3339Nano (spT pt) of
        None \<Rightarrow> [NotATimestamp ''t'' [i, j, k] (spT pt)]
      | Some t \<Rightarrow>
          if (case prev of None \<Rightarrow> False | Some p \<Rightarrow> t \<le> p) then [NotAfterPrevious [i, j, k] (spT pt)]
          else checkPoints i j (Suc k) (Some t) pts)"

text \<open>The history lines of one block; the bindings seen so far are threaded through.\<close>

definition bindingWindow :: "SeriesHistory \<Rightarrow> string" where
  "bindingWindow h = (if shWindow h = [] then ''24h'' else shWindow h)"

fun checkBindings ::
  "nat \<Rightarrow> string \<Rightarrow> HistoryLine list \<Rightarrow> (string \<rightharpoonup> string) \<Rightarrow> problem list \<times> (string \<rightharpoonup> string)" where
  "checkBindings i w [] bound = ([], bound)"
| "checkBindings i w (l # ls) bound =
     (case checkBindings i w ls (bound(hlSignal l \<mapsto> w)) of
        (ps, b) \<Rightarrow>
          ((case bound (hlSignal l) of None \<Rightarrow> [] | Some w' \<Rightarrow> if w' \<noteq> w then [BoundTwice i (hlSignal l) w'] else []) @ ps,
           b))"

definition concatIndexed :: "(nat \<Rightarrow> 'a \<Rightarrow> 'b list) \<Rightarrow> 'a list \<Rightarrow> 'b list" where
  "concatIndexed f xs = concat (map (\<lambda>(i, x). f i x) (enumerate 0 xs))"

definition checkSeries :: "nat \<Rightarrow> BlockSeries \<Rightarrow> (string \<rightharpoonup> string) \<Rightarrow> problem list \<times> (string \<rightharpoonup> string)" where
  "checkSeries i v bound =
     (case (case seHistory v of None \<Rightarrow> ([], bound) | Some h \<Rightarrow> checkBindings i (bindingWindow h) (shLines h) bound) of
        (ps, b) \<Rightarrow>
          (ps @
           (case (seMin v, seMax v) of (Some lo, Some hi) \<Rightarrow> if lo \<ge> hi then [MinNotBelowMax i] else [] | _ \<Rightarrow> []) @
           concatIndexed (\<lambda>j line. checkPoints i j 0 None (slPoints line)) (seSeries v), b))"

definition checkBlock :: "nat \<Rightarrow> Block \<Rightarrow> (string \<rightharpoonup> string) \<Rightarrow> problem list \<times> (string \<rightharpoonup> string)" where
  "checkBlock i b bound =
     (case b of
        Statuses v \<Rightarrow> (concatIndexed (\<lambda>j it. checkTime ''since'' [i, j] (siSince it)) (bsItems v), bound)
      | Items v \<Rightarrow> (concatIndexed (\<lambda>j it. checkTime ''timestamp'' [i, j] (liTimestamp it)) (blItems v), bound)
      | Media v \<Rightarrow> (concatIndexed (\<lambda>j it. checkTime ''timestamp'' [i, j] (meTimestamp it)) (bdItems v), bound)
      | Series v \<Rightarrow> checkSeries i v bound
      | Text v \<Rightarrow>
          (if btKind v \<noteq> ''markdown'' then []
           else (if length (btContent v) > maxMarkdownBytes then [MarkdownTooLong i] else []) @
                (case findTag (btContent v) of None \<Rightarrow> [] | Some tag \<Rightarrow> [RawHTML i tag]), bound)
      | _ \<Rightarrow> ([], bound))"

fun checkBlocks :: "nat \<Rightarrow> Block list \<Rightarrow> (string \<rightharpoonup> string) \<Rightarrow> problem list" where
  "checkBlocks i [] bound = []"
| "checkBlocks i (b # bs) bound = (case checkBlock i b bound of (ps, bound') \<Rightarrow> ps @ checkBlocks (Suc i) bs bound')"

definition validateSemantics :: "Document \<Rightarrow> problem list" where
  "validateSemantics doc =
     (case docStatus doc of None \<Rightarrow> [] | Some st \<Rightarrow> checkTime ''status.since'' [] (stSince st)) @
     checkBlocks 0 (docBlocks doc) Map.empty"

section \<open>Validate\<close>

record validateLib =
  vlGeneric :: "string \<Rightarrow> string option"
  vlSchema :: "string \<Rightarrow> string list"
  vlUnmarshal :: "string \<Rightarrow> (string, Document) result"

definition documentCeiling :: "int \<Rightarrow> int" where
  "documentCeiling maxBytes =
     (let limit = (if maxBytes \<le> 0 then maxDocumentBytes else maxBytes)
      in if limit > MaxDocumentBytesHardCap then MaxDocumentBytesHardCap else limit)"

definition ValidateWithLimit :: "validateLib \<Rightarrow> string \<Rightarrow> int \<Rightarrow> (problem list, Document) result" where
  "ValidateWithLimit lib rw maxBytes =
     (let limit = documentCeiling maxBytes in
      if int (length rw) > limit then Inl [TooLarge (length rw) limit]
      else case vlGeneric lib rw of
             Some e \<Rightarrow> Inl [NotJSON e]
           | None \<Rightarrow>
               let problems = map SchemaProblem (vlSchema lib rw) in
               (case vlUnmarshal lib rw of
                  Inl e \<Rightarrow> Inl (problems @ [DecodeFailed e])
                | Inr doc \<Rightarrow>
                    let problems = problems @ validateSemantics doc in
                    if problems \<noteq> [] then Inl problems else Inr doc))"

definition ValidateDocument :: "validateLib \<Rightarrow> string \<Rightarrow> (problem list, Document) result" where
  "ValidateDocument lib rw = ValidateWithLimit lib rw maxDocumentBytes"

section \<open>What an accepted document satisfies\<close>

definition realTime :: "string \<Rightarrow> bool" where
  "realTime v \<longleftrightarrow> v = [] \<or> ParseRFC3339Nano v \<noteq> None"

definition increasingPoints :: "SeriesPoint list \<Rightarrow> bool" where
  "increasingPoints pts \<longleftrightarrow> (\<forall>p\<in>set pts. ParseRFC3339Nano (spT p) \<noteq> None) \<and>
     sorted_wrt (<) (map (\<lambda>p. the (ParseRFC3339Nano (spT p))) pts)"

definition containsTag :: "string \<Rightarrow> bool" where
  "containsTag s \<longleftrightarrow> (\<exists>u c n e v. s = u @ CHR ''<'' # c # n @ e # v \<and> isAlpha c \<and> list_all tagNameByte n \<and> tagEnd e)"

fun soundBlock :: "Block \<Rightarrow> bool" where
  "soundBlock (Statuses v) = (\<forall>it\<in>set (bsItems v). realTime (siSince it))"
| "soundBlock (Items v) = (\<forall>it\<in>set (blItems v). realTime (liTimestamp it))"
| "soundBlock (Media v) = (\<forall>it\<in>set (bdItems v). realTime (meTimestamp it))"
| "soundBlock (Series v) = ((\<forall>line\<in>set (seSeries v). increasingPoints (slPoints line)) \<and>
     (\<forall>lo hi. seMin v = Some lo \<longrightarrow> seMax v = Some hi \<longrightarrow> lo < hi))"
| "soundBlock (Text v) = (btKind v = ''markdown'' \<longrightarrow> length (btContent v) \<le> maxMarkdownBytes \<and> \<not> containsTag (btContent v))"
| "soundBlock _ = True"

lemma tagEnd_not_name: "tagEnd c \<Longrightarrow> \<not> tagNameByte c"
  by (auto simp: tagEnd_def tagNameByte_def isAlpha_def isDigit_def less_eq_char_def)

lemma tagHere_iff:
  "tagHere s \<noteq> None \<longleftrightarrow> (\<exists>c n e v. s = CHR ''<'' # c # n @ e # v \<and> isAlpha c \<and> list_all tagNameByte n \<and> tagEnd e)"
proof
  assume "tagHere s \<noteq> None"
  then obtain c rest e v where r: "s = CHR ''<'' # c # rest" "isAlpha c" "dropWhile tagNameByte rest = e # v" "tagEnd e"
    by (auto simp: tagHere_def split: list.splits if_splits)
  moreover have "rest = takeWhile tagNameByte rest @ e # v" using r(3) takeWhile_dropWhile_id[of tagNameByte rest] by simp
  moreover have "list_all tagNameByte (takeWhile tagNameByte rest)" by (auto simp: list_all_iff dest: set_takeWhileD)
  ultimately show "\<exists>c n e v. s = CHR ''<'' # c # n @ e # v \<and> isAlpha c \<and> list_all tagNameByte n \<and> tagEnd e" by metis
next
  assume "\<exists>c n e v. s = CHR ''<'' # c # n @ e # v \<and> isAlpha c \<and> list_all tagNameByte n \<and> tagEnd e"
  then obtain c n e v where s: "s = CHR ''<'' # c # n @ e # v" "isAlpha c" "list_all tagNameByte n" "tagEnd e" by blast
  then have "dropWhile tagNameByte (n @ e # v) = e # v"
    using tagEnd_not_name[OF s(4)] by (simp add: dropWhile_append list_all_iff)
  then show "tagHere s \<noteq> None" using s by (simp add: tagHere_def)
qed

lemma containsTag_suffix: "containsTag s \<longleftrightarrow> (\<exists>u t. s = u @ t \<and> tagHere t \<noteq> None)"
  unfolding containsTag_def tagHere_iff by blast

lemma containsTag_Cons: "containsTag (a # s) \<longleftrightarrow> tagHere (a # s) \<noteq> None \<or> containsTag s"
  by (auto simp: containsTag_suffix Cons_eq_append_conv)

lemma findTag_iff: "findTag s \<noteq> None \<longleftrightarrow> containsTag s"
proof (induction s)
  case Nil
  then show ?case by (simp add: containsTag_def)
next
  case (Cons a s)
  then show ?case unfolding containsTag_Cons by (auto split: option.splits)
qed

lemma concatIndexed_Nil_iff: "concatIndexed f xs = [] \<longleftrightarrow> (\<forall>i < length xs. f i (xs ! i) = [])"
proof -
  have "concatIndexed f xs = [] \<longleftrightarrow> (\<forall>p\<in>set (enumerate 0 xs). f (fst p) (snd p) = [])"
    by (simp add: concatIndexed_def case_prod_beta)
  also have "\<dots> \<longleftrightarrow> (\<forall>i < length xs. f i (xs ! i) = [])"
    by (metis (no_types, lifting) add_0 fst_conv in_set_conv_nth length_enumerate nth_enumerate_eq snd_conv)
  finally show ?thesis .
qed

lemma concatIndexed_all: "concatIndexed f xs = [] \<Longrightarrow> (\<And>i x. f i x = [] \<Longrightarrow> P x) \<Longrightarrow> x \<in> set xs \<Longrightarrow> P x"
  by (auto simp: concatIndexed_Nil_iff in_set_conv_nth)

lemma checkTime_clean: "checkTime what pos v = [] \<longleftrightarrow> realTime v"
  by (simp add: checkTime_def realTime_def)

lemma checkPoints_clean:
  "checkPoints i j k prev pts = [] \<Longrightarrow>
   increasingPoints pts \<and> (\<forall>p. prev = Some p \<longrightarrow> (\<forall>q\<in>set pts. p < the (ParseRFC3339Nano (spT q))))"
proof (induction pts arbitrary: k prev)
  case (Cons pt pts)
  then obtain t where t: "ParseRFC3339Nano (spT pt) = Some t" "\<And>p. prev = Some p \<Longrightarrow> p < t"
      "checkPoints i j (Suc k) (Some t) pts = []"
    by (auto split: option.splits if_splits)
  then show ?case using Cons.IH[OF t(3)] by (fastforce simp: increasingPoints_def)
qed (simp add: increasingPoints_def)

text \<open>The bindings of accepted blocks: each signal keeps the window it was bound at.\<close>

definition windowBindings :: "Block \<Rightarrow> (string \<times> string) list" where
  "windowBindings b = (case b of
      Series s \<Rightarrow> (case seHistory s of None \<Rightarrow> [] | Some h \<Rightarrow> map (\<lambda>l. (hlSignal l, bindingWindow h)) (shLines h))
    | _ \<Rightarrow> [])"

definition keepsWindows :: "(string \<times> string) list \<Rightarrow> (string \<rightharpoonup> string) \<Rightarrow> bool" where
  "keepsWindows bs bound \<longleftrightarrow> (\<forall>p\<in>set bs. bound (fst p) = Some (snd p))"

lemma checkBindings_clean:
  "checkBindings i w ls bound = ([], bound') \<Longrightarrow>
   bound \<subseteq>\<^sub>m bound' \<and> keepsWindows (map (\<lambda>l. (hlSignal l, w)) ls) bound'"
proof (induction ls arbitrary: bound)
  case (Cons l ls)
  then have tail: "checkBindings i w ls (bound(hlSignal l \<mapsto> w)) = ([], bound')"
    and same: "bound (hlSignal l) = None \<or> bound (hlSignal l) = Some w"
    by (auto split: prod.splits option.splits if_splits)
  have "bound \<subseteq>\<^sub>m bound(hlSignal l \<mapsto> w)" using same by (auto simp: map_le_def)
  moreover have "bound' (hlSignal l) = Some w"
    using Cons.IH[OF tail] by (auto simp: map_le_def dom_def)
  ultimately show ?case using Cons.IH[OF tail] map_le_trans by (fastforce simp: keepsWindows_def)
qed (simp add: keepsWindows_def)

lemma checkBlock_clean:
  assumes "checkBlock i b bound = ([], bound')"
  shows "soundBlock b" and "bound \<subseteq>\<^sub>m bound'" and "keepsWindows (windowBindings b) bound'"
proof -
  have "soundBlock b \<and> bound \<subseteq>\<^sub>m bound' \<and> keepsWindows (windowBindings b) bound'"
  proof (cases b)
    case (Series v)
    obtain ps b' where ps: "(case seHistory v of None \<Rightarrow> ([], bound) | Some h \<Rightarrow>
        checkBindings i (bindingWindow h) (shLines h) bound) = (ps, b')" by fastforce
    have c: "ps = []" "b' = bound'"
      "concatIndexed (\<lambda>j line. checkPoints i j 0 None (slPoints line)) (seSeries v) = []"
      "\<And>lo hi. seMin v = Some lo \<Longrightarrow> seMax v = Some hi \<Longrightarrow> lo < hi"
      using assms ps by (auto simp: checkBlock_def Series checkSeries_def split: if_splits)
    have "\<forall>line\<in>set (seSeries v). increasingPoints (slPoints line)"
      using concatIndexed_all[OF c(3), of "\<lambda>line. increasingPoints (slPoints line)"] checkPoints_clean by blast
    moreover have "bound \<subseteq>\<^sub>m bound' \<and> keepsWindows (windowBindings b) bound'"
      using ps c(1,2) checkBindings_clean by (auto simp: windowBindings_def Series keepsWindows_def split: option.splits)
    ultimately show ?thesis using c(4) by (auto simp: Series)
  next
    case (Text v)
    then show ?thesis using assms findTag_iff[of "btContent v"]
      by (auto simp: checkBlock_def windowBindings_def keepsWindows_def split: if_splits option.splits)
  qed (use assms in \<open>auto simp: checkBlock_def windowBindings_def keepsWindows_def checkTime_clean
        elim: concatIndexed_all[where P = "\<lambda>it. realTime (siSince it)"]
          concatIndexed_all[where P = "\<lambda>it. realTime (liTimestamp it)"]
          concatIndexed_all[where P = "\<lambda>it. realTime (meTimestamp it)"]\<close>)
  then show "soundBlock b" "bound \<subseteq>\<^sub>m bound'" "keepsWindows (windowBindings b) bound'" by blast+
qed

lemma checkBlocks_clean:
  "checkBlocks i bs bound = [] \<Longrightarrow>
   (\<forall>b\<in>set bs. soundBlock b) \<and> (\<exists>bound'. bound \<subseteq>\<^sub>m bound' \<and> (\<forall>b\<in>set bs. keepsWindows (windowBindings b) bound'))"
proof (induction bs arbitrary: i bound)
  case (Cons b bs)
  then obtain bound' where b: "checkBlock i b bound = ([], bound')" "checkBlocks (Suc i) bs bound' = []"
    by (auto split: prod.splits)
  note c = checkBlock_clean[OF b(1)]
  obtain bound'' where ih: "\<forall>b\<in>set bs. soundBlock b" "bound' \<subseteq>\<^sub>m bound''" "\<forall>b\<in>set bs. keepsWindows (windowBindings b) bound''"
    using Cons.IH[OF b(2)] by blast
  have "keepsWindows (windowBindings b) bound''"
    using c(3) ih(2) by (fastforce simp: keepsWindows_def map_le_def dom_def)
  then show ?case using c ih map_le_trans by (metis set_ConsD)
qed (auto intro: map_le_refl)

lemma bindings_of_windows:
  "blockBindings b = map (\<lambda>(s, w). (s, case map_of HistoryWindows w of None \<Rightarrow> 24 * Hour | Some d \<Rightarrow> d)) (windowBindings b)"
  by (cases b) (auto simp: blockBindings_def windowBindings_def bindingWindow_def HistoryWindows_def split: option.splits)

lemma bound_once:
  assumes "b \<in> B" "b' \<in> B" "(s, w) \<in> set (blockBindings b)" "(s, w') \<in> set (blockBindings b')"
    and "\<forall>b\<in>B. keepsWindows (windowBindings b) bound"
  shows "w = w'"
proof -
  obtain x x' where x: "(s, x) \<in> set (windowBindings b)" "w = (case map_of HistoryWindows x of None \<Rightarrow> 24 * Hour | Some d \<Rightarrow> d)"
    and x': "(s, x') \<in> set (windowBindings b')" "w' = (case map_of HistoryWindows x' of None \<Rightarrow> 24 * Hour | Some d \<Rightarrow> d)"
    using assms(3,4) unfolding bindings_of_windows by auto
  have "bound s = Some x" "bound s = Some x'"
    using assms(1,2,5) x(1) x'(1) by (fastforce simp: keepsWindows_def)+
  then show ?thesis using x(2) x'(2) by simp
qed

section \<open>Properties\<close>

text \<open>
  C17. A document that passes the gate fits the byte ceiling (never above the hard cap, whatever ceiling the
  caller asks for), decoded and satisfied the schema, and is sound: every timestamp is a real one, the points
  of every line are strictly increasing in time, a lower bound is below its upper bound, no markdown is longer
  than its limit or contains a tag, and no signal is bound at two windows, so the history that is read for it
  does not depend on the order of the blocks.
\<close>

theorem accepted_document_sound:
  assumes "ValidateWithLimit lib rw maxBytes = Inr doc"
  shows "int (length rw) \<le> MaxDocumentBytesHardCap \<and> int (length rw) \<le> documentCeiling maxBytes \<and>
    vlGeneric lib rw = None \<and> vlSchema lib rw = [] \<and> vlUnmarshal lib rw = Inr doc \<and>
    (\<forall>st. docStatus doc = Some st \<longrightarrow> realTime (stSince st)) \<and>
    (\<forall>b\<in>set (docBlocks doc). soundBlock b) \<and>
    (\<forall>b\<in>set (docBlocks doc). \<forall>b'\<in>set (docBlocks doc). \<forall>s w w'.
       (s, w) \<in> set (blockBindings b) \<longrightarrow> (s, w') \<in> set (blockBindings b') \<longrightarrow> w = w')"
proof -
  have v: "int (length rw) \<le> documentCeiling maxBytes" "vlGeneric lib rw = None" "vlSchema lib rw = []"
      "vlUnmarshal lib rw = Inr doc" "validateSemantics doc = []"
    using assms by (auto simp: ValidateWithLimit_def Let_def split: if_splits option.splits sum.splits)
  have "documentCeiling maxBytes \<le> MaxDocumentBytesHardCap" by (simp add: documentCeiling_def Let_def)
  moreover have "checkBlocks 0 (docBlocks doc) Map.empty = []" and "\<forall>st. docStatus doc = Some st \<longrightarrow> realTime (stSince st)"
    using v(5) by (auto simp: validateSemantics_def checkTime_clean)
  moreover from this(1) obtain bound where "\<forall>b\<in>set (docBlocks doc). soundBlock b"
      and r: "\<forall>b\<in>set (docBlocks doc). keepsWindows (windowBindings b) bound"
    using checkBlocks_clean by blast
  moreover have "w = w'" if "b \<in> set (docBlocks doc)" "b' \<in> set (docBlocks doc)" "(s, w) \<in> set (blockBindings b)"
      "(s, w') \<in> set (blockBindings b')" for b b' s w w'
    using that r by (rule bound_once)
  ultimately show ?thesis using v by fastforce
qed

definition validSeries :: BlockSeries where
  "validSeries = \<lparr>seTitle = [], seEmphasis = [], seFormat = [], seUnit = [], seMin = Some 0, seMax = Some 5,
     seSeries = [\<lparr>slLabel = ''cpu'', slLevel = [], slPoints =
       [\<lparr>spT = ''2026-02-28T23:59:59.5Z'', spV = Some 1\<rparr>, \<lparr>spT = ''2026-03-01T01:00:00+01:00'', spV = None\<rparr>]\<rparr>],
     seHistory = Some \<lparr>shWindow = [], shLines = [\<lparr>hlSignal = ''load'', hlLabel = [], hlLevel = []\<rparr>]\<rparr>\<rparr>"

definition validDocument :: Document where
  "validDocument = emptyDocument\<lparr>docBlocks := [Series validSeries,
     Text \<lparr>btKind = ''markdown'', btTitle = [], btEmphasis = [], btLevel = [], btContent = ''1 < 2 and <b''\<rparr>]\<rparr>"

lemma accepted_document_sound_witness:
  "increasingPoints (slPoints (hd (seSeries validSeries))) \<and> \<not> containsTag ''1 < 2 and <b''"
proof -
  define lib where "lib = \<lparr>vlGeneric = (\<lambda>_. None), vlSchema = (\<lambda>_. []), vlUnmarshal = (\<lambda>_. Inr validDocument)\<rparr>"
  have "validateSemantics validDocument = []" by code_simp
  then have "ValidateWithLimit lib ''x'' 0 = Inr validDocument"
    by (simp add: ValidateWithLimit_def lib_def documentCeiling_def maxDocumentBytes_def MaxDocumentBytesHardCap_def)
  from accepted_document_sound[OF this] show ?thesis
    by (simp add: validDocument_def validSeries_def)
qed

end
