(* ===== verification/Assets.thy ===== *)
theory Assets
  imports Integrations GoTime
begin

text \<open>
  Images behind credentials: \<open>internal/app/assets.go\<close> and \<open>grant\<close> of \<open>internal/app/runtime.go\<close> (is a signed
  reference still allowed), \<open>internal/storage/assetcache\<close> (the cache on disk), the revisions of connections in
  \<open>internal/storage/storage.go\<close>, and \<open>internal/api/assets.go\<close> (the proxy).  Signed references are in
  \<open>AssetTokens\<close>, and the broker method that mints them in \<open>Capabilities\<close>.

  Arguments of the model: the outcome of file and database operations (\<open>cacheWorld\<close>); time.
\<close>

section \<open>Revisions of connections\<close>

record revisionRow =
  rvRevision :: string
  rvMaterial :: string

type_synonym connectionState = "string \<rightharpoonup> revisionRow"

text \<open>
  The transaction: the old rows are read, all rows deleted, and one is inserted for each configured
  connection.  \<open>draw\<close> is the random text drawn for an identifier; a failing statement leaves the table alone.
\<close>

definition revisionFor :: "connectionState \<Rightarrow> (string \<Rightarrow> string) \<Rightarrow> string \<Rightarrow> string \<Rightarrow> string" where
  "revisionFor old draw cid material =
     (let kept = (case old cid of Some r \<Rightarrow> if rvMaterial r = material then rvRevision r else [] | None \<Rightarrow> [])
      in if kept = [] then draw cid else kept)"

definition SyncConnectionRevisions ::
    "string option \<Rightarrow> (string \<Rightarrow> string) \<Rightarrow> (string \<rightharpoonup> string) \<Rightarrow> connectionState \<Rightarrow>
     (string, string \<rightharpoonup> string) result \<times> connectionState" where
  "SyncConnectionRevisions err draw materials old =
     (case err of
        Some e \<Rightarrow> (Inl e, old)
      | None \<Rightarrow>
          (Inr (\<lambda>cid. map_option (revisionFor old draw cid) (materials cid)),
           \<lambda>cid. map_option (\<lambda>mt. \<lparr>rvRevision = revisionFor old draw cid mt, rvMaterial = mt\<rparr>) (materials cid)))"

definition ConnectionRevision :: "string option \<Rightarrow> string \<Rightarrow> connectionState \<Rightarrow> (string, string option) result" where
  "ConnectionRevision err cid t = (case err of Some e \<Rightarrow> Inl e | None \<Rightarrow> Inr (map_option rvRevision (t cid)))"

section \<open>Is the reference still allowed\<close>

record assetCard =
  asID :: string
  asIntegration :: string
  asSlots :: "(string \<times> string) list"

text \<open>
  What \<open>AssetAuthorized\<close> reads: the source of a declared integration; the manifest found there (\<open>Inr None\<close> for
  a builtin source); the lock file; the cards; the connections.
\<close>

record assetWorld =
  awSource :: "string \<rightharpoonup> string"
  awManifest :: "string \<Rightarrow> (string, Manifest option) result"
  awLock :: "(string, string \<rightharpoonup> LockEntry) result"
  awCards :: "assetCard list"
  awRegistry :: registry

definition revisionsFor :: "(string \<times> string) list \<Rightarrow> (string \<rightharpoonup> string) \<Rightarrow> (string \<rightharpoonup> string)" where
  "revisionsFor slots revisions =
     (\<lambda>slot. map_option (\<lambda>cid. case revisions cid of None \<Rightarrow> [] | Some r \<Rightarrow> r) (map_of slots slot))"

definition slotPolicy :: "registry \<Rightarrow> (string \<times> string) list \<Rightarrow> string \<rightharpoonup> ConnectionPolicy" where
  "slotPolicy reg slots slot =
     (case map_of slots slot of
        None \<Rightarrow> None
      | Some cid \<Rightarrow>
          (case registryGet reg cid of
             None \<Rightarrow> None
           | Some x \<Rightarrow> map_option (\<lambda>h. \<lparr>cpAllowedPaths = cAllowedPaths h\<rparr>) (connHTTP x)))"

definition grant ::
    "Manifest \<Rightarrow> LockEntry \<Rightarrow> assetCard \<Rightarrow> registry \<Rightarrow> (string \<rightharpoonup> string) \<Rightarrow> 64 word \<Rightarrow> string \<Rightarrow> string \<Rightarrow> Grant" where
  "grant m l c reg revisions generation approvalRevision cardHash =
     (let e = leEffectiveLimits l in
      \<lparr>PluginID = mfID m, Version = mfVersion m, InstanceID = asID c, Slots = map_of (asSlots c),
       Caps = NewCapSet (leCapabilities l), ManifestRoutes = map brokerRoute (mfRoutes m),
       ApprovedRoutes = map brokerRoute (leRoutes l), gConnectionPolicy = slotPolicy reg (asSlots c),
       gLimits = \<lparr>HTTPRequests = efHTTPRequests e, ResponseMB = efResponseMB e, CacheEntries = efCacheEntries e,
         CacheBytesKB = efCacheBytesKB e, HostCalls = efHostCalls e, RequestBodyKB = efRequestBodyKB e\<rparr>,
       Ident = \<lparr>SnapshotGen = generation, CardHash = cardHash, ManifestDigest = mfDigest m,
         ApprovalRevision = approvalRevision, SlotRevisions = revisionsFor (asSlots c) revisions\<rparr>\<rparr>)"

definition cardPermits :: "mimeLib \<Rightarrow> registry \<Rightarrow> Manifest \<Rightarrow> LockEntry \<Rightarrow> queryValues \<Rightarrow> Payload \<Rightarrow> assetCard \<Rightarrow> bool" where
  "cardPermits mime reg m entry query p c \<longleftrightarrow>
     list_ex (\<lambda>(slot, cid). cid = paConnection p \<and>
       Authorize mime (grant m entry c reg Map.empty 0 [] []) (assetRequest slot (paPath p) (firstValues query)) UseAsset = None)
     (asSlots c)"

definition AssetAuthorized :: "mimeLib \<Rightarrow> assetWorld \<Rightarrow> Payload \<Rightarrow> (string, bool) result" where
  "AssetAuthorized mime w p =
     (case Cut CHR ''@'' (paPlugin p) of
        None \<Rightarrow> Inr False
      | Some (pluginID, version) \<Rightarrow>
          (case awSource w pluginID of
             None \<Rightarrow> Inr False
           | Some src \<Rightarrow>
               (case awManifest w src of
                  Inl e \<Rightarrow> Inl e
                | Inr None \<Rightarrow> Inr False
                | Inr (Some m) \<Rightarrow>
                    if mfVersion m \<noteq> version then Inr False
                    else (case awLock w of
                            Inl e \<Rightarrow> Inl e
                          | Inr lock \<Rightarrow>
                              (case lock pluginID of
                                 None \<Rightarrow> Inr False
                               | Some entry \<Rightarrow>
                                   if leManifestSHA256 entry \<noteq> mfDigest m then Inr False
                                   else (case ParseQuery (paQuery p) of
                                           None \<Rightarrow> Inl ''invalid query''
                                         | Some query \<Rightarrow>
                                             Inr (list_ex (\<lambda>c. asIntegration c = pluginID \<and>
                                               cardPermits mime (awRegistry w) m entry query p c) (awCards w))))))))"

section \<open>The cache on disk\<close>

record cacheRow =
  crConnection :: string
  crContentType :: string
  crBytes :: int
  crCreated :: instant
  crLastAccess :: instant

record assetCache =
  cqRows :: "(string \<times> cacheRow) list"
  cqFiles :: "string \<rightharpoonup> string"
  cqBudget :: int

record assetResult =
  arBody :: string
  arContentType :: string

text \<open>The outcome of the file and database operations of one call; \<open>cwEvict\<close> is read at each round of eviction.\<close>

record evictOutcome =
  eoTotal :: "string option"
  eoSelect :: "string option"
  eoUnlink :: bool
  eoDelete :: "string option"

record cacheWorld =
  cwSelect :: "string option"
  cwRead :: "string option"
  cwUnlink :: bool
  cwDelete :: "string option"
  cwTouch :: bool
  cwStore :: "string option"
  cwInsert :: "string option"
  cwEvict :: "nat \<Rightarrow> evictOutcome"
  cwNow :: instant

definition newCache :: "int \<Rightarrow> assetCache" where
  "newCache budget = \<lparr>cqRows = [], cqFiles = Map.empty, cqBudget = (if budget \<le> 0 then 512 * 2 ^ 20 else budget)\<rparr>"

definition removeEntry :: "bool \<Rightarrow> string option \<Rightarrow> string \<Rightarrow> assetCache \<Rightarrow> string option \<times> assetCache" where
  "removeEntry unlink del key c =
     (let c = (if unlink then c\<lparr>cqFiles := (cqFiles c)(key := None)\<rparr> else c) in
      case del of Some e \<Rightarrow> (Some e, c) | None \<Rightarrow> (None, c\<lparr>cqRows := AList.delete key (cqRows c)\<rparr>))"

definition cacheGet :: "assetLib \<Rightarrow> cacheWorld \<Rightarrow> string \<Rightarrow> assetCache \<Rightarrow> (string, assetResult option) result \<times> assetCache" where
  "cacheGet lib w key c =
     (case cwSelect w of
        Some e \<Rightarrow> (Inl e, c)
      | None \<Rightarrow>
          (case map_of (cqRows c) key of
             None \<Rightarrow> (Inr None, c)
           | Some row \<Rightarrow>
               (case cwRead w of
                  Some e \<Rightarrow> (Inl e, c)
                | None \<Rightarrow>
                    let gone = snd (removeEntry (cwUnlink w) (cwDelete w) key c) in
                    (case cqFiles c key of
                       None \<Rightarrow> (Inr None, gone)
                     | Some data \<Rightarrow>
                         if int (length data) \<noteq> crBytes row + 32 then (Inr None, gone)
                         else if take 32 data \<noteq> alSHA256 lib (drop 32 data) then (Inr None, gone)
                         else (Inr (Some \<lparr>arBody = drop 32 data, arContentType = crContentType row\<rparr>),
                               if cwTouch w then c\<lparr>cqRows := AList.update key (row\<lparr>crLastAccess := cwNow w\<rparr>) (cqRows c)\<rparr>
                               else c)))))"

definition totalBytes :: "assetCache \<Rightarrow> int" where
  "totalBytes c = sum_list (map (\<lambda>(k, r). crBytes r) (cqRows c))"

text \<open>The first row in the order of the last access as a text, then of the key.\<close>

definition olderRow :: "string \<times> cacheRow \<Rightarrow> string \<times> cacheRow \<Rightarrow> bool" where
  "olderRow a b \<longleftrightarrow> \<not> textLe (crLastAccess (snd b)) (crLastAccess (snd a)) \<or>
     textLe (crLastAccess (snd a)) (crLastAccess (snd b)) \<and> fst a \<le> fst b"

fun oldestRow :: "(string \<times> cacheRow) list \<Rightarrow> (string \<times> cacheRow) option" where
  "oldestRow [] = None"
| "oldestRow (r # rs) = (case oldestRow rs of None \<Rightarrow> Some r | Some s \<Rightarrow> Some (if olderRow r s then r else s))"

lemma oldestRow_member: "oldestRow rs = Some r \<Longrightarrow> r \<in> set rs"
  by (induction rs arbitrary: r) (auto split: option.splits if_splits)

lemma delete_shorter: "k \<in> fst ` set rs \<Longrightarrow> length (AList.delete k rs) < length rs"
  unfolding AList.delete_eq by (auto intro: length_filter_less)

lemma removeEntry_shorter:
  "oldestRow (cqRows c) = Some (key, r) \<Longrightarrow> removeEntry u d key c = (None, c') \<Longrightarrow> length (cqRows c') < length (cqRows c)"
  using oldestRow_member[of "cqRows c" "(key, r)"] delete_shorter[of key "cqRows c"]
  by (force simp: removeEntry_def Let_def split: option.splits if_splits)

function evict :: "(nat \<Rightarrow> evictOutcome) \<Rightarrow> nat \<Rightarrow> assetCache \<Rightarrow> string option \<times> assetCache" where
  "evict w i c =
     (case eoTotal (w i) of
        Some e \<Rightarrow> (Some e, c)
      | None \<Rightarrow>
          if totalBytes c \<le> cqBudget c then (None, c)
          else (case eoSelect (w i) of
                  Some e \<Rightarrow> (Some e, c)
                | None \<Rightarrow>
                    (case oldestRow (cqRows c) of
                       None \<Rightarrow> (Some ''sql: no rows in result set'', c)
                     | Some (key, _) \<Rightarrow>
                         (case removeEntry (eoUnlink (w i)) (eoDelete (w i)) key c of
                            (Some e, c') \<Rightarrow> (Some e, c')
                          | (None, c') \<Rightarrow> evict w (Suc i) c'))))"
  by pat_completeness auto

termination
  by (relation "measure (\<lambda>(w, i, c). length (cqRows c))") (auto intro: removeEntry_shorter dest: sym)

declare evict.simps [simp del]

definition cachePut :: "assetLib \<Rightarrow> cacheWorld \<Rightarrow> string \<Rightarrow> string \<Rightarrow> assetResult \<Rightarrow> assetCache \<Rightarrow> string option \<times> assetCache" where
  "cachePut lib w key cid res c =
     (if int (length (arBody res)) > cqBudget c then (None, c)
      else case cwStore w of
             Some e \<Rightarrow> (Some e, c)
           | None \<Rightarrow>
               let c = c\<lparr>cqFiles := (cqFiles c)(key \<mapsto> alSHA256 lib (arBody res) @ arBody res)\<rparr> in
               (case cwInsert w of
                  Some e \<Rightarrow> (Some e, c)
                | None \<Rightarrow>
                    let created = (case map_of (cqRows c) key of None \<Rightarrow> cwNow w | Some r \<Rightarrow> crCreated r);
                        row = \<lparr>crConnection = cid, crContentType = arContentType res, crBytes = int (length (arBody res)),
                               crCreated = created, crLastAccess = cwNow w\<rparr>
                    in evict (cwEvict w) 0 (c\<lparr>cqRows := AList.update key row (cqRows c)\<rparr>)))"

text \<open>
  \<open>GetOrFetch\<close>.  \<open>flight\<close> is the outcome of a running call with the same key, which this call waits for.
  \<open>fetch\<close> is what fetching gives and the requests it sends; it happens only on a miss.
\<close>

definition GetOrFetch ::
    "assetLib \<Rightarrow> cacheWorld \<Rightarrow> (string, assetResult) result option \<Rightarrow> string \<Rightarrow> string \<Rightarrow>
     (string, assetResult) result \<times> httpRequest list \<Rightarrow> assetCache \<Rightarrow>
     (string, assetResult) result \<times> assetCache \<times> httpRequest list" where
  "GetOrFetch lib w flight key cid fetch c =
     (case RawURLDecode key of
        None \<Rightarrow> (Inl ''assetcache: invalid cache key'', c, [])
      | Some decoded \<Rightarrow>
          if length decoded \<noteq> 32 then (Inl ''assetcache: invalid cache key'', c, [])
          else (case flight of
                  Some r \<Rightarrow> (r, c, [])
                | None \<Rightarrow>
                    (case cacheGet lib w key c of
                       (Inl e, c) \<Rightarrow> (Inl e, c, [])
                     | (Inr (Some cached), c) \<Rightarrow> (Inr cached, c, [])
                     | (Inr None, c) \<Rightarrow>
                         (case fetch of
                            (Inl e, sent) \<Rightarrow> (Inl e, c, sent)
                          | (Inr res, sent) \<Rightarrow>
                              (case cachePut lib w key cid res c of
                                 (Some e, c) \<Rightarrow> (Inl e, c, sent)
                               | (None, c) \<Rightarrow> (Inr res, c, sent))))))"

section \<open>The proxy\<close>

definition maxAssetBytes :: int where
  "maxAssetBytes = 8 * 1024 * 1024"

definition sniffImage :: "assetLib \<Rightarrow> string \<Rightarrow> string option" where
  "sniffImage lib body =
     (if body = [] \<or> int (length body) > maxAssetBytes then None
      else let mime = hd (Split CHR '';'' (alDetect lib body)) in
           if mime \<notin> {''image/jpeg'', ''image/png'', ''image/gif''} then None
           else case alImageConfig lib body of
                  None \<Rightarrow> None
                | Some (width, height) \<Rightarrow>
                    if width \<le> 0 \<or> height \<le> 0 \<or> width > 16384 \<or> height > 16384 \<or> width * height > 40000000
                    then None else Some mime)"

definition singleValues :: "(string \<times> string) list \<Rightarrow> queryValues" where
  "singleValues q = map (\<lambda>(k, v). (k, [v])) q"

text \<open>The redirect check of the fetch: the destination under the same payload.\<close>

definition assetRedirect :: "mimeLib \<Rightarrow> assetWorld \<Rightarrow> Payload \<Rightarrow> RedirectRequest \<Rightarrow> bool" where
  "assetRedirect mime w p dest \<longleftrightarrow>
     AssetAuthorized mime w (p\<lparr>paPath := rdPath dest, paQuery := EncodeValues (singleValues (rdQuery dest))\<rparr>) = Inr True"

definition fetchAsset ::
    "assetLib \<Rightarrow> mimeLib \<Rightarrow> netEnv \<Rightarrow> assetWorld \<Rightarrow> Payload \<Rightarrow> queryValues \<Rightarrow>
     (string, assetResult) result \<times> httpRequest list" where
  "fetchAsset lib mime env w p query =
     (case Do env (awRegistry w) (Some (assetRedirect mime w p)) (paConnection p)
             \<lparr>rMethod = ''GET'', rPath = paPath p, rQuery = firstValues query, rHeaders = [], rBody = None,
              rMaxResponseBytes = maxAssetBytes\<rparr> of
        (Inl e, sent) \<Rightarrow> (Inl ''request failed'', sent)
      | (Inr resp, sent) \<Rightarrow>
          if respStatusCode resp < 200 \<or> respStatusCode resp \<ge> 300 then (Inl ''upstream status'', sent)
          else (case sniffImage lib (respBody resp) of
                  None \<Rightarrow> (Inl ''upstream response is not a safe image'', sent)
                | Some ct \<Rightarrow> (Inr \<lparr>arBody = respBody resp, arContentType = ct\<rparr>, sent)))"

datatype assetResponse =
    AssetNotFound
  | AssetLookupFailed
  | AssetUnavailable
  | AssetServed "(string \<times> string) list" string

definition maxAge :: "int \<Rightarrow> int \<Rightarrow> string" where
  "maxAge now expires = FormatUint (nat (expires - now))"

definition assetHeaders :: "string \<Rightarrow> string \<Rightarrow> (string \<times> string) list" where
  "assetHeaders ct age =
     [(''Content-Type'', ct), (''Cache-Control'', ''private, max-age='' @ age @ '', immutable''),
      (''Content-Security-Policy'', ''default-src '' @ [CHR 0x27] @ ''none'' @ [CHR 0x27] @ ''; sandbox''),
      (''X-Content-Type-Options'', ''nosniff''), (''Content-Disposition'', ''inline'')]"

text \<open>What the handler reads: the key, the time in seconds, the revisions, the files, the flight and the network.\<close>

record proxyWorld =
  pwKey :: string
  pwNow :: int
  pwRevisionErr :: "string option"
  pwRevisions :: connectionState
  pwAssets :: assetWorld
  pwCache :: cacheWorld
  pwFlight :: "(string, assetResult) result option"
  pwNet :: netEnv

definition serveAsset ::
    "assetLib \<Rightarrow> mimeLib \<Rightarrow> proxyWorld \<Rightarrow> string \<Rightarrow> assetCache \<Rightarrow> assetResponse \<times> assetCache \<times> httpRequest list" where
  "serveAsset lib mime w token c =
     (case Verify lib (pwKey w) (pwNow w) token of
        None \<Rightarrow> (AssetNotFound, c, [])
      | Some p \<Rightarrow>
          (case ConnectionRevision (pwRevisionErr w) (paConnection p) (pwRevisions w) of
             Inl e \<Rightarrow> (AssetLookupFailed, c, [])
           | Inr revision \<Rightarrow>
               if revision \<noteq> Some (paRevision p) then (AssetNotFound, c, [])
               else if Canonicalise (paPath p) \<noteq> Inr (paPath p) then (AssetNotFound, c, [])
               else (case ParseQuery (paQuery p) of
                       None \<Rightarrow> (AssetNotFound, c, [])
                     | Some query \<Rightarrow>
                         if EncodeValues query \<noteq> paQuery p \<or> \<not> validTransform (paTransform p) then (AssetNotFound, c, [])
                         else if AssetAuthorized mime (pwAssets w) p \<noteq> Inr True then (AssetNotFound, c, [])
                         else (case GetOrFetch lib (pwCache w) (pwFlight w) (CacheKey lib p) (paConnection p)
                                      (fetchAsset lib mime (pwNet w) (pwAssets w) p query) c of
                                 (Inl e, c, sent) \<Rightarrow> (AssetUnavailable, c, sent)
                               | (Inr res, c, sent) \<Rightarrow>
                                   (AssetServed (assetHeaders (arContentType res) (maxAge (pwNow w) (paExpires p))) (arBody res),
                                    c, sent)))))"

section \<open>Lemmas\<close>

subsection \<open>Queries and transforms\<close>

lemma canonicalQuery_pairs:
  assumes "distinct (map fst q)"
  defines "ps \<equiv> map (\<lambda>k. (k, GetValue q k)) (sort (map fst q))"
  shows "canonicalQuery q = Join ''&'' (map encodePair ps)" "distinct (map fst ps)" "sorted (map fst ps)"
  using assms(1) by (simp_all add: canonicalQuery_def ps_def comp_def)

lemma canonicalQuery_canonical:
  assumes "distinct (map fst q)"
  shows "\<exists>q'. ParseQuery (canonicalQuery q) = Some q' \<and> EncodeValues q' = canonicalQuery q"
  unfolding canonicalQuery_pairs(1)[OF assms]
  using EncodeValues_ParseQuery[OF canonicalQuery_pairs(2,3)[OF assms]] by blast

lemma format_only_refused:
  "tfWidth t \<le> 0 \<Longrightarrow> tfFormat t \<noteq> [] \<Longrightarrow> \<not> validTransform (transformString t)"
  by (auto simp: validTransform_def transformString_def transformTexts_def)

subsection \<open>Authorisation\<close>




subsection \<open>The cache\<close>
















section \<open>An example\<close>

definition demoPayload :: Payload where
  "demoPayload = \<lparr>paV = 1, paConnection = ''c'', paRevision = ''r1'', paPath = ''/a'', paQuery = ''w=1'',
     paTransform = ''w=160'', paPlugin = ''demo@1.0.0'', paExpires = 24 * 3600\<rparr>"

definition demoLib :: assetLib where
  "demoLib = \<lparr>alMarshal = (\<lambda>_. ''body''), alUnmarshal = (\<lambda>_. Some demoPayload), alMAC = (\<lambda>_ _. ''mac''),
     alSHA256 = (\<lambda>_. replicate 32 CHR ''h''), alDetect = (\<lambda>_. ''image/png''), alImageConfig = (\<lambda>_. Some (1, 1))\<rparr>"

definition demoRoute :: ManifestRoute where
  "demoRoute = \<lparr>mrSlot = ''main'', mrMethod = ''GET'', mrPath = ''/*'', mrUse = ''asset'', mrReason = [],
     mrQueryKeys = None, mrContentType = [], mrMaxBodyKB = 0\<rparr>"

definition demoManifest :: Manifest where
  "demoManifest = \<lparr>mfID = ''demo'', mfName = ''Demo'', mfVersion = ''1.0.0'', mfRuntime = ''declarative'',
     mfCapabilities = [''assets''], mfLimits = noLimits, mfRoutes = [demoRoute], mfModuleSHA256 = [], mfDigest = ''d1''\<rparr>"

definition demoEntry :: LockEntry where
  "demoEntry = \<lparr>leManifestSHA256 = ''d1'', leModuleSHA256 = [], leVersion = ''1.0.0'', leRuntime = ''declarative'',
     leApprovedAt = 0, leApprovedBy = ''admin'', leCapabilities = [''assets''], leRoutes = [demoRoute], leLimits = None,
     leEffectiveLimits = zeroLimits\<lparr>efHostCalls := 1\<rparr>\<rparr>"

definition demoCard :: assetCard where
  "demoCard = \<lparr>asID = ''card'', asIntegration = ''demo'', asSlots = [(''main'', ''c'')]\<rparr>"

definition demoAssets :: assetWorld where
  "demoAssets = \<lparr>awSource = [''demo'' \<mapsto> ''dir''], awManifest = (\<lambda>_. Inr (Some demoManifest)),
     awLock = Inr [''demo'' \<mapsto> demoEntry], awCards = [demoCard], awRegistry = exampleRegistry\<rparr>"

definition demoWorld :: proxyWorld where
  "demoWorld = \<lparr>pwKey = ''key'', pwNow = 24 * 3600 - 5, pwRevisionErr = None,
     pwRevisions = [''c'' \<mapsto> \<lparr>rvRevision = ''r1'', rvMaterial = ''m1''\<rparr>], pwAssets = demoAssets,
     pwCache = \<lparr>cwSelect = None, cwRead = None, cwUnlink = True, cwDelete = None, cwTouch = True, cwStore = None,
       cwInsert = None, cwEvict = (\<lambda>_. \<lparr>eoTotal = None, eoSelect = None, eoUnlink = True, eoDelete = None\<rparr>), cwNow = 7\<rparr>,
     pwFlight = None, pwNet = exampleEnv\<rparr>"

definition demoToken :: string where
  "demoToken = Mint demoLib ''key'' demoPayload"



lemma demo_path: "Canonicalise ''/a'' = Inr ''/a''"
  by code_simp

lemma demo_authorised: "AssetAuthorized Capabilities.exampleMime demoAssets demoPayload = Inr True"
  by code_simp


lemma demo_verified: "Verify demoLib (pwKey demoWorld) (pwNow demoWorld) demoToken = Some demoPayload"
  unfolding demoToken_def demoWorld_def
  by (simp, rule Verify_Mint) (simp_all add: demoLib_def usablePayload_def demoPayload_def)





section \<open>Properties\<close>



text \<open>
  C29. A reference that the broker mints is accepted by the proxy as long as it has not expired, its connection
  keeps its revision and the approval stands: the broker and the proxy agree on the canonical path, on the
  canonical query and on the transforms.
\<close>

theorem minted_reference_accepted:
  assumes "AssetRef lib (pwKey w) fallback now be g slot path query t st = (Inr token, st')" "distinct (map fst query)"
    and "p = assetPayload g slot fallback canonicalPath query t (the (Slots g slot)) now" "Canonicalise path = Inr canonicalPath"
    and "alUnmarshal lib (alMarshal lib p) = Some p" "usablePayload (pwNow w) p"
    and "pwRevisionErr w = None" "map_option rvRevision (pwRevisions w (paConnection p)) = Some (paRevision p)"
    and "AssetAuthorized mime (pwAssets w) p = Inr True"
  shows "fst (serveAsset lib mime w token c) = AssetUnavailable \<or> (\<exists>hs body. fst (serveAsset lib mime w token c) = AssetServed hs body)"
proof -
  have token: "token = Mint lib (pwKey w) p" and t: "validTransform (transformString t)"
    using assms(1,3,4) by (auto simp: AssetRef_def split: prod.splits option.splits if_splits)
  have v: "Verify lib (pwKey w) (pwNow w) token = Some p" unfolding token using assms(5,6) by (rule Verify_Mint)
  have path: "Canonicalise (paPath p) = Inr (paPath p)"
    using Canonicalise_fixpoint[OF assms(4)] by (simp add: assms(3) assetPayload_def)
  obtain q where q: "ParseQuery (paQuery p) = Some q" "EncodeValues q = paQuery p"
    using canonicalQuery_canonical[OF assms(2)] by (auto simp: assms(3) assetPayload_def)
  have "paTransform p = transformString t" by (simp add: assms(3) assetPayload_def)
  then show ?thesis
    using v path q t assms(7-9) by (auto simp: serveAsset_def ConnectionRevision_def split: prod.splits sum.splits)
qed

definition demoGrant :: Grant where
  "demoGrant = grant demoManifest demoEntry demoCard exampleRegistry [''c'' \<mapsto> ''r1''] 0 [] []"

lemma minted_reference_accepted_witness:
  "fst (serveAsset demoLib Capabilities.exampleMime demoWorld demoToken (newCache 0)) \<noteq> AssetNotFound"
proof -
  define query where "query = [(''w'', [''1''])]"
  define t where "t = \<lparr>tfWidth = 160, tfFormat = []\<rparr>"
  have p: "demoPayload = assetPayload demoGrant ''main'' ''f'' ''/a'' query t (the (Slots demoGrant ''main'')) 0"
    unfolding query_def t_def by code_simp
  have "fst (checkAssetRef exampleBroker demoGrant ''main'' ''/a'' query freshBudget) = None"
    unfolding query_def by code_simp
  moreover have "validTransform (transformString t)" unfolding t_def by code_simp
  moreover have "bBudget exampleState = freshBudget" by (simp add: exampleState_def)
  ultimately obtain st where "AssetRef demoLib ''key'' ''f'' 0 exampleBroker demoGrant ''main'' ''/a'' query t exampleState =
      (Inr demoToken, st)"
    by (cases "checkAssetRef exampleBroker demoGrant ''main'' ''/a'' query freshBudget")
      (auto simp: AssetRef_def brokerAuthorize_def demo_path demoToken_def p)
  then have "AssetRef demoLib (pwKey demoWorld) ''f'' 0 exampleBroker demoGrant ''main'' ''/a'' query t exampleState =
      (Inr demoToken, st)" by (simp add: demoWorld_def)
  note minted = this
  have "distinct (map fst query)" "alUnmarshal demoLib (alMarshal demoLib demoPayload) = Some demoPayload"
      "usablePayload (pwNow demoWorld) demoPayload" "pwRevisionErr demoWorld = None"
      "map_option rvRevision (pwRevisions demoWorld (paConnection demoPayload)) = Some (paRevision demoPayload)"
      "AssetAuthorized Capabilities.exampleMime (pwAssets demoWorld) demoPayload = Inr True"
    using demo_authorised by (simp_all add: query_def demoLib_def demoWorld_def usablePayload_def demoPayload_def)
  from minted_reference_accepted[OF minted this(1) p demo_path this(2-6), of "newCache 0"] show ?thesis by auto
qed

text \<open>
  C30. Rotating a connection revokes its references: when the material of a connection changed and the drawn
  revision is a new one, no reference signed for the old revision is served any more.
\<close>

theorem rotation_revokes_references:
  assumes "SyncConnectionRevisions None draw materials old = (Inr revs, new)" "pwRevisions w = new"
    and "Verify lib (pwKey w) (pwNow w) token = Some p" "old (paConnection p) = Some row" "rvRevision row = paRevision p"
    and "materials (paConnection p) \<noteq> Some (rvMaterial row)" "draw (paConnection p) \<noteq> paRevision p"
  shows "\<not> (\<exists>hs body. fst (serveAsset lib mime w token c) = AssetServed hs body) \<and> snd (snd (serveAsset lib mime w token c)) = []"
proof -
  have "pwRevisions w (paConnection p) = map_option
      (\<lambda>mt. \<lparr>rvRevision = revisionFor old draw (paConnection p) mt, rvMaterial = mt\<rparr>) (materials (paConnection p))"
  proof -
    have "pwRevisions w = (\<lambda>cid. map_option (\<lambda>mt. \<lparr>rvRevision = revisionFor old draw cid mt, rvMaterial = mt\<rparr>) (materials cid))"
      using assms(1,2) by (auto simp: SyncConnectionRevisions_def)
    then show ?thesis by simp
  qed
  then have "map_option rvRevision (pwRevisions w (paConnection p)) \<noteq> Some (paRevision p)"
    using assms(4-7) by (auto simp: revisionFor_def Let_def)
  then show ?thesis
    using assms(3) by (auto simp: serveAsset_def ConnectionRevision_def split: option.splits)
qed

lemma rotation_revokes_references_witness:
  "\<not> (\<exists>hs body. fst (serveAsset demoLib Capabilities.exampleMime
     (demoWorld\<lparr>pwRevisions := snd (SyncConnectionRevisions None (\<lambda>_. ''r2'') [''c'' \<mapsto> ''m2''] (pwRevisions demoWorld))\<rparr>)
     demoToken (newCache 0)) = AssetServed hs body)"
proof -
  define w where "w = demoWorld\<lparr>pwRevisions := snd (SyncConnectionRevisions None (\<lambda>_. ''r2'') [''c'' \<mapsto> ''m2''] (pwRevisions demoWorld))\<rparr>"
  obtain revs new where s: "SyncConnectionRevisions None (\<lambda>_. ''r2'') [''c'' \<mapsto> ''m2''] (pwRevisions demoWorld) = (Inr revs, new)"
    by (simp add: SyncConnectionRevisions_def)
  have w: "pwRevisions w = new" "Verify demoLib (pwKey w) (pwNow w) demoToken = Some demoPayload"
    using demo_verified by (simp_all add: w_def s)
  have row: "pwRevisions demoWorld (paConnection demoPayload) = Some \<lparr>rvRevision = ''r1'', rvMaterial = ''m1''\<rparr>"
    by (simp add: demoWorld_def demoPayload_def)
  show ?thesis using rotation_revokes_references[OF s w row] by (auto simp: w_def demoPayload_def)
qed

end
