(* ===== verification/Loader.thy ===== *)
theory Loader
  imports CrossChecks
begin

text \<open>
  \<open>internal/integrations/manifestload/load.go\<close>: a manifest file becomes an executable manifest.  The
  libraries are arguments (\<open>loadLib\<close>): the YAML parser (a file becomes a tree of nodes, a node becomes the raw
  manifest), the JSON schema, the canonical digest, and the expression parser, which gives the nodes of an
  expression in the order \<open>ast.Walk\<close> visits them.

  A Go map that is iterated is an association list; the order decides only which of several errors is
  reported.  Instead of adding to a shared counter, compiling returns the number of expression nodes.
\<close>

section \<open>YAML nodes\<close>

text \<open>
  A scalar has its text and what it decodes to (\<open>None\<close> when decoding fails).  The content of a mapping is a
  list that alternates keys and values, as in \<open>yaml.Node\<close>.
\<close>

datatype yamlNode =
    YScalar string "doc option"
  | YSeq "yamlNode list"
  | YMap "yamlNode list"
  | YAlias

fun nodeText :: "yamlNode \<Rightarrow> string" where
  "nodeText (YScalar v d) = v"
| "nodeText _ = []"

datatype visited =
    VIdentifier string
  | VBinary string
  | VCall "string option"
  | VSupported
  | VOther

datatype loadError =
    ReadFailed string
  | ManifestTooLarge
  | YAMLFailed string
  | EmptyManifest
  | AliasForbidden
  | DuplicateKey string
  | YAMLTooLarge
  | SchemaFailed string
  | DecodeFailed string
  | DigestFailed string
  | UnsupportedNode
  | ExprFailed string
  | ForbiddenIdentifier string
  | MatchesUnsupported
  | CallUnsupported
  | NodeUnsupported
  | ExprTooLarge nat nat
  | HTTPUndeclared
  | SlotUndeclared string
  | PathNotLiteral
  | PathNotString
  | TemplateRefused template_error
  | ParamMissing string
  | ParamType string
  | ParamOptional string
  | RouteMissing string string
  | AssetsUndeclared
  | AssetSlot string
  | AssetPathNotString
  | AssetPathRefused routepath_error
  | AssetRouteMissing string
  | SignalUndeclared string
  | OperationExprs string nat
  | OutputTooLarge string
  | ManifestExprs nat
  | LiteralsTooLarge

section \<open>Bounds on the YAML tree\<close>

definition duplicateKey :: "string list \<Rightarrow> string option" where
  "duplicateKey ks = find (\<lambda>k. count_list ks k > 1) ks"

fun pairsOf :: "yamlNode list \<Rightarrow> (string \<times> yamlNode) list" where
  "pairsOf (k # v # rest) = (nodeText k, v) # pairsOf rest"
| "pairsOf _ = []"

fun walkYAML :: "nat \<Rightarrow> yamlNode \<Rightarrow> nat \<times> nat \<Rightarrow> (loadError, nat \<times> nat) result"
and walkContent :: "nat \<Rightarrow> yamlNode list \<Rightarrow> nat \<times> nat \<Rightarrow> (loadError, nat \<times> nat) result" where
  "walkYAML d (YScalar v x) s = Inr (Suc (fst s), max d (snd s))"
| "walkYAML d (YSeq ns) s = walkContent (Suc d) ns (Suc (fst s), max d (snd s))"
| "walkYAML d (YMap ns) s =
     (case duplicateKey (map fst (pairsOf ns)) of
        Some k \<Rightarrow> Inl (DuplicateKey k)
      | None \<Rightarrow> walkContent (Suc d) ns (Suc (fst s), max d (snd s)))"
| "walkYAML d YAlias s = Inl AliasForbidden"
| "walkContent d [] s = Inr s"
| "walkContent d (n # ns) s = (case walkYAML d n s of Inl e \<Rightarrow> Inl e | Inr s \<Rightarrow> walkContent d ns s)"

section \<open>Expressions\<close>

record Expression =
  exSource :: string
  exNodes :: nat

type_synonym exprParser = "string \<Rightarrow> (string, visited list) result"

definition CoreFunctions :: "string list" where
  "CoreFunctions = [''fromUnix'', ''unix'']"

definition visitNode :: "visited \<Rightarrow> loadError option" where
  "visitNode n =
     (case n of
        VIdentifier v \<Rightarrow> if v = ''$env'' \<or> HasPrefix v ''__'' then Some (ForbiddenIdentifier v) else None
      | VBinary opr \<Rightarrow> if opr = ''matches'' then Some MatchesUnsupported else None
      | VCall callee \<Rightarrow>
          (case callee of
             None \<Rightarrow> Some CallUnsupported
           | Some f \<Rightarrow> if f \<notin> set CoreFunctions then Some CallUnsupported else None)
      | VSupported \<Rightarrow> None
      | VOther \<Rightarrow> Some NodeUnsupported)"

text \<open>The visitor: the number of nodes, and the last error.\<close>

definition visitAll :: "visited list \<Rightarrow> nat \<times> loadError option" where
  "visitAll ns = fold (\<lambda>n (c, e). (Suc c, case visitNode n of None \<Rightarrow> e | Some x \<Rightarrow> Some x)) ns (0, None)"

definition compileExprSource :: "exprParser \<Rightarrow> nat \<Rightarrow> string \<Rightarrow> (loadError, Expression) result" where
  "compileExprSource parse mx src =
     (case parse src of
        Inl e \<Rightarrow> Inl (ExprFailed e)
      | Inr nodes \<Rightarrow>
          (case visitAll nodes of
             (c, Some e) \<Rightarrow> Inl e
           | (c, None) \<Rightarrow> if c > mx then Inl (ExprTooLarge c mx) else Inr \<lparr>exSource = src, exNodes = c\<rparr>))"

text \<open>A string field of a mapping that is decoded to a struct: a missing or null field is empty.\<close>

definition lookupNode :: "string \<Rightarrow> yamlNode list \<Rightarrow> yamlNode option" where
  "lookupNode k ns = map_of (rev (pairsOf ns)) k"

definition isNull :: "yamlNode \<Rightarrow> bool" where
  "isNull n = (case n of YScalar v (Some DNull) \<Rightarrow> True | _ \<Rightarrow> False)"

definition textField :: "string \<Rightarrow> yamlNode list \<Rightarrow> (loadError, string) result" where
  "textField k m =
     (case lookupNode k m of
        None \<Rightarrow> Inr []
      | Some n \<Rightarrow> if isNull n then Inr [] else (case n of YScalar v _ \<Rightarrow> Inr v | _ \<Rightarrow> Inl (DecodeFailed k)))"

definition compileExprNode :: "exprParser \<Rightarrow> nat \<Rightarrow> yamlNode \<Rightarrow> (loadError, Expression) result" where
  "compileExprNode parse mx n =
     (case n of
        YMap m \<Rightarrow> (case textField ''expr'' m of Inl e \<Rightarrow> Inl e | Inr src \<Rightarrow> compileExprSource parse mx src)
      | _ \<Rightarrow> if isNull n then compileExprSource parse mx [] else Inl (DecodeFailed ''expr''))"

section \<open>Templates\<close>

datatype TemplateNode =
    TLiteral doc
  | TObject "(string \<times> TemplateNode) list"
  | TArray "TemplateNode list"
  | TExpr Expression
  | TAsset string "TemplateNode option" "(string \<times> TemplateNode option) list" string
  | TEach Expression string TemplateNode
  | TCond Expression TemplateNode

text \<open>The node below a key, as an unmarshaler sees it: nothing when it is missing or null.\<close>

definition childNode :: "string \<Rightarrow> yamlNode list \<Rightarrow> yamlNode option" where
  "childNode k ns = (case lookupNode k ns of None \<Rightarrow> None | Some n \<Rightarrow> if isNull n then None else Some n)"

definition optionNode :: "yamlNode \<Rightarrow> yamlNode option" where
  "optionNode n = (if isNull n then None else Some n)"

record rawAsset =
  raSlot :: string
  raTransform :: string
  raPath :: "yamlNode option"
  raQuery :: "(string \<times> yamlNode option) list"

definition decodeAsset :: "yamlNode \<Rightarrow> (loadError, rawAsset) result" where
  "decodeAsset n =
     (case n of
        YMap ns \<Rightarrow>
          (case (textField ''slot'' ns, textField ''transform'' ns, childNode ''query'' ns) of
             (Inr slot, Inr tr, None) \<Rightarrow> Inr \<lparr>raSlot = slot, raTransform = tr, raPath = childNode ''path'' ns, raQuery = []\<rparr>
           | (Inr slot, Inr tr, Some (YMap qs)) \<Rightarrow>
               Inr \<lparr>raSlot = slot, raTransform = tr, raPath = childNode ''path'' ns,
                    raQuery = map (\<lambda>(k, v). (k, optionNode v)) (pairsOf qs)\<rparr>
           | _ \<Rightarrow> Inl (DecodeFailed ''asset''))
      | _ \<Rightarrow> if isNull n then Inr \<lparr>raSlot = [], raTransform = [], raPath = None, raQuery = []\<rparr> else Inl (DecodeFailed ''asset''))"

lemma member_size: "n \<in> set ns \<Longrightarrow> size n < Suc (size_list size ns)"
  by (induction ns) auto

lemma pairsOf_member: "(k, v) \<in> set (pairsOf ns) \<Longrightarrow> v \<in> set ns"
  by (induction ns rule: pairsOf.induct) auto

lemma lookupNode_member: "lookupNode k ns = Some v \<Longrightarrow> v \<in> set ns"
  using pairsOf_member by (fastforce simp: lookupNode_def dest: map_of_SomeD)

lemma childNode_member: "childNode k ns = Some v \<Longrightarrow> v \<in> set ns"
  by (auto simp: childNode_def lookupNode_member split: option.splits if_splits)

lemma decodeAsset_smaller:
  assumes "decodeAsset a = Inr ra"
  shows "raPath ra = Some n \<Longrightarrow> size n < size a" and "(k, Some n) \<in> set (raQuery ra) \<Longrightarrow> size n < size a"
proof -
  show "size n < size a" if "raPath ra = Some n"
    using assms that member_size childNode_member
    by (fastforce simp: decodeAsset_def split: yamlNode.splits sum.splits option.splits if_splits)
  show "size n < size a" if q: "(k, Some n) \<in> set (raQuery ra)"
  proof -
    obtain ns qs where a: "a = YMap ns" "childNode ''query'' ns = Some (YMap qs)" "(k, n) \<in> set (pairsOf qs)"
      using assms q by (auto simp: decodeAsset_def optionNode_def split: yamlNode.splits sum.splits option.splits if_splits)
    have "size n < Suc (size_list size qs)" using pairsOf_member[OF a(3)] by (rule member_size)
    moreover have "size (YMap qs) < Suc (size_list size ns)" using childNode_member[OF a(2)] by (rule member_size)
    ultimately show ?thesis by (simp add: a(1))
  qed
qed

lemma map_result_cong [fundef_cong]:
  "xs = ys \<Longrightarrow> (\<And>x. x \<in> set ys \<Longrightarrow> f x = g x) \<Longrightarrow> map_result f xs = map_result g ys"
  by (induction ys arbitrary: xs) (auto split: sum.splits)

definition keyCount :: "yamlNode list \<Rightarrow> nat" where
  "keyCount ns = length (remdups (map fst (pairsOf ns)))"

lemma lookup_size: "lookupNode k ns = Some v \<Longrightarrow> size v < Suc (size_list size ns)"
  by (rule member_size) (rule lookupNode_member)

lemma pair_size: "p \<in> set (pairsOf ns) \<Longrightarrow> size (snd p) < Suc (size_list size ns)"
  by (cases p) (auto intro: member_size pairsOf_member)

lemma asset_sizes:
  "decodeAsset a = Inr ra \<Longrightarrow> lookupNode k ns = Some a \<Longrightarrow> raPath ra = Some n \<Longrightarrow> size n < Suc (size_list size ns)"
  "decodeAsset a = Inr ra \<Longrightarrow> lookupNode k ns = Some a \<Longrightarrow> q \<in> set (raQuery ra) \<Longrightarrow> snd q = Some n \<Longrightarrow> size n < Suc (size_list size ns)"
  using decodeAsset_smaller lookup_size by (fastforce, metis less_trans prod.collapse)

function compileTemplate :: "exprParser \<Rightarrow> nat \<Rightarrow> yamlNode \<Rightarrow> (loadError, TemplateNode \<times> nat) result"
and compileBranch :: "exprParser \<Rightarrow> nat \<Rightarrow> yamlNode list \<Rightarrow> (loadError, TemplateNode \<times> nat) result" where
  "compileTemplate parse mx (YScalar v d) =
     (case d of None \<Rightarrow> Inl (DecodeFailed v) | Some x \<Rightarrow> Inr (TLiteral x, 0))"
| "compileTemplate parse mx (YSeq ns) =
     (case map_result (compileTemplate parse mx) ns of
        Inl e \<Rightarrow> Inl e
      | Inr xs \<Rightarrow> Inr (TArray (map fst xs), sum_list (map snd xs)))"
| "compileTemplate parse mx (YMap ns) =
     (case (lookupNode ''expr'' ns, lookupNode ''asset'' ns) of
        (Some e, _) \<Rightarrow>
          if keyCount ns = 1
          then (case compileExprNode parse mx (YMap ns) of Inl e \<Rightarrow> Inl e | Inr x \<Rightarrow> Inr (TExpr x, exNodes x))
          else compileBranch parse mx ns
      | (None, Some a) \<Rightarrow>
          if keyCount ns = 1
          then (case decodeAsset a of
                  Inl e \<Rightarrow> Inl e
                | Inr ra \<Rightarrow>
                    (case (case raPath ra of
                             None \<Rightarrow> Inr (None, 0)
                           | Some n \<Rightarrow> (case compileTemplate parse mx n of Inl e \<Rightarrow> Inl e | Inr (t, c) \<Rightarrow> Inr (Some t, c))) of
                       Inl e \<Rightarrow> Inl e
                     | Inr (path, c) \<Rightarrow>
                         (case map_result (\<lambda>kv. case snd kv of
                                  None \<Rightarrow> Inr ((fst kv, None), 0)
                                | Some n \<Rightarrow> (case compileTemplate parse mx n of Inl e \<Rightarrow> Inl e | Inr (t, c) \<Rightarrow> Inr ((fst kv, Some t), c)))
                                (raQuery ra) of
                            Inl e \<Rightarrow> Inl e
                          | Inr qs \<Rightarrow> Inr (TAsset (raSlot ra) path (map fst qs) (raTransform ra), c + sum_list (map snd qs)))))
          else compileBranch parse mx ns
      | (None, None) \<Rightarrow> compileBranch parse mx ns)"
| "compileTemplate parse mx YAlias = Inl UnsupportedNode"
| "compileBranch parse mx ns =
     (case (lookupNode ''if'' ns, lookupNode ''then'' ns, keyCount ns = 2) of
        (Some i, Some th, True) \<Rightarrow>
          (case compileExprNode parse mx i of
             Inl e \<Rightarrow> Inl e
           | Inr x \<Rightarrow>
               (case compileTemplate parse mx th of
                  Inl e \<Rightarrow> Inl e
                | Inr (t, c) \<Rightarrow> Inr (TCond x t, exNodes x + c)))
      | _ \<Rightarrow>
          (case (lookupNode ''each'' ns, lookupNode ''as'' ns, lookupNode ''item'' ns, keyCount ns = 3) of
             (Some e, Some a, Some it, True) \<Rightarrow>
               (case compileExprNode parse mx e of
                  Inl e \<Rightarrow> Inl e
                | Inr x \<Rightarrow>
                    (case compileTemplate parse mx it of
                       Inl e \<Rightarrow> Inl e
                     | Inr (t, c) \<Rightarrow> Inr (TEach x (nodeText a) t, exNodes x + c)))
           | _ \<Rightarrow>
               (case map_result (\<lambda>kv. case compileTemplate parse mx (snd kv) of Inl e \<Rightarrow> Inl e | Inr (t, c) \<Rightarrow> Inr ((fst kv, t), c))
                       (pairsOf ns) of
                  Inl e \<Rightarrow> Inl e
                | Inr xs \<Rightarrow> Inr (TObject (map fst xs), sum_list (map snd xs)))))"
  by pat_completeness auto

termination
  by (relation "measure (case_sum (\<lambda>(p, m, n). 2 * size n) (\<lambda>(p, m, ns). Suc (2 * size_list size ns)))")
    (auto dest: lookup_size asset_sizes pair_size member_size lookup_size[OF sym])

section \<open>The manifest\<close>

record SlotSpec =
  ssName :: string
  ssKind :: string
  ssRequired :: bool

record SignalDecl =
  sdName :: string
  sdType :: string
  sdUnit :: string
  sdHistory :: bool

text \<open>\<open>RequestDef\<close> with its body; the form of a body is \<open>Inr\<close>.\<close>

type_synonym templateMap = "(string \<times> TemplateNode option) list"

record RequestDef =
  qdSlot :: string
  qdMethod :: string
  qdPath :: "TemplateNode option"
  qdTemplate :: "Template option"
  qdQuery :: templateMap
  qdHeaders :: templateMap
  qdBody :: "(TemplateNode option, templateMap) result option"

record PipelineStep =
  psAs :: string
  psWhen :: "Expression option"
  psRequest :: RequestDef

record OperationDef =
  odID :: string
  odName :: string
  odDefaultRefresh :: string
  odParams :: doc
  odRoutes :: "ManifestRoute list"
  odSignals :: "SignalDecl list"
  odPipeline :: "PipelineStep list"
  odOutput :: "TemplateNode option"

record PluginManifest =
  pmPath :: string
  pmDigest :: string
  pmID :: string
  pmName :: string
  pmVersion :: string
  pmRuntime :: string
  pmModule :: string
  pmModuleSHA256 :: string
  pmCapabilities :: "string list"
  pmSlots :: "SlotSpec list"
  pmLimits :: EffectiveLimits
  pmOperations :: "OperationDef list"

definition defaultTo :: "int \<Rightarrow> int \<Rightarrow> int" where
  "defaultTo v d = (if v = 0 then d else v)"

definition WithDefaults :: "EffectiveLimits \<Rightarrow> EffectiveLimits" where
  "WithDefaults l =
     \<lparr>efMemoryMB = defaultTo (efMemoryMB l) 64, efTimeoutMs = defaultTo (efTimeoutMs l) 3000,
      efOutputKB = defaultTo (efOutputKB l) 64, efHTTPRequests = defaultTo (efHTTPRequests l) 8,
      efResponseMB = defaultTo (efResponseMB l) 4, efCacheEntries = defaultTo (efCacheEntries l) 64,
      efInputMB = defaultTo (efInputMB l) 4, efJSONDepth = defaultTo (efJSONDepth l) 32,
      efJSONNodes = defaultTo (efJSONNodes l) 200000, efExprNodes = defaultTo (efExprNodes l) 512,
      efIterations = defaultTo (efIterations l) 20000, efRequestBodyKB = defaultTo (efRequestBodyKB l) 64,
      efHostCalls = defaultTo (efHostCalls l) 256, efCacheBytesKB = defaultTo (efCacheBytesKB l) 256\<rparr>"

section \<open>Checks on requests\<close>

fun firstSome :: "'a option list \<Rightarrow> 'a option" where
  "firstSome [] = None"
| "firstSome (Some e # xs) = Some e"
| "firstSome (None # xs) = firstSome xs"

lemma firstSome_None: "firstSome xs = None \<longleftrightarrow> set xs \<subseteq> {None}"
  by (induction xs rule: firstSome.induct) auto

definition hasCapability :: "PluginManifest \<Rightarrow> string \<Rightarrow> bool" where
  "hasCapability m want \<longleftrightarrow> want \<in> set (pmCapabilities m)"

definition placeholderParam :: "OperationDef \<Rightarrow> string \<Rightarrow> loadError option" where
  "placeholderParam op name =
     (let schema = asMap (odParams op); props = mapOf schema ''properties'' in
      case field props name of
        DMap prop \<Rightarrow>
          if strOf prop ''type'' \<noteq> ''string'' \<and> strOf prop ''type'' \<noteq> ''integer'' then Some (ParamType name)
          else if map_of prop ''default'' \<noteq> None then None
          else if DStr name \<in> set (sliceOf schema ''required'') then None
          else Some (ParamOptional name)
      | _ \<Rightarrow> Some (ParamMissing name))"

definition routeCoversRequest :: "ManifestRoute \<Rightarrow> RequestDef \<Rightarrow> bool" where
  "routeCoversRequest r req \<longleftrightarrow>
     (case mrQueryKeys r of None \<Rightarrow> True | Some keys \<Rightarrow> fst ` set (qdQuery req) \<subseteq> set keys) \<and>
     (case qdBody req of
        None \<Rightarrow> True
      | Some b \<Rightarrow>
          let want = (case b of Inl _ \<Rightarrow> ''application/json'' | Inr _ \<Rightarrow> ''application/x-www-form-urlencoded'') in
          mrContentType r = [] \<or> HasPrefix (map lower_byte (mrContentType r)) want)"

definition coveringRoute :: "RequestDef \<Rightarrow> Template \<Rightarrow> ManifestRoute \<Rightarrow> bool" where
  "coveringRoute r tpl rt \<longleftrightarrow>
     mrSlot rt = qdSlot r \<and> mrMethod rt = qdMethod r \<and> (mrUse rt = [] \<or> mrUse rt = ''data'') \<and>
     CoveredBy tpl (mrPath rt) \<and> routeCoversRequest rt r"

text \<open>\<open>validateRequest\<close> also stores the parsed path.\<close>

definition validateRequest :: "PluginManifest \<Rightarrow> OperationDef \<Rightarrow> RequestDef \<Rightarrow> (loadError, RequestDef) result" where
  "validateRequest m op r =
     (if \<not> hasCapability m ''http'' then Inl HTTPUndeclared
      else if qdSlot r \<notin> ssName ` set (pmSlots m) then Inl (SlotUndeclared (qdSlot r))
      else case qdPath r of
             Some (TLiteral (DStr p)) \<Rightarrow>
               (case ParseTemplate p of
                  Inl e \<Rightarrow> Inl (TemplateRefused e)
                | Inr tpl \<Rightarrow>
                    (case firstSome (map (placeholderParam op) (Placeholders tpl)) of
                       Some e \<Rightarrow> Inl e
                     | None \<Rightarrow>
                         if list_ex (coveringRoute r tpl) (odRoutes op) then Inr (r\<lparr>qdTemplate := Some tpl\<rparr>)
                         else Inl (RouteMissing (qdMethod r) p)))
           | Some (TLiteral _) \<Rightarrow> Inl PathNotString
           | _ \<Rightarrow> Inl PathNotLiteral)"

section \<open>Checks on the output\<close>

definition assetRouteCovers :: "string \<Rightarrow> string \<Rightarrow> ManifestRoute \<Rightarrow> bool" where
  "assetRouteCovers slot cp r \<longleftrightarrow>
     (case Canonicalise (mrPath r) of
        Inl _ \<Rightarrow> False
      | Inr rp \<Rightarrow> mrSlot r = slot \<and> mrUse r = ''asset'' \<and> mrMethod r = ''GET'' \<and> Match rp cp)"

definition validateAsset :: "PluginManifest \<Rightarrow> OperationDef \<Rightarrow> string \<Rightarrow> TemplateNode option \<Rightarrow> loadError option" where
  "validateAsset m op slot path =
     (if \<not> hasCapability m ''assets'' then Some AssetsUndeclared
      else if slot \<notin> ssName ` set (pmSlots m) then Some (AssetSlot slot)
      else case path of
             Some (TLiteral (DStr p)) \<Rightarrow>
               (case Canonicalise p of
                  Inl e \<Rightarrow> Some (AssetPathRefused e)
                | Inr cp \<Rightarrow> if list_ex (assetRouteCovers slot cp) (odRoutes op) then None else Some (AssetRouteMissing p))
           | Some (TLiteral _) \<Rightarrow> Some AssetPathNotString
           | _ \<Rightarrow> None)"

fun validateNode :: "PluginManifest \<Rightarrow> OperationDef \<Rightarrow> TemplateNode \<Rightarrow> loadError option" where
  "validateNode m op (TLiteral _) = None"
| "validateNode m op (TExpr _) = None"
| "validateNode m op (TAsset slot path query tr) = validateAsset m op slot path"
| "validateNode m op (TEach _ _ item) = validateNode m op item"
| "validateNode m op (TCond _ th) = validateNode m op th"
| "validateNode m op (TObject fs) = firstSome (map (\<lambda>kv. validateNode m op (snd kv)) fs)"
| "validateNode m op (TArray ts) = firstSome (map (validateNode m op) ts)"

definition undeclaredSignals :: "OperationDef \<Rightarrow> TemplateNode \<Rightarrow> string list" where
  "undeclaredSignals op t =
     (case t of
        TObject fs \<Rightarrow>
          (case map_of fs ''signals'' of
             Some (TObject ss) \<Rightarrow> filter (\<lambda>n. n \<notin> sdName ` set (odSignals op)) (map fst ss)
           | _ \<Rightarrow> [])
      | _ \<Rightarrow> [])"

definition validateOutput :: "PluginManifest \<Rightarrow> OperationDef \<Rightarrow> TemplateNode option \<Rightarrow> loadError option" where
  "validateOutput m op outp =
     (case outp of
        None \<Rightarrow> None
      | Some t \<Rightarrow>
          (case validateNode m op t of
             Some e \<Rightarrow> Some e
           | None \<Rightarrow> (case undeclaredSignals op t of [] \<Rightarrow> None | n # _ \<Rightarrow> Some (SignalUndeclared n))))"

section \<open>Loading\<close>

record templateStats =
  tsNodes :: nat
  tsDepth :: nat
  tsLiteralBytes :: nat

fun countTemplate :: "nat \<Rightarrow> TemplateNode \<Rightarrow> templateStats \<Rightarrow> templateStats"
and countFields :: "nat \<Rightarrow> (string \<times> TemplateNode) list \<Rightarrow> templateStats \<Rightarrow> templateStats"
and countItems :: "nat \<Rightarrow> TemplateNode list \<Rightarrow> templateStats \<Rightarrow> templateStats"
and countMaybe :: "nat \<Rightarrow> TemplateNode option \<Rightarrow> templateStats \<Rightarrow> templateStats"
and countQuery :: "nat \<Rightarrow> (string \<times> TemplateNode option) list \<Rightarrow> templateStats \<Rightarrow> templateStats" where
  "countTemplate d t s0 =
     (let s = s0\<lparr>tsNodes := Suc (tsNodes s0), tsDepth := max d (tsDepth s0)\<rparr> in
      case t of
        TLiteral l \<Rightarrow> (case l of DStr x \<Rightarrow> s\<lparr>tsLiteralBytes := tsLiteralBytes s + length x\<rparr> | _ \<Rightarrow> s)
      | TObject fs \<Rightarrow> countFields (Suc d) fs s
      | TArray ts \<Rightarrow> countItems (Suc d) ts s
      | TExpr _ \<Rightarrow> s
      | TEach _ _ item \<Rightarrow> countTemplate (Suc d) item s
      | TCond _ th \<Rightarrow> countTemplate (Suc d) th s
      | TAsset _ path query _ \<Rightarrow> countQuery (Suc d) query (countMaybe (Suc d) path s))"
| "countFields d [] s = s"
| "countFields d (kv # fs) s = countFields d fs (countTemplate d (snd kv) s)"
| "countItems d [] s = s"
| "countItems d (t # ts) s = countItems d ts (countTemplate d t s)"
| "countMaybe d None s = s"
| "countMaybe d (Some t) s = countTemplate d t s"
| "countQuery d [] s = s"
| "countQuery d (kv # fs) s = countQuery d fs (countMaybe d (snd kv) s)"

text \<open>The raw manifest, as the YAML library decodes it.  A node that is missing or null is \<open>None\<close>.\<close>

type_synonym nodeMap = "(string \<times> yamlNode option) list"

record rawRequest =
  ryqSlot :: string
  ryqMethod :: string
  ryqPath :: "yamlNode option"
  ryqQuery :: nodeMap
  ryqHeaders :: nodeMap
  ryqBody :: "(yamlNode option \<times> nodeMap option) option"

record rawStep =
  rysAs :: string
  rysWhen :: "yamlNode option"
  rysRequest :: rawRequest

record rawOperation =
  ryoID :: string
  ryoName :: string
  ryoDefaultRefresh :: string
  ryoParams :: doc
  ryoRoutes :: "ManifestRoute list"
  ryoSignals :: "SignalDecl list"
  ryoPipeline :: "rawStep list"
  ryoOutput :: "yamlNode option"

record rawManifest =
  rymID :: string
  rymName :: string
  rymVersion :: string
  rymRuntime :: string
  rymModule :: string
  rymSHA256 :: string
  rymCapabilities :: "string list"
  rymSlots :: "(string \<times> string \<times> bool option) list"
  rymLimits :: EffectiveLimits
  rymOperations :: "rawOperation list"

record loadLib =
  llYAML :: "string \<Rightarrow> (string, yamlNode option) result"
  llSchema :: "yamlNode \<Rightarrow> (string, unit) result"
  llDecode :: "yamlNode \<Rightarrow> (string, rawManifest) result"
  llDigest :: "string \<Rightarrow> string \<Rightarrow> (string, string) result"
  llParse :: exprParser

definition compileMaybe :: "exprParser \<Rightarrow> nat \<Rightarrow> yamlNode option \<Rightarrow> (loadError, TemplateNode option \<times> nat) result" where
  "compileMaybe parse mx n =
     (case n of None \<Rightarrow> Inr (None, 0) | Some n \<Rightarrow> map_sum id (apfst Some) (compileTemplate parse mx n))"

definition compileMap :: "exprParser \<Rightarrow> nat \<Rightarrow> nodeMap \<Rightarrow> (loadError, templateMap \<times> nat) result" where
  "compileMap parse mx m =
     map_sum id (\<lambda>xs. (map fst xs, sum_list (map snd xs)))
       (map_result (\<lambda>kv. map_sum id (apfst (Pair (fst kv))) (compileMaybe parse mx (snd kv))) m)"

definition compileBody ::
    "exprParser \<Rightarrow> nat \<Rightarrow> (yamlNode option \<times> nodeMap option) option \<Rightarrow>
     (loadError, (TemplateNode option, templateMap) result option \<times> nat) result" where
  "compileBody parse mx b =
     (case b of
        None \<Rightarrow> Inr (None, 0)
      | Some (Some json, _) \<Rightarrow> map_sum id (apfst (\<lambda>t. Some (Inl t))) (compileMaybe parse mx (Some json))
      | Some (None, None) \<Rightarrow> Inr (Some (Inl None), 0)
      | Some (None, Some form) \<Rightarrow> map_sum id (apfst (\<lambda>f. Some (Inr f))) (compileMap parse mx form))"

definition andThen :: "('e, 'a) result \<Rightarrow> ('a \<Rightarrow> ('e, 'b) result) \<Rightarrow> ('e, 'b) result" where
  "andThen r f = (case r of Inl e \<Rightarrow> Inl e | Inr a \<Rightarrow> f a)"

definition compileWhen :: "exprParser \<Rightarrow> nat \<Rightarrow> yamlNode option \<Rightarrow> (loadError, Expression option \<times> nat) result" where
  "compileWhen parse mx n =
     (case n of None \<Rightarrow> Inr (None, 0) | Some n \<Rightarrow> map_sum id (\<lambda>x. (Some x, exNodes x)) (compileExprNode parse mx n))"

text \<open>One step of a pipeline, and the expression nodes it adds.\<close>

definition compileStep ::
    "exprParser \<Rightarrow> PluginManifest \<Rightarrow> OperationDef \<Rightarrow> rawStep \<Rightarrow> (loadError, PipelineStep \<times> nat) result" where
  "compileStep parse m op st =
     (let mx = nat (efExprNodes (pmLimits m)); rq = rysRequest st in
      andThen (compileWhen parse mx (rysWhen st)) (\<lambda>(w, c0).
      andThen (compileMaybe parse mx (ryqPath rq)) (\<lambda>(path, c1).
      andThen (compileMap parse mx (ryqQuery rq)) (\<lambda>(query, c2).
      andThen (compileMap parse mx (ryqHeaders rq)) (\<lambda>(headers, c3).
      andThen (compileBody parse mx (ryqBody rq)) (\<lambda>(body, c4).
      andThen (validateRequest m op
          \<lparr>qdSlot = ryqSlot rq, qdMethod = (if ryqMethod rq = [] then ''GET'' else ryqMethod rq), qdPath = path,
           qdTemplate = None, qdQuery = query, qdHeaders = headers, qdBody = body\<rparr>) (\<lambda>req.
      Inr (\<lparr>psAs = rysAs st, psWhen = w, psRequest = req\<rparr>, c0 + c1 + c2 + c3 + c4))))))))"

text \<open>One operation: the definition, its expression nodes, and the literal bytes of its output.\<close>

definition compileOperation ::
    "exprParser \<Rightarrow> PluginManifest \<Rightarrow> rawOperation \<Rightarrow> (loadError, OperationDef \<times> nat \<times> nat) result" where
  "compileOperation parse m o1 =
     (let op = \<lparr>odID = ryoID o1, odName = ryoName o1, odDefaultRefresh = ryoDefaultRefresh o1, odParams = ryoParams o1,
                odRoutes = ryoRoutes o1, odSignals = ryoSignals o1, odPipeline = [], odOutput = None\<rparr> in
      andThen (map_result (compileStep parse m op) (ryoPipeline o1)) (\<lambda>steps.
      andThen (compileMaybe parse (nat (efExprNodes (pmLimits m))) (ryoOutput o1)) (\<lambda>(outp, c).
      let total = sum_list (map snd steps) + c;
          op = op\<lparr>odPipeline := map fst steps, odOutput := outp\<rparr>;
          ts = countMaybe 1 outp \<lparr>tsNodes = 0, tsDepth = 0, tsLiteralBytes = 0\<rparr> in
      if total > 4096 then Inl (OperationExprs (odID op) total)
      else if tsNodes ts > 4096 \<or> tsDepth ts > 24 then Inl (OutputTooLarge (odID op))
      else case validateOutput m op outp of
             Some e \<Rightarrow> Inl e
           | None \<Rightarrow> Inr (op, total, tsLiteralBytes ts))))"

definition maxManifestBytes :: int where
  "maxManifestBytes = 256 * 1024"

definition emptyPlugin :: "string \<Rightarrow> string \<Rightarrow> rawManifest \<Rightarrow> PluginManifest" where
  "emptyPlugin path digest d =
     \<lparr>pmPath = path, pmDigest = digest, pmID = rymID d, pmName = rymName d, pmVersion = rymVersion d,
      pmRuntime = rymRuntime d, pmModule = rymModule d, pmModuleSHA256 = rymSHA256 d, pmCapabilities = rymCapabilities d,
      pmSlots = map (\<lambda>(name, kind, required). \<lparr>ssName = name, ssKind = kind,
        ssRequired = (case required of None \<Rightarrow> True | Some b \<Rightarrow> b)\<rparr>) (rymSlots d),
      pmLimits = WithDefaults (rymLimits d), pmOperations = []\<rparr>"

definition checkYAML :: "yamlNode \<Rightarrow> (loadError, unit) result" where
  "checkYAML n =
     (case walkYAML 1 n (0, 0) of
        Inl e \<Rightarrow> Inl e
      | Inr (nodes, depth) \<Rightarrow> if nodes > 20000 \<or> depth > 32 then Inl YAMLTooLarge else Inr ())"

definition loadBytes :: "loadLib \<Rightarrow> string \<Rightarrow> string \<Rightarrow> string \<Rightarrow> (loadError, PluginManifest) result" where
  "loadBytes lib path ext rw =
     (if int (length rw) > maxManifestBytes then Inl ManifestTooLarge
      else case llYAML lib rw of
        Inl e \<Rightarrow> Inl (YAMLFailed e)
      | Inr None \<Rightarrow> Inl EmptyManifest
      | Inr (Some content) \<Rightarrow>
          andThen (checkYAML content) (\<lambda>_.
          andThen (map_sum SchemaFailed id (llSchema lib content)) (\<lambda>_.
          andThen (map_sum DecodeFailed id (llDecode lib content)) (\<lambda>d.
          andThen (map_sum DigestFailed id (llDigest lib rw ext)) (\<lambda>digest.
          let m = emptyPlugin path digest d in
          andThen (map_result (compileOperation (llParse lib) m) (rymOperations d)) (\<lambda>ops.
          let exprs = sum_list (map (fst \<circ> snd) ops); literals = sum_list (map (snd \<circ> snd) ops) in
          if exprs > 32768 then Inl (ManifestExprs exprs)
          else if literals > 64 * 1024 then Inl LiteralsTooLarge
          else Inr (m\<lparr>pmOperations := map fst ops\<rparr>)))))))"

text \<open>
  A file is what opening and reading it gives.  At most one byte more than the bound is read, so that a file
  above the bound is noticed and never cut to a prefix.
\<close>

definition readBoundedFile :: "(string, string) result \<Rightarrow> int \<Rightarrow> (loadError, string) result" where
  "readBoundedFile file maxBytes =
     (case file of
        Inl e \<Rightarrow> Inl (ReadFailed e)
      | Inr content \<Rightarrow>
          (let rw = take (nat (maxBytes + 1)) content in
           if int (length rw) > maxBytes then Inl ManifestTooLarge else Inr rw))"

definition Load :: "loadLib \<Rightarrow> string \<Rightarrow> string \<Rightarrow> (string, string) result \<Rightarrow> (loadError, PluginManifest) result" where
  "Load lib path ext file =
     (case readBoundedFile file maxManifestBytes of Inl e \<Rightarrow> Inl e | Inr rw \<Rightarrow> loadBytes lib path ext rw)"

section \<open>Lemmas\<close>

lemma andThen_Inr: "andThen r f = Inr b \<longleftrightarrow> (\<exists>a. r = Inr a \<and> f a = Inr b)"
  by (auto simp: andThen_def split: sum.splits)

subsection \<open>Expressions\<close>

text \<open>An expression within its bound whose nodes are all supported.\<close>

definition goodExpr :: "exprParser \<Rightarrow> nat \<Rightarrow> Expression \<Rightarrow> bool" where
  "goodExpr parse mx e \<longleftrightarrow> (\<exists>nodes. parse (exSource e) = Inr nodes \<and> exNodes e = length nodes \<and> length nodes \<le> mx \<and>
     (\<forall>n\<in>set nodes. visitNode n = None))"

fun exprsOf :: "TemplateNode \<Rightarrow> Expression list" where
  "exprsOf (TLiteral _) = []"
| "exprsOf (TObject fs) = concat (map (\<lambda>kv. exprsOf (snd kv)) fs)"
| "exprsOf (TArray ts) = concat (map exprsOf ts)"
| "exprsOf (TExpr e) = [e]"
| "exprsOf (TAsset _ path query _) =
     (case path of None \<Rightarrow> [] | Some t \<Rightarrow> exprsOf t) @
     concat (map (\<lambda>kv. case snd kv of None \<Rightarrow> [] | Some t \<Rightarrow> exprsOf t) query)"
| "exprsOf (TEach e _ t) = e # exprsOf t"
| "exprsOf (TCond e t) = e # exprsOf t"

definition goodExprs :: "exprParser \<Rightarrow> nat \<Rightarrow> Expression list \<Rightarrow> nat \<Rightarrow> bool" where
  "goodExprs parse mx es c \<longleftrightarrow> c = sum_list (map exNodes es) \<and> (\<forall>e\<in>set es. goodExpr parse mx e)"

lemma goodExprs_Nil [simp]: "goodExprs parse mx [] c \<longleftrightarrow> c = 0"
  by (auto simp: goodExprs_def)

lemma goodExprs_append: "goodExprs parse mx es c \<Longrightarrow> goodExprs parse mx fs d \<Longrightarrow> goodExprs parse mx (es @ fs) (c + d)"
  by (auto simp: goodExprs_def)

lemma goodExprs_Cons: "goodExpr parse mx e \<Longrightarrow> goodExprs parse mx es c \<Longrightarrow> goodExprs parse mx (e # es) (exNodes e + c)"
  by (auto simp: goodExprs_def)

lemma goodExprs_concat:
  "list_all2 (\<lambda>x y. goodExprs parse mx (f y) (g y)) xs ys \<Longrightarrow> goodExprs parse mx (concat (map f ys)) (sum_list (map g ys))"
  by (induction rule: list_all2_induct) (auto intro: goodExprs_append)

lemma visitAll_fold:
  "fold (\<lambda>n (c, e). (Suc c, case visitNode n of None \<Rightarrow> e | Some x \<Rightarrow> Some x)) ns (k, e0) = (c, None) \<longleftrightarrow>
   c = k + length ns \<and> e0 = None \<and> (\<forall>n\<in>set ns. visitNode n = None)"
  by (induction ns arbitrary: k e0) (auto split: option.splits)

lemma compileExprSource_good: "compileExprSource parse mx src = Inr e \<Longrightarrow> goodExpr parse mx e"
  by (auto simp: compileExprSource_def visitAll_def visitAll_fold goodExpr_def
      split: sum.splits prod.splits option.splits if_splits)

lemma compileExprNode_good: "compileExprNode parse mx n = Inr e \<Longrightarrow> goodExpr parse mx e"
  by (auto simp: compileExprNode_def compileExprSource_good split: yamlNode.splits sum.splits if_splits)

lemma list_all2_mono_mem:
  "list_all2 P xs ys \<Longrightarrow> (\<And>x y. x \<in> set xs \<Longrightarrow> P x y \<Longrightarrow> Q x y) \<Longrightarrow> list_all2 Q xs ys"
  by (induction rule: list_all2_induct) auto

lemma compileBranch_good:
  assumes "compileBranch parse mx ns = Inr (t, c)"
    and IH: "\<And>n t c. n \<in> set ns \<Longrightarrow> compileTemplate parse mx n = Inr (t, c) \<Longrightarrow> goodExprs parse mx (exprsOf t) c"
  shows "goodExprs parse mx (exprsOf t) c"
proof -
  define f where "f kv = (case compileTemplate parse mx (snd kv) of Inl e \<Rightarrow> Inl e | Inr (t, c) \<Rightarrow> Inr ((fst kv, t), c))"
    for kv :: "string \<times> yamlNode"
  have object: "goodExprs parse mx (exprsOf t) c"
    if obj: "(case map_result f (pairsOf ns) of Inl e \<Rightarrow> Inl e | Inr xs \<Rightarrow> Inr (TObject (map fst xs), sum_list (map snd xs))) = Inr (t, c)"
  proof -
    obtain xs where xs: "list_all2 (\<lambda>kv y. f kv = Inr y) (pairsOf ns) xs" "t = TObject (map fst xs)" "c = sum_list (map snd xs)"
      using obj by (cases "map_result f (pairsOf ns)") (auto simp: map_result_Inr_iff)
    have "list_all2 (\<lambda>x y. goodExprs parse mx (exprsOf (snd (fst y))) (snd y)) (pairsOf ns) xs"
      using xs(1)
    proof (rule list_all2_mono_mem)
      fix kv y assume kv: "kv \<in> set (pairsOf ns)" "f kv = Inr y"
      then have "snd kv \<in> set ns" using pairsOf_member[of "fst kv" "snd kv" ns] by simp
      then show "goodExprs parse mx (exprsOf (snd (fst y))) (snd y)" using kv(2) IH by (auto simp: f_def split: sum.splits)
    qed
    from goodExprs_concat[OF this] show ?thesis by (simp add: xs comp_def)
  qed
  show ?thesis
    using assms(1) object IH[OF lookupNode_member] unfolding compileBranch.simps f_def[symmetric]
    by (auto simp: compileExprNode_good intro!: goodExprs_Cons split: option.splits bool.splits sum.splits prod.splits)
qed

lemma compileAsset_good:
  assumes "decodeAsset a = Inr ra"
    and IH: "\<And>n t c. size n < size a \<Longrightarrow> compileTemplate parse mx n = Inr (t, c) \<Longrightarrow> goodExprs parse mx (exprsOf t) c"
    and "(case raPath ra of None \<Rightarrow> Inr (None, 0)
          | Some n \<Rightarrow> (case compileTemplate parse mx n of Inl e \<Rightarrow> Inl e | Inr (t, c) \<Rightarrow> Inr (Some t, c))) = Inr (path, c)"
    and "map_result (\<lambda>kv. case snd kv of None \<Rightarrow> Inr ((fst kv, None), 0)
          | Some n \<Rightarrow> (case compileTemplate parse mx n of Inl e \<Rightarrow> Inl e | Inr (t, c) \<Rightarrow> Inr ((fst kv, Some t), c))) (raQuery ra) = Inr qs"
  shows "goodExprs parse mx (exprsOf (TAsset slot path (map fst qs) tr)) (c + sum_list (map snd qs))"
proof -
  have path: "goodExprs parse mx (case path of None \<Rightarrow> [] | Some t \<Rightarrow> exprsOf t) c"
    using assms(3) IH decodeAsset_smaller(1)[OF assms(1)] by (auto split: option.splits sum.splits)
  have "list_all2 (\<lambda>x y. goodExprs parse mx (case snd (fst y) of None \<Rightarrow> [] | Some t \<Rightarrow> exprsOf t) (snd y)) (raQuery ra) qs"
    using assms(4)[unfolded map_result_Inr_iff]
  proof (rule list_all2_mono_mem)
    fix kv y assume kv: "kv \<in> set (raQuery ra)" "(case snd kv of None \<Rightarrow> Inr ((fst kv, None), 0)
          | Some n \<Rightarrow> (case compileTemplate parse mx n of Inl e \<Rightarrow> Inl e | Inr (t, c) \<Rightarrow> Inr ((fst kv, Some t), c))) = Inr y"
    show "goodExprs parse mx (case snd (fst y) of None \<Rightarrow> [] | Some t \<Rightarrow> exprsOf t) (snd y)"
    proof (cases "snd kv")
      case None
      then show ?thesis using kv(2) by auto
    next
      case (Some n)
      have "(fst kv, Some n) \<in> set (raQuery ra)" using kv(1) Some by (metis prod.collapse)
      then have "size n < size a" by (rule decodeAsset_smaller(2)[OF assms(1)])
      then show ?thesis using kv(2) Some IH by (auto split: sum.splits)
    qed
  qed
  from goodExprs_append[OF path goodExprs_concat[OF this]] show ?thesis by (simp add: comp_def)
qed

lemma compileTemplate_good: "compileTemplate parse mx n = Inr (t, c) \<Longrightarrow> goodExprs parse mx (exprsOf t) c"
proof (induction "size n" arbitrary: n t c rule: less_induct)
  case less
  show ?case
  proof (cases n)
    case (YScalar v d)
    then show ?thesis using less(2) by (auto split: option.splits)
  next
    case (YSeq ns)
    then obtain xs where xs: "list_all2 (\<lambda>x y. compileTemplate parse mx x = Inr y) ns xs" "t = TArray (map fst xs)" "c = sum_list (map snd xs)"
      using less(2) by (auto simp: map_result_Inr_iff split: sum.splits)
    have "list_all2 (\<lambda>x y. goodExprs parse mx (exprsOf (fst y)) (snd y)) ns xs"
      using xs(1)
    proof (rule list_all2_mono_mem)
      fix x y assume x: "x \<in> set ns" "compileTemplate parse mx x = Inr y"
      have "size x < size n" using member_size[OF x(1)] by (simp add: YSeq)
      then show "goodExprs parse mx (exprsOf (fst y)) (snd y)" using less(1)[of x "fst y" "snd y"] x(2) by simp
    qed
    from goodExprs_concat[OF this] show ?thesis by (simp add: xs comp_def)
  next
    case (YMap ns)
    have branch: ?thesis if "compileBranch parse mx ns = Inr (t, c)"
      using that
    proof (rule compileBranch_good)
      fix x t c assume x: "x \<in> set ns" "compileTemplate parse mx x = Inr (t, c)"
      have "size x < size n" using member_size[OF x(1)] by (simp add: YMap)
      then show "goodExprs parse mx (exprsOf t) c" using less(1) x(2) by blast
    qed
    show ?thesis
    proof (cases "lookupNode ''expr'' ns = None \<and> lookupNode ''asset'' ns \<noteq> None \<and> keyCount ns = 1")
      case False
      then show ?thesis using less(2) branch compileExprNode_good
        by (auto simp: YMap goodExprs_def simp del: compileBranch.simps split: option.splits if_splits sum.splits)
    next
      case True
      then obtain a where a: "lookupNode ''asset'' ns = Some a" by auto
      have IH: "goodExprs parse mx (exprsOf t) c" if "size n < size a" "compileTemplate parse mx n = Inr (t, c)" for n t c
        using less(1)[OF _ that(2)] that(1) lookup_size[OF a] by (simp add: YMap)
      show ?thesis using less(2) True a compileAsset_good[OF _ IH]
        by (auto simp: YMap simp del: exprsOf.simps split: sum.splits)
    qed
  next
    case YAlias
    then show ?thesis using less(2) by simp
  qed
qed

definition maybeExprs :: "TemplateNode option \<Rightarrow> Expression list" where
  "maybeExprs t = (case t of None \<Rightarrow> [] | Some t \<Rightarrow> exprsOf t)"

definition mapExprs :: "templateMap \<Rightarrow> Expression list" where
  "mapExprs m = concat (map (\<lambda>kv. maybeExprs (snd kv)) m)"

definition bodyExprs :: "(TemplateNode option, templateMap) result option \<Rightarrow> Expression list" where
  "bodyExprs b = (case b of None \<Rightarrow> [] | Some (Inl t) \<Rightarrow> maybeExprs t | Some (Inr f) \<Rightarrow> mapExprs f)"

definition stepExprs :: "PipelineStep \<Rightarrow> Expression list" where
  "stepExprs s = (case psWhen s of None \<Rightarrow> [] | Some e \<Rightarrow> [e]) @ maybeExprs (qdPath (psRequest s)) @
     mapExprs (qdQuery (psRequest s)) @ mapExprs (qdHeaders (psRequest s)) @ bodyExprs (qdBody (psRequest s))"

definition operationExprs :: "OperationDef \<Rightarrow> Expression list" where
  "operationExprs op = concat (map stepExprs (odPipeline op)) @ maybeExprs (odOutput op)"

lemma compileMaybe_good: "compileMaybe parse mx n = Inr (t, c) \<Longrightarrow> goodExprs parse mx (maybeExprs t) c"
proof (cases n)
  case (Some x)
  assume "compileMaybe parse mx n = Inr (t, c)"
  then show ?thesis using compileTemplate_good
    by (cases "compileTemplate parse mx x") (auto simp: compileMaybe_def Some maybeExprs_def)
qed (auto simp: compileMaybe_def maybeExprs_def)

lemma compileMap_good:
  assumes "compileMap parse mx m = Inr (t, c)"
  shows "goodExprs parse mx (mapExprs t) c"
proof -
  define f where "f kv = map_sum id (apfst (Pair (fst kv))) (compileMaybe parse mx (snd kv))" for kv :: "string \<times> yamlNode option"
  obtain xs where xs: "list_all2 (\<lambda>kv y. f kv = Inr y) m xs" "t = map fst xs" "c = sum_list (map snd xs)"
    using assms unfolding compileMap_def f_def[symmetric]
    by (cases "map_result f m") (auto simp: map_result_Inr_iff)
  have "list_all2 (\<lambda>x y. goodExprs parse mx (maybeExprs (snd (fst y))) (snd y)) m xs"
    using xs(1)
  proof (rule list_all2_mono)
    fix kv y assume "f kv = Inr y"
    then show "goodExprs parse mx (maybeExprs (snd (fst y))) (snd y)"
      using compileMaybe_good[of parse mx "snd kv"] by (cases "compileMaybe parse mx (snd kv)") (auto simp: f_def)
  qed
  from goodExprs_concat[OF this] show ?thesis by (simp add: xs mapExprs_def comp_def)
qed

lemma compileBody_good: "compileBody parse mx b = Inr (t, c) \<Longrightarrow> goodExprs parse mx (bodyExprs t) c"
proof -
  assume a: "compileBody parse mx b = Inr (t, c)"
  consider "b = None" | json x where "b = Some (Some json, x)" | "b = Some (None, None)" | form where "b = Some (None, Some form)"
    by (cases b) (auto split: option.splits, metis option.exhaust surj_pair)
  then show ?thesis
  proof cases
    case (2 json x)
    then show ?thesis using a compileMaybe_good[of parse mx "Some json"]
      by (cases "compileMaybe parse mx (Some json)") (auto simp: compileBody_def bodyExprs_def)
  next
    case (4 form)
    then show ?thesis using a compileMap_good[of parse mx form]
      by (cases "compileMap parse mx form") (auto simp: compileBody_def bodyExprs_def)
  qed (use a in \<open>auto simp: compileBody_def bodyExprs_def maybeExprs_def\<close>)
qed

lemma compileWhen_good:
  "compileWhen parse mx n = Inr (w, c) \<Longrightarrow> goodExprs parse mx (case w of None \<Rightarrow> [] | Some e \<Rightarrow> [e]) c"
proof (cases n)
  case (Some x)
  assume "compileWhen parse mx n = Inr (w, c)"
  then show ?thesis using compileExprNode_good
    by (cases "compileExprNode parse mx x") (auto simp: compileWhen_def Some goodExprs_def)
qed (auto simp: compileWhen_def)

subsection \<open>Requests\<close>

definition requestCovered :: "PluginManifest \<Rightarrow> OperationDef \<Rightarrow> RequestDef \<Rightarrow> bool" where
  "requestCovered m op r \<longleftrightarrow>
     ''http'' \<in> set (pmCapabilities m) \<and> qdSlot r \<in> ssName ` set (pmSlots m) \<and>
     (\<exists>p tpl rt. qdPath r = Some (TLiteral (DStr p)) \<and> ParseTemplate p = Inr tpl \<and> qdTemplate r = Some tpl \<and>
        (\<forall>n\<in>set (Placeholders tpl). placeholderParam op n = None) \<and>
        rt \<in> set (odRoutes op) \<and> mrSlot rt = qdSlot r \<and> mrMethod rt = qdMethod r \<and> (mrUse rt = [] \<or> mrUse rt = ''data'') \<and>
        (\<forall>keys. mrQueryKeys rt = Some keys \<longrightarrow> fst ` set (qdQuery r) \<subseteq> set keys) \<and>
        (\<forall>vals path. Expand tpl vals = Inr path \<longrightarrow> (\<exists>g. Canonicalise (mrPath rt) = Inr g \<and> Match g path)))"

lemma CoveredBy_expansions:
  assumes "ParseTemplate p = Inr tpl" "CoveredBy tpl pattern" "Expand tpl vals = Inr path"
  shows "\<exists>g. Canonicalise pattern = Inr g \<and> Match g path"
proof -
  obtain g where g: "Canonicalise pattern = Inr g" using assms(2) by (auto simp: CoveredBy_def split: sum.splits)
  show ?thesis
  proof (cases "segments tpl = []")
    case True
    then have "g = ''/''" "path = ''/''" using assms(2,3) g by (auto simp: CoveredBy_def Expand_def)
    moreover have "Match ''/'' ''/''" by code_simp
    ultimately show ?thesis using g by simp
  next
    case False
    then show ?thesis using CoveredBy_Match[OF ParseTemplate_wellFormed[OF assms(1)] g False assms(2,3)] g by blast
  qed
qed

lemma validateRequest_covered:
  assumes "validateRequest m op r = Inr r'"
  shows "requestCovered m op r'" and "r' = r\<lparr>qdTemplate := qdTemplate r'\<rparr>"
proof -
  obtain p tpl rt where v: "hasCapability m ''http''" "qdSlot r \<in> ssName ` set (pmSlots m)" "qdPath r = Some (TLiteral (DStr p))"
      "ParseTemplate p = Inr tpl" "firstSome (map (placeholderParam op) (Placeholders tpl)) = None"
      "rt \<in> set (odRoutes op)" "coveringRoute r tpl rt" "r' = r\<lparr>qdTemplate := Some tpl\<rparr>"
    using assms by (auto simp: validateRequest_def list_ex_iff split: if_splits option.splits TemplateNode.splits doc.splits sum.splits)
  have keys: "\<forall>keys. mrQueryKeys rt = Some keys \<longrightarrow> fst ` set (qdQuery r') \<subseteq> set keys"
    using v(7,8) by (intro allI impI) (simp add: coveringRoute_def routeCoversRequest_def)
  have params: "\<forall>n\<in>set (Placeholders tpl). placeholderParam op n = None"
    using v(5) by (auto simp: firstSome_None)
  have "\<forall>vals path. Expand tpl vals = Inr path \<longrightarrow> (\<exists>g. Canonicalise (mrPath rt) = Inr g \<and> Match g path)"
    using CoveredBy_expansions[OF v(4)] v(7) by (auto simp: coveringRoute_def)
  then show "requestCovered m op r'" unfolding requestCovered_def
    using v keys params by (intro conjI exI[of _ p] exI[of _ tpl] exI[of _ rt]) (auto simp: hasCapability_def coveringRoute_def)
  show "r' = r\<lparr>qdTemplate := qdTemplate r'\<rparr>" using v(8) by simp
qed

text \<open>What the compiled steps and operations satisfy.\<close>

definition stepSound :: "exprParser \<Rightarrow> PluginManifest \<Rightarrow> OperationDef \<Rightarrow> PipelineStep \<Rightarrow> nat \<Rightarrow> bool" where
  "stepSound parse m op s c \<longleftrightarrow> requestCovered m op (psRequest s) \<and>
     goodExprs parse (nat (efExprNodes (pmLimits m))) (stepExprs s) c"

lemma requestCovered_cong:
  "pmCapabilities m = pmCapabilities m' \<Longrightarrow> pmSlots m = pmSlots m' \<Longrightarrow> odRoutes op = odRoutes op' \<Longrightarrow> odParams op = odParams op' \<Longrightarrow>
   requestCovered m op r = requestCovered m' op' r"
  by (simp add: requestCovered_def placeholderParam_def)

lemma compileStep_sound:
  assumes "compileStep parse m op st = Inr (s, c)"
  shows "stepSound parse m op s c"
proof -
  define mx where "mx = nat (efExprNodes (pmLimits m))"
  obtain w c0 path c1 query c2 headers c3 body c4 r where st:
      "compileWhen parse mx (rysWhen st) = Inr (w, c0)" "compileMaybe parse mx (ryqPath (rysRequest st)) = Inr (path, c1)"
      "compileMap parse mx (ryqQuery (rysRequest st)) = Inr (query, c2)" "compileMap parse mx (ryqHeaders (rysRequest st)) = Inr (headers, c3)"
      "compileBody parse mx (ryqBody (rysRequest st)) = Inr (body, c4)"
      "validateRequest m op \<lparr>qdSlot = ryqSlot (rysRequest st),
         qdMethod = (if ryqMethod (rysRequest st) = [] then ''GET'' else ryqMethod (rysRequest st)), qdPath = path,
         qdTemplate = None, qdQuery = query, qdHeaders = headers, qdBody = body\<rparr> = Inr r"
      "s = \<lparr>psAs = rysAs st, psWhen = w, psRequest = r\<rparr>" "c = c0 + c1 + c2 + c3 + c4"
    using assms by (auto simp: compileStep_def Let_def andThen_Inr mx_def)
  note v = validateRequest_covered[OF st(6)]
  have fields: "qdPath r = path" "qdQuery r = query" "qdHeaders r = headers" "qdBody r = body"
    using arg_cong[OF v(2), of qdPath] arg_cong[OF v(2), of qdQuery] arg_cong[OF v(2), of qdHeaders] arg_cong[OF v(2), of qdBody]
    by simp_all
  have "goodExprs parse mx (stepExprs s) (c0 + (c1 + (c2 + (c3 + c4))))"
    unfolding stepExprs_def st(7) PipelineStep.select_convs fields
    by (intro goodExprs_append compileWhen_good[OF st(1)] compileMaybe_good[OF st(2)] compileMap_good[OF st(3)]
        compileMap_good[OF st(4)] compileBody_good[OF st(5)])
  then show ?thesis using v(1) st(7,8) by (simp add: stepSound_def mx_def add.assoc)
qed

lemma compileOperation_sound:
  assumes "compileOperation parse m o1 = Inr (op, cnt, lits)"
  shows "(\<forall>s\<in>set (odPipeline op). requestCovered m op (psRequest s)) \<and>
    goodExprs parse (nat (efExprNodes (pmLimits m))) (operationExprs op) cnt \<and> cnt \<le> 4096 \<and>
    validateOutput m op (odOutput op) = None"
proof -
  define op0 where "op0 = \<lparr>odID = ryoID o1, odName = ryoName o1, odDefaultRefresh = ryoDefaultRefresh o1, odParams = ryoParams o1,
                odRoutes = ryoRoutes o1, odSignals = ryoSignals o1, odPipeline = [], odOutput = None\<rparr>"
  obtain steps outp c where o: "list_all2 (\<lambda>x y. compileStep parse m op0 x = Inr y) (ryoPipeline o1) steps"
      "compileMaybe parse (nat (efExprNodes (pmLimits m))) (ryoOutput o1) = Inr (outp, c)"
      "op = op0\<lparr>odPipeline := map fst steps, odOutput := outp\<rparr>" "cnt = sum_list (map snd steps) + c"
      "cnt \<le> 4096" "validateOutput m op outp = None"
    using assms unfolding compileOperation_def Let_def op0_def[symmetric] andThen_Inr map_result_Inr_iff
    by (auto split: if_splits option.splits)
  have sound: "list_all2 (\<lambda>x y. stepSound parse m op0 (fst y) (snd y)) (ryoPipeline o1) steps"
    using o(1) by (rule list_all2_mono) (metis compileStep_sound prod.collapse)
  then have "goodExprs parse (nat (efExprNodes (pmLimits m))) (concat (map stepExprs (odPipeline op))) (sum_list (map snd steps))"
    using goodExprs_concat[of parse "nat (efExprNodes (pmLimits m))" "\<lambda>y. stepExprs (fst y)" snd "ryoPipeline o1" steps]
    by (simp add: o(3) comp_def stepSound_def list_all2_conv_all_nth)
  then have "goodExprs parse (nat (efExprNodes (pmLimits m))) (operationExprs op) cnt"
    unfolding operationExprs_def o(4) using compileMaybe_good[OF o(2)] by (simp add: o(3) goodExprs_append)
  moreover have "requestCovered m op0 (psRequest s)" if "s \<in> set (odPipeline op)" for s
  proof -
    have "\<forall>y\<in>set steps. \<exists>x\<in>set (ryoPipeline o1). stepSound parse m op0 (fst y) (snd y)"
      using list_all2_members[OF sound] by blast
    then show ?thesis using that by (auto simp: o(3) stepSound_def)
  qed
  moreover have "requestCovered m op r = requestCovered m op0 r" for r by (rule requestCovered_cong) (simp_all add: o(3))
  ultimately show ?thesis using o(3,5,6) by simp
qed

lemma loaded_operation:
  assumes "loadBytes lib path ext rw = Inr m" "op \<in> set (pmOperations m)"
  obtains m0 o1 cnt lits where "compileOperation (llParse lib) m0 o1 = Inr (op, cnt, lits)"
    "pmCapabilities m0 = pmCapabilities m" "pmSlots m0 = pmSlots m" "pmLimits m0 = pmLimits m"
proof -
  obtain digest d ops where l: "map_result (compileOperation (llParse lib) (emptyPlugin path digest d)) (rymOperations d) = Inr ops"
      "m = (emptyPlugin path digest d)\<lparr>pmOperations := map fst ops\<rparr>"
    using assms(1) by (auto simp: loadBytes_def andThen_Inr Let_def split: if_splits sum.splits option.splits)
  define m0 where "m0 = emptyPlugin path digest d"
  note m = l[folded m0_def]
  obtain y where y: "y \<in> set ops" "op = fst y" using assms(2) m(2) by auto
  obtain o1 where "compileOperation (llParse lib) m0 o1 = Inr y"
    using list_all2_members[OF m(1)[unfolded map_result_Inr_iff]] y(1) by blast
  then show ?thesis using that[of m0 o1 "fst (snd y)" "snd (snd y)"] m(2) y(2) by simp
qed

lemma readBoundedFile_whole: "readBoundedFile file mx = Inr rw \<Longrightarrow> file = Inr rw \<and> int (length rw) \<le> mx"
  by (auto simp: readBoundedFile_def Let_def min_def split: sum.splits if_splits)

lemma loadBytes_digest: "loadBytes lib path ext rw = Inr m \<Longrightarrow> llDigest lib rw ext = Inr (pmDigest m)"
  by (cases "llDigest lib rw ext")
    (auto simp: loadBytes_def andThen_Inr Let_def emptyPlugin_def split: if_splits sum.splits option.splits)

lemma Load_cases:
  assumes "Load lib path ext file = Inr m"
  obtains rw where "file = Inr rw" "int (length rw) \<le> maxManifestBytes" "loadBytes lib path ext rw = Inr m"
    "llDigest lib rw ext = Inr (pmDigest m)"
proof (cases "readBoundedFile file maxManifestBytes")
  case (Inr rw)
  then have "loadBytes lib path ext rw = Inr m" using assms by (simp add: Load_def)
  then show ?thesis using that readBoundedFile_whole[OF Inr] loadBytes_digest by blast
qed (use assms in \<open>simp add: Load_def\<close>)

section \<open>Properties\<close>


definition demoRequestNode :: yamlNode where
  "demoRequestNode = YMap [YScalar ''expr'' (Some (DStr ''expr'')), YScalar ''params.limit'' (Some (DStr ''params.limit''))]"

definition demoOperation :: rawOperation where
  "demoOperation = \<lparr>ryoID = ''list'', ryoName = ''List'', ryoDefaultRefresh = ''1m'',
     ryoParams = DMap [(''properties'', DMap [(''kind'', DMap [(''type'', DStr ''string'')])]), (''required'', DList [DStr ''kind''])],
     ryoRoutes = [\<lparr>mrSlot = ''main'', mrMethod = ''GET'', mrPath = ''/items/*'', mrUse = [], mrReason = [],
       mrQueryKeys = Some [''limit''], mrContentType = [], mrMaxBodyKB = 0\<rparr>],
     ryoSignals = [], ryoPipeline = [\<lparr>rysAs = ''items'', rysWhen = None, rysRequest =
       \<lparr>ryqSlot = ''main'', ryqMethod = [], ryqPath = Some (YScalar ''/items/{kind}'' (Some (DStr ''/items/{kind}''))),
        ryqQuery = [(''limit'', Some demoRequestNode)], ryqHeaders = [], ryqBody = None\<rparr>\<rparr>],
     ryoOutput = Some (YMap [YScalar ''title'' (Some (DStr ''title'')), YScalar ''Items'' (Some (DStr ''Items''))])\<rparr>"

definition demoRaw :: rawManifest where
  "demoRaw = \<lparr>rymID = ''demo'', rymName = ''Demo'', rymVersion = ''1.0.0'', rymRuntime = ''declarative'', rymModule = [],
     rymSHA256 = [], rymCapabilities = [''http''], rymSlots = [(''main'', ''http'', None)],
     rymLimits = zeroLimits, rymOperations = [demoOperation]\<rparr>"

definition demoLoad :: loadLib where
  "demoLoad = \<lparr>llYAML = (\<lambda>_. Inr (Some (YScalar [] (Some DNull)))), llSchema = (\<lambda>_. Inr ()), llDecode = (\<lambda>_. Inr demoRaw),
     llDigest = (\<lambda>_ _. Inr ''d1''), llParse = (\<lambda>_. Inr [VSupported, VIdentifier ''params''])\<rparr>"

lemma demo_template: "ParseTemplate ''/items/{kind}'' = Inr \<lparr>raw = ''/items/{kind}'',
    segments = [\<lparr>literal = ''items'', placeholder = []\<rparr>, \<lparr>literal = [], placeholder = ''kind''\<rparr>]\<rparr>"
  by code_simp

lemma demo_covered: "CoveredBy \<lparr>raw = ''/items/{kind}'',
    segments = [\<lparr>literal = ''items'', placeholder = []\<rparr>, \<lparr>literal = [], placeholder = ''kind''\<rparr>]\<rparr> ''/items/*''"
  by code_simp

definition demoTemplate :: Template where
  "demoTemplate = \<lparr>raw = ''/items/{kind}'',
     segments = [\<lparr>literal = ''items'', placeholder = []\<rparr>, \<lparr>literal = [], placeholder = ''kind''\<rparr>]\<rparr>"

definition demoStep :: PipelineStep where
  "demoStep = \<lparr>psAs = ''items'', psWhen = None, psRequest = \<lparr>qdSlot = ''main'', qdMethod = ''GET'',
     qdPath = Some (TLiteral (DStr ''/items/{kind}'')), qdTemplate = Some demoTemplate,
     qdQuery = [(''limit'', Some (TExpr \<lparr>exSource = ''params.limit'', exNodes = 2\<rparr>))], qdHeaders = [], qdBody = None\<rparr>\<rparr>"

definition demoOp :: OperationDef where
  "demoOp = \<lparr>odID = ''list'', odName = ''List'', odDefaultRefresh = ''1m'', odParams = ryoParams demoOperation,
     odRoutes = ryoRoutes demoOperation, odSignals = [], odPipeline = [demoStep],
     odOutput = Some (TObject [(''title'', TLiteral (DStr ''Items''))])\<rparr>"

lemmas loader_eval = lookupNode_def childNode_def isNull_def textField_def keyCount_def compileExprNode_def
  compileExprSource_def visitAll_def visitNode_def compileMaybe_def compileMap_def compileBody_def compileWhen_def andThen_def

lemma demo_placeholders: "Placeholders demoTemplate = [''kind'']"
  by (simp add: Placeholders_def demoTemplate_def)

lemma demo_compiled:
  "compileOperation (llParse demoLoad) (emptyPlugin ''p'' ''d1'' demoRaw) demoOperation = Inr (demoOp, 2, 5)"
proof -
  define m where "m = emptyPlugin ''p'' ''d1'' demoRaw"
  have m: "pmCapabilities m = [''http'']" "ssName ` set (pmSlots m) = {''main''}" "efExprNodes (pmLimits m) = 512"
    by (simp_all add: m_def emptyPlugin_def demoRaw_def WithDefaults_def zeroLimits_def defaultTo_def)
  define op where "op = demoOp\<lparr>odPipeline := [], odOutput := None\<rparr>"
  have param: "placeholderParam op ''kind'' = None"
    by (simp add: placeholderParam_def op_def demoOp_def demoOperation_def mapOf_def field_def strOf_def sliceOf_def)
  have cover: "list_ex (coveringRoute ((psRequest demoStep)\<lparr>qdTemplate := None\<rparr>) demoTemplate) (odRoutes op)"
    by (simp add: coveringRoute_def routeCoversRequest_def demo_covered[folded demoTemplate_def] op_def demoOp_def demoOperation_def demoStep_def)
  have req: "validateRequest m op ((psRequest demoStep)\<lparr>qdTemplate := None\<rparr>) = Inr (psRequest demoStep)"
    using cover by (simp add: validateRequest_def hasCapability_def m demoStep_def demo_template[folded demoTemplate_def] demo_placeholders param)
  have expr: "compileTemplate (llParse demoLoad) 512 demoRequestNode = Inr (TExpr \<lparr>exSource = ''params.limit'', exNodes = 2\<rparr>, 2)"
    by (simp add: demoRequestNode_def loader_eval demoLoad_def HasPrefix_def)
  have step: "compileStep (llParse demoLoad) m op (hd (ryoPipeline demoOperation)) = Inr (demoStep, 2)"
    using req by (simp add: compileStep_def Let_def m loader_eval expr demoOperation_def demoStep_def)
  have out: "compileMaybe (llParse demoLoad) 512 (ryoOutput demoOperation) = Inr (odOutput demoOp, 0)"
    by (simp add: compileMaybe_def demoOperation_def demoOp_def lookupNode_def keyCount_def)
  show ?thesis unfolding m_def[symmetric]
    using step out
    by (simp add: compileOperation_def Let_def andThen_def m demoOperation_def op_def demoOp_def validateOutput_def undeclaredSignals_def)
qed

lemma demo_loaded:
  obtains m where "Load demoLoad ''p'' ''.yaml'' (Inr ''x'') = Inr m" "demoOp \<in> set (pmOperations m)" "demoStep \<in> set (odPipeline demoOp)"
    "operationExprs demoOp = [\<lparr>exSource = ''params.limit'', exNodes = 2\<rparr>]"
proof -
  have "loadBytes demoLoad ''p'' ''.yaml'' ''x'' = Inr ((emptyPlugin ''p'' ''d1'' demoRaw)\<lparr>pmOperations := [demoOp]\<rparr>)"
    using demo_compiled
    by (simp add: loadBytes_def maxManifestBytes_def demoLoad_def checkYAML_def andThen_def Let_def) (simp add: demoRaw_def)
  then have "Load demoLoad ''p'' ''.yaml'' (Inr ''x'') = Inr ((emptyPlugin ''p'' ''d1'' demoRaw)\<lparr>pmOperations := [demoOp]\<rparr>)"
    by (simp add: Load_def readBoundedFile_def maxManifestBytes_def)
  then show ?thesis
    using that by (simp add: demoOp_def demoStep_def operationExprs_def stepExprs_def maybeExprs_def mapExprs_def bodyExprs_def)
qed


text \<open>
  C21. Every expression of a manifest that loads stays in its bounds: it parses, none of its nodes is an
  environment access, an internal name, a pattern match, an unlisted call or an unsupported construct, it has
  no more nodes than the manifest's limit allows, and one operation has at most 4096 nodes in all.
\<close>

theorem loaded_expressions_bounded:
  assumes "Load lib path ext file = Inr m" "op \<in> set (pmOperations m)"
  shows "(\<forall>e\<in>set (operationExprs op). goodExpr (llParse lib) (nat (efExprNodes (pmLimits m))) e) \<and>
    sum_list (map exNodes (operationExprs op)) \<le> 4096"
proof -
  obtain rw where rw: "loadBytes lib path ext rw = Inr m" using assms(1) by (rule Load_cases)
  obtain m0 o1 cnt lits where o: "compileOperation (llParse lib) m0 o1 = Inr (op, cnt, lits)" "pmLimits m0 = pmLimits m"
    using rw assms(2) by (rule loaded_operation)
  show ?thesis using compileOperation_sound[OF o(1)] by (simp add: goodExprs_def o(2))
qed

lemma loaded_expressions_bounded_witness:
  "\<exists>nodes. llParse demoLoad ''params.limit'' = Inr nodes \<and> length nodes = 2 \<and> (\<forall>n\<in>set nodes. visitNode n = None)"
proof -
  obtain m where d: "Load demoLoad ''p'' ''.yaml'' (Inr ''x'') = Inr m" "demoOp \<in> set (pmOperations m)"
      "operationExprs demoOp = [\<lparr>exSource = ''params.limit'', exNodes = 2\<rparr>]"
    by (rule demo_loaded)
  show ?thesis using loaded_expressions_bounded[OF d(1,2)] by (auto simp: d(3) goodExpr_def)
qed

text \<open>
  Coverage as the loader and the document checker prove it does not reach the media type.  A route that
  declares a JSON type with a parameter covers a JSON request for both of them, but the broker compares the
  whole normalised type with the plain \<open>application/json\<close> that the runtime sends, so it refuses every such
  request.
\<close>

theorem media_type_coverage_gap:
  assumes "normaliseMediaType mime ''application/json'' = Some ''application/json''"
    and "normaliseMediaType mime ''application/json; charset=utf-8'' = Some ''application/json; charset=utf-8''"
    and "mrContentType rt = ''application/json; charset=utf-8''" "mrQueryKeys rt = None"
    and "qdBody req = Some (Inl t)" "clMime lib = mime"
    and "qHeader hreq = [(''Content-Type'', ''application/json'')]"
  shows "routeCoversRequest rt req \<and>
    tryCandidate lib [] ''json'' [(''contentType'', DStr ''application/json; charset=utf-8'')] = Satisfied \<and>
    \<not> routePermits mime kb hreq c use (brokerRoute rt)"
proof (intro conjI)
  show "routeCoversRequest rt req"
    using assms(3-5) by (simp add: routeCoversRequest_def HasPrefix_def lower_byte_def)
  show "tryCandidate lib [] ''json'' [(''contentType'', DStr ''application/json; charset=utf-8'')] = Satisfied"
    using assms(2,6) by (simp add: tryCandidate_def strOf_def field_def cutOrAll_def isJSONType_def Let_def)
  show "\<not> routePermits mime kb hreq c use (brokerRoute rt)"
    using assms(1-3,7) by (simp add: routePermits_def brokerRoute_def contentTypeAllowed_def)
qed

lemma media_type_coverage_gap_witness:
  "\<exists>rt kb. (\<forall>hreq. qHeader hreq = [(''Content-Type'', ''application/json'')] \<longrightarrow>
     \<not> routePermits \<lparr>ParseMediaType = (\<lambda>s. Some (s, [])), FormatMediaType = (\<lambda>mt ps. mt)\<rparr> kb hreq ''/'' UseData (brokerRoute rt)) \<and>
     mrContentType rt = ''application/json; charset=utf-8''"
proof -
  define mime where "mime = \<lparr>ParseMediaType = (\<lambda>s. Some (s, [])), FormatMediaType = (\<lambda>mt ps. mt)\<rparr>"
  define rt where "rt = \<lparr>mrSlot = ''main'', mrMethod = ''POST'', mrPath = ''/'', mrUse = [], mrReason = [],
     mrQueryKeys = None, mrContentType = ''application/json; charset=utf-8'', mrMaxBodyKB = 0\<rparr>"
  have n: "normaliseMediaType mime ''application/json'' = Some ''application/json''"
    "normaliseMediaType mime ''application/json; charset=utf-8'' = Some ''application/json; charset=utf-8''"
    by (simp_all add: mime_def normaliseMediaType_def lower_byte_def)
  show ?thesis
    using media_type_coverage_gap[OF n, of rt "psRequest demoStep\<lparr>qdBody := Some (Inl None)\<rparr>" None "clean_lib\<lparr>clMime := mime\<rparr>"]
    by (intro exI[of _ rt]) (auto simp: rt_def mime_def)
qed

end
