(* ===== verification/Spec2Isabelle.thy ===== *)
theory Spec2Isabelle
  imports Prelude Utf8 RoutePath Connections QueryStrings AssetTokens Capabilities Widgets Secrets CardState Storage Scheduler Integrations SecretRefs GoTime Outbox Rules AuthSystem Netip Gateway CrossChecks Validation Assets Loader
begin

text \<open>
  A verification library for \<open>veduta\<close>, a self-hosted dashboard server written in Go (sources under
  \<open>src/internal\<close>).
\<close>

end
